(* ===== verification/Tunnel_Prelude.thy ===== *)
theory Tunnel_Prelude
  imports Main "HOL-Library.Word" "HOL-Library.Char_ord" "HOL-Library.List_Lexorder"
    "HOL-Library.Multiset"
begin

text \<open>
  Shared vocabulary of the development: the machine types of the Go sources, durations,
  the lemma collections that carry the component proofs, and the generic facts on lists,
  options and words that more than one component needs.

  Go's \<^verbatim>\<open>string\<close> is a byte sequence, so it is Isabelle's \<^typ>\<open>string\<close> (a list of
  8-bit characters); \<^verbatim>\<open>[]byte\<close> is a list of 8-bit words. A \<^verbatim>\<open>time.Time\<close> and a
  \<^verbatim>\<open>time.Duration\<close> are integers counting nanoseconds.
\<close>

named_theorems wire_simps \<open>rewrite rules of the byte-level codecs\<close>
named_theorems vk_simps \<open>rewrite rules of the Valkey command semantics\<close>
named_theorems inv_intros \<open>preservation lemmas of the component invariants\<close>

type_synonym byte = "8 word"
type_synonym bytes = "byte list"
type_synonym duration = int

abbreviation Millisecond :: duration where "Millisecond \<equiv> 1000000"
abbreviation Second :: duration where "Second \<equiv> 1000000000"
abbreviation Minute :: duration where "Minute \<equiv> 60000000000"
abbreviation Hour :: duration where "Hour \<equiv> 3600000000000"

abbreviation MaxInt64 :: int where "MaxInt64 \<equiv> 9223372036854775807"
abbreviation MinInt64 :: int where "MinInt64 \<equiv> - 9223372036854775808"

subsection \<open>Lists\<close>

lemma split_at_append [simp]:
  "n = length xs \<Longrightarrow> take n (xs @ ys) = xs"
  "n = length xs \<Longrightarrow> drop n (xs @ ys) = ys"
  by simp_all

lemma length_ge_Suc_conv: "Suc n \<le> length xs \<longleftrightarrow> (\<exists>y ys. xs = y # ys \<and> n \<le> length ys)"
  by (cases xs) auto

lemma mset_filter_eq: "mset xs = mset ys \<Longrightarrow> mset (filter P xs) = mset (filter P ys)"
  by (simp add: mset_filter)

lemma mset_map_eq: "mset xs = mset ys \<Longrightarrow> mset (map f xs) = mset (map f ys)"
  by (simp add: mset_map)

lemma sort_map_mset_eq:
  "mset xs = mset ys \<Longrightarrow> sort (map f xs) = sort (map f ys)"
  by (metis mset_map_eq mset_sort properties_for_sort sorted_sort)

subsection \<open>Words and bytes\<close>

lemma unat_byte_less [simp]: "unat (b :: byte) < 256"
  using unsigned_less [of b, where ?'a = nat] by simp

lemma unat_byte_le [simp]: "unat (b :: byte) \<le> 255"
  using unat_byte_less [of b] by linarith

definition be16 :: "byte \<Rightarrow> byte \<Rightarrow> nat" where
  "be16 hi lo = unat hi * 256 + unat lo"

definition put16 :: "nat \<Rightarrow> bytes" where
  "put16 n = [word_of_nat (n div 256), word_of_nat n]"

lemma length_put16 [simp]: "length (put16 n) = 2"
  by (simp add: put16_def)

lemma be16_less: "be16 hi lo < 65536"
  using unat_byte_less [of hi] unat_byte_less [of lo] unfolding be16_def by linarith

lemma unat_byte_of_nat: "unat (word_of_nat n :: byte) = n mod 256"
  by (simp add: unat_of_nat)

lemma be16_put16 [wire_simps]:
  "n < 65536 \<Longrightarrow> be16 (word_of_nat (n div 256)) (word_of_nat n) = n"
  by (simp add: be16_def unat_byte_of_nat)

lemma be16_zero [simp]: "be16 0 lo = unat lo"
  by (simp add: be16_def)

end
