(* ===== verification/Client_Hello.thy ===== *)
theory Client_Hello
  imports Go_Strings
begin

text \<open>
  The ClientHello peek of \<^verbatim>\<open>src/internal/edge/clienthello.go\<close>: the record parser, its
  extension sub-parsers and the JA4 fingerprint. SHA-256 is the argument \<open>sha256\<close> of the
  fingerprint functions; nothing is assumed of it. The error \<^verbatim>\<open>errBadClientHello\<close> is
  \<open>None\<close>. Shown: the parser recovers name, protocol and version from every well-formed
  hello (a reference encoder is given), and the whole result, fingerprint included, does
  not depend on the order of ciphers and extensions.
\<close>

record ClientHelloInfo =
  SNI :: string
  ALPN :: string
  TLSVersion :: string
  JA4 :: string

text \<open>\<^verbatim>\<open>uint16(hi)<<8 | uint16(lo)\<close>.\<close>

definition u16 :: "byte \<Rightarrow> byte \<Rightarrow> 16 word" where
  "u16 hi lo = or (push_bit 8 (ucast hi)) (ucast lo)"

definition isGREASE :: "16 word \<Rightarrow> bool" where
  "isGREASE v \<longleftrightarrow> and v 0x0f0f = 0x0a0a \<and> drop_bit 8 v = and v 0xff"

text \<open>The loops \<^verbatim>\<open>for i := 0; i+1 < l; i += 2\<close> read a byte string pairwise.\<close>

fun u16s :: "bytes \<Rightarrow> 16 word list" where
  "u16s (hi # lo # bs) = u16 hi lo # u16s bs"
| "u16s _ = []"

function parseSNI_list :: "bytes \<Rightarrow> string" where
  "parseSNI_list list =
     (if length list < 3 then []
      else let nlen = be16 (list ! 1) (list ! 2) in
        if list ! 0 = 0 \<and> length list \<ge> 3 + nlen then string_of_bytes (take nlen (drop 3 list))
        else if length list < 3 + nlen then []
        else parseSNI_list (drop (3 + nlen) list))"
  by pat_completeness auto
termination
  by (relation "measure length") auto

declare parseSNI_list.simps [simp del]

definition parseSNI :: "bytes \<Rightarrow> string" where
  "parseSNI data = (if length data < 2 then [] else parseSNI_list (drop 2 data))"

definition parseFirstALPN :: "bytes \<Rightarrow> string" where
  "parseFirstALPN data =
     (if length data < 3 then []
      else let list = drop 2 data in
        if length list < 1 then []
        else let l = unat (list ! 0) in
          if length list < 1 + l then [] else string_of_bytes (take l (drop 1 list)))"

definition parseUint16List :: "bytes \<Rightarrow> 16 word list" where
  "parseUint16List data =
     (if length data < 2 then []
      else let l = be16 (data ! 0) (data ! 1); body = drop 2 data in
        if length body < l then [] else u16s (take l body))"

definition parseSupportedVersionsMax :: "bytes \<Rightarrow> 16 word" where
  "parseSupportedVersionsMax data =
     (if length data < 1 then 0
      else let l = unat (data ! 0); body = drop 1 data in
        if length body < l then 0
        else foldl (\<lambda>maxv v. if isGREASE v then maxv else if v > maxv then v else maxv)
               0 (u16s (take l body)))"

definition pickVersion :: "16 word \<Rightarrow> 16 word \<Rightarrow> 16 word" where
  "pickVersion legacy supported = (if supported \<noteq> 0 then supported else legacy)"

definition versionString :: "16 word \<Rightarrow> string" where
  "versionString v =
     (if v = 0x0304 then ''1.3'' else if v = 0x0303 then ''1.2''
      else if v = 0x0302 then ''1.1'' else if v = 0x0301 then ''1.0''
      else ''0x'' @ hex04 v)"

definition hexList :: "16 word list \<Rightarrow> string list" where
  "hexList vs = map hex04 vs"

definition sortedHex :: "16 word list \<Rightarrow> string list" where
  "sortedHex vs = sort (hexList vs)"

definition minExt :: "16 word list \<Rightarrow> nat" where
  "minExt ext = min (length ext) 99"

definition sha12 :: "(bytes \<Rightarrow> bytes) \<Rightarrow> string \<Rightarrow> string" where
  "sha12 sha256 s =
     (if s = [] then ''000000000000''
      else take 12 (hex_EncodeToString (sha256 (bytes_of_string s))))"

definition ja4_alpn :: "string \<Rightarrow> string" where
  "ja4_alpn alpn =
     (if alpn = [] then ''00''
      else if isAlnum (hd alpn) \<and> isAlnum (last alpn) then [hd alpn, last alpn]
      else let h = hex_EncodeToString (bytes_of_string alpn) in [hd h, last h])"

definition computeJA4 ::
  "(bytes \<Rightarrow> bytes) \<Rightarrow> ClientHelloInfo \<Rightarrow> 16 word list \<Rightarrow> 16 word list \<Rightarrow> 16 word list \<Rightarrow> string" where
  "computeJA4 sha256 info ciphers extIDs sigAlgs =
     (let ver = (if TLSVersion info = ''1.2'' then ''12'' else if TLSVersion info = ''1.1'' then ''11''
                 else if TLSVersion info = ''1.0'' then ''10'' else ''13'');
          sniFlag = (if SNI info \<noteq> [] then ''d'' else ''i'');
          a = ''t'' @ ver @ sniFlag @ dec02 (min (length ciphers) 99) @ dec02 (minExt extIDs)
              @ ja4_alpn (ALPN info);
          b = sha12 sha256 (Join (sortedHex ciphers) '','');
          filtered = filter (\<lambda>e. \<not> (e = 0x0000 \<or> e = 0x0010)) extIDs;
          extPart = Join (sortedHex filtered) '','';
          extPart' = (if length sigAlgs > 0 then extPart @ ''_'' @ Join (hexList sigAlgs) '',''
                      else extPart);
          c = sha12 sha256 extPart'
      in a @ ''_'' @ b @ ''_'' @ c)"

text \<open>The variables the extension loop assigns.\<close>

record ext_acc =
  xSNI :: string
  xALPN :: string
  extIDs :: "16 word list"
  sigAlgs :: "16 word list"
  supportedVerMax :: "16 word"

definition ext_acc0 :: ext_acc where
  "ext_acc0 = \<lparr>xSNI = [], xALPN = [], extIDs = [], sigAlgs = [], supportedVerMax = 0\<rparr>"

definition ext_step :: "16 word \<Rightarrow> bytes \<Rightarrow> ext_acc \<Rightarrow> ext_acc" where
  "ext_step etype data st =
     (let st = (if \<not> isGREASE etype then st\<lparr>extIDs := extIDs st @ [etype]\<rparr> else st) in
      if etype = 0x0000 then st\<lparr>xSNI := parseSNI data\<rparr>
      else if etype = 0x0010 then st\<lparr>xALPN := parseFirstALPN data\<rparr>
      else if etype = 0x000d then st\<lparr>sigAlgs := parseUint16List data\<rparr>
      else if etype = 0x002b then st\<lparr>supportedVerMax := parseSupportedVersionsMax data\<rparr>
      else st)"

function ext_loop :: "bytes \<Rightarrow> ext_acc \<Rightarrow> ext_acc" where
  "ext_loop ext st =
     (if length ext < 4 then st
      else let etype = u16 (ext ! 0) (ext ! 1); elen = be16 (ext ! 2) (ext ! 3);
               ext' = drop 4 ext in
        if length ext' < elen then st
        else ext_loop (drop elen ext') (ext_step etype (take elen ext') st))"
  by pat_completeness auto
termination
  by (relation "measure (length \<circ> fst)") auto

declare ext_loop.simps [simp del]

definition finish_hello ::
  "(bytes \<Rightarrow> bytes) \<Rightarrow> 16 word \<Rightarrow> 16 word list \<Rightarrow> ext_acc \<Rightarrow> ClientHelloInfo" where
  "finish_hello sha256 legacyVer ciphers st =
     (let info = \<lparr>SNI = xSNI st, ALPN = xALPN st,
                  TLSVersion = versionString (pickVersion legacyVer (supportedVerMax st)), JA4 = []\<rparr>
      in info\<lparr>JA4 := computeJA4 sha256 info ciphers (extIDs st) (sigAlgs st)\<rparr>)"

definition parseClientHello :: "(bytes \<Rightarrow> bytes) \<Rightarrow> bytes \<Rightarrow> ClientHelloInfo option" where
  "parseClientHello sha256 record =
     (if length record < 5 \<or> record ! 0 \<noteq> 0x16 then None
      else let hs = drop 5 record in
      if length hs < 4 \<or> hs ! 0 \<noteq> 0x01 then None
      else let b = drop 4 hs in
      if length b < 34 then None
      else let legacyVer = u16 (b ! 0) (b ! 1); b = drop 34 b in
      if length b < 1 then None
      else let sidLen = unat (b ! 0); b = drop 1 b in
      if length b < sidLen then None
      else let b = drop sidLen b in
      if length b < 2 then None
      else let csLen = be16 (b ! 0) (b ! 1); b = drop 2 b in
      if length b < csLen \<or> csLen mod 2 \<noteq> 0 then None
      else let ciphers = filter (\<lambda>v. \<not> isGREASE v) (u16s (take csLen b)); b = drop csLen b in
      if length b < 1 then None
      else let compLen = unat (b ! 0); b = drop 1 b in
      if length b < compLen then None
      else let b = drop compLen b in
      if length b \<ge> 2 then
        (let extTotal = be16 (b ! 0) (b ! 1); b = drop 2 b in
         if length b < extTotal then None
         else Some (finish_hello sha256 legacyVer ciphers (ext_loop (take extTotal b) ext_acc0)))
      else Some (finish_hello sha256 legacyVer ciphers ext_acc0))"

subsection \<open>Reference encoder\<close>

text \<open>
  The wire form of a hello (RFC 8446, section 4.1.2, in one TLS record) and of the three
  extensions the router reads. Used to state what the parser recovers; the record's own
  length fields are written out though the parser does not look at them. A hello of TLS 1.2
  or older may end after the compression methods, with no extension block at all.
\<close>

record hello =
  h_version :: "16 word"
  h_random :: bytes
  h_session :: bytes
  h_ciphers :: "16 word list"
  h_compression :: bytes
  h_block :: bool
  h_exts :: "(16 word \<times> bytes) list"

definition put_u16 :: "16 word \<Rightarrow> bytes" where
  "put_u16 w = [ucast (drop_bit 8 w), ucast w]"

definition encode_ext :: "16 word \<times> bytes \<Rightarrow> bytes" where
  "encode_ext e = put_u16 (fst e) @ put16 (length (snd e)) @ snd e"

definition encode_exts :: "(16 word \<times> bytes) list \<Rightarrow> bytes" where
  "encode_exts es = concat (map encode_ext es)"

definition encode_hello_body :: "hello \<Rightarrow> bytes" where
  "encode_hello_body h =
     put_u16 (h_version h) @ h_random h
     @ word_of_nat (length (h_session h)) # h_session h
     @ put16 (2 * length (h_ciphers h)) @ concat (map put_u16 (h_ciphers h))
     @ word_of_nat (length (h_compression h)) # h_compression h
     @ (if h_block h then put16 (length (encode_exts (h_exts h))) @ encode_exts (h_exts h) else [])"

definition encode_hello :: "hello \<Rightarrow> bytes" where
  "encode_hello h =
     (let body = encode_hello_body h; n = length body in
      [0x16, 3, 1] @ put16 (n + 4) @ [1, word_of_nat (n div 65536)] @ put16 n @ body)"

definition wf_hello :: "hello \<Rightarrow> bool" where
  "wf_hello h \<longleftrightarrow>
     length (h_random h) = 32 \<and> length (h_session h) < 256
     \<and> 2 * length (h_ciphers h) < 65536 \<and> length (h_compression h) < 256
     \<and> (\<forall>e \<in> set (h_exts h). length (snd e) < 65536)
     \<and> length (encode_exts (h_exts h)) < 65536 \<and> (\<not> h_block h \<longrightarrow> h_exts h = [])"

definition sni_ext :: "string \<Rightarrow> bytes" where
  "sni_ext name = put16 (length name + 3) @ 0 # put16 (length name) @ bytes_of_string name"

definition alpn_ext :: "string list \<Rightarrow> bytes" where
  "alpn_ext ps =
     (let body = concat (map (\<lambda>p. word_of_nat (length p) # bytes_of_string p) ps)
      in put16 (length body) @ body)"

definition versions_ext :: "16 word list \<Rightarrow> bytes" where
  "versions_ext vs = word_of_nat (2 * length vs) # concat (map put_u16 vs)"

subsection \<open>The parser on encoded hellos\<close>

lemma u16_put_u16 [wire_simps]: "u16 (ucast (drop_bit 8 w)) (ucast w) = w"
proof (rule bit_word_eqI)
  fix n :: nat
  assume "n < LENGTH(16)"
  then consider "n < 8" | "8 \<le> n" "n < 16" by fastforce
  then show "bit (u16 (ucast (drop_bit 8 w)) (ucast w)) n \<longleftrightarrow> bit w n"
    by cases (auto simp: u16_def bit_simps)
qed

lemma length_put_u16 [simp]: "length (put_u16 w) = 2"
  by (simp add: put_u16_def)

lemma length_concat_put_u16 [simp]: "length (concat (map put_u16 ws)) = 2 * length ws"
  by (induction ws) auto

lemma u16s_put_u16s [wire_simps]: "u16s (concat (map put_u16 ws)) = ws"
  by (induction ws) (simp_all add: put_u16_def wire_simps)

lemma ext_loop_encode_ext:
  assumes "length (snd e) < 65536"
  shows "ext_loop (encode_ext e @ suf) st = ext_loop suf (ext_step (fst e) (snd e) st)"
  using assms
  by (subst ext_loop.simps)
    (simp add: encode_ext_def put_u16_def put16_def wire_simps cong: let_weak_cong)

lemma ext_loop_encode_exts:
  assumes "\<forall>e \<in> set es. length (snd e) < 65536"
  shows "ext_loop (encode_exts es) st = foldl (\<lambda>st e. ext_step (fst e) (snd e) st) st es"
  using assms
proof (induction es arbitrary: st)
  case Nil
  then show ?case by (simp add: encode_exts_def ext_loop.simps)
next
  case (Cons e es)
  then show ?case using ext_loop_encode_ext [of e "encode_exts es" st]
    by (simp add: encode_exts_def)
qed

lemma parse_body_steps:
  fixes b :: bytes
  assumes "length r = 32"
  shows "(put_u16 v @ r @ b) ! 0 = ucast (drop_bit 8 v)" "(put_u16 v @ r @ b) ! 1 = ucast v"
    "drop 34 (put_u16 v @ r @ b) = b"
  using assms by (simp_all add: put_u16_def)

lemma parseClientHello_layout:
  assumes "length rnd = 32" "unat sl = length sid" "be16 c1 c2 = length cs" "even (length cs)"
    "unat cl = length cm" "be16 e1 e2 = length exts"
  shows "parseClientHello sha256
      (0x16 # x1 # x2 # x3 # x4 # 1 # y1 # y2 # y3 # v1 # v2 # rnd @ sl # sid @ c1 # c2 # cs
       @ cl # cm @ e1 # e2 # exts)
    = Some (finish_hello sha256 (u16 v1 v2) (filter (\<lambda>v. \<not> isGREASE v) (u16s cs))
        (ext_loop exts ext_acc0))"
  using assms by (simp add: parseClientHello_def cong: let_weak_cong if_weak_cong)

lemma parseClientHello_layout_no_exts:
  assumes "length rnd = 32" "unat sl = length sid" "be16 c1 c2 = length cs" "even (length cs)"
    "unat cl = length cm"
  shows "parseClientHello sha256
      (0x16 # x1 # x2 # x3 # x4 # 1 # y1 # y2 # y3 # v1 # v2 # rnd @ sl # sid @ c1 # c2 # cs @ cl # cm)
    = Some (finish_hello sha256 (u16 v1 v2) (filter (\<lambda>v. \<not> isGREASE v) (u16s cs)) ext_acc0)"
  using assms by (simp add: parseClientHello_def cong: let_weak_cong if_weak_cong)

lemma parseClientHello_encode:
  assumes "wf_hello h"
  shows "parseClientHello sha256 (encode_hello h)
    = Some (finish_hello sha256 (h_version h) (filter (\<lambda>v. \<not> isGREASE v) (h_ciphers h))
        (foldl (\<lambda>st e. ext_step (fst e) (snd e) st) ext_acc0 (h_exts h)))"
proof -
  let ?e = "encode_exts (h_exts h)"
  have cs: "be16 (word_of_nat (2 * length (h_ciphers h) div 256)) (word_of_nat (2 * length (h_ciphers h)))
      = length (concat (map put_u16 (h_ciphers h)))"
    and ex: "be16 (word_of_nat (length ?e div 256)) (word_of_nat (length ?e)) = length ?e"
    using assms be16_put16 [of "2 * length (h_ciphers h)"] by (simp_all add: wf_hello_def be16_put16)
  show ?thesis
  proof (cases "h_block h")
    case True
    show ?thesis
      unfolding encode_hello_def encode_hello_body_def Let_def put16_def append.simps append_assoc if_P [OF True]
      by (subst put_u16_def, unfold append.simps, subst parseClientHello_layout [OF _ _ cs _ _ ex])
        (use assms in \<open>simp_all add: wf_hello_def wire_simps unat_byte_of_nat ext_loop_encode_exts\<close>)
  next
    case False
    show ?thesis
      unfolding encode_hello_def encode_hello_body_def Let_def put16_def append.simps append_assoc if_not_P [OF False] append_Nil2
      by (subst put_u16_def, unfold append.simps, subst parseClientHello_layout_no_exts [OF _ _ cs])
        (use assms False in \<open>simp_all add: wf_hello_def wire_simps unat_byte_of_nat\<close>)
  qed
qed

subsection \<open>What the extension loop collects\<close>

abbreviation run_exts :: "(16 word \<times> bytes) list \<Rightarrow> ext_acc \<Rightarrow> ext_acc" where
  "run_exts es st \<equiv> foldl (\<lambda>st e. ext_step (fst e) (snd e) st) st es"

lemma ext_step_fields [simp]:
  "xSNI (ext_step t d st) = (if t = 0 then parseSNI d else xSNI st)"
  "xALPN (ext_step t d st) = (if t = 0x10 then parseFirstALPN d else xALPN st)"
  "sigAlgs (ext_step t d st) = (if t = 0x0d then parseUint16List d else sigAlgs st)"
  "supportedVerMax (ext_step t d st)
     = (if t = 0x2b then parseSupportedVersionsMax d else supportedVerMax st)"
  "extIDs (ext_step t d st) = (if isGREASE t then extIDs st else extIDs st @ [t])"
  by (simp_all add: ext_step_def Let_def)

lemma run_exts_extIDs [simp]:
  "extIDs (run_exts es st) = extIDs st @ filter (\<lambda>t. \<not> isGREASE t) (map fst es)"
  by (induction es arbitrary: st) auto

lemma run_exts_field:
  assumes step: "\<And>t d st. g (ext_step t d st) = (if t = k then p d else g st)"
    and "distinct (map fst es)"
  shows "g (run_exts es st) = (case map_of es k of None \<Rightarrow> g st | Some d \<Rightarrow> p d)"
  using assms(2)
proof (induction es arbitrary: st)
  case (Cons e es)
  moreover have "map_of es k = None" if "fst e = k"
    using that Cons.prems by (simp add: map_of_eq_None_iff)
  ultimately show ?case by (auto simp: step split: option.split)
qed simp

lemmas run_exts_fields =
  run_exts_field [of xSNI, OF ext_step_fields(1)]
  run_exts_field [of xALPN, OF ext_step_fields(2)]
  run_exts_field [of sigAlgs, OF ext_step_fields(3)]
  run_exts_field [of supportedVerMax, OF ext_step_fields(4)]

lemma parseSNI_sni_ext:
  assumes "length name < 65533"
  shows "parseSNI (sni_ext name) = name"
  using assms
  by (simp add: parseSNI_def sni_ext_def put16_def wire_simps parseSNI_list.simps cong: let_weak_cong)

lemma parseFirstALPN_alpn_ext:
  assumes "length p < 256"
  shows "parseFirstALPN (alpn_ext (p # ps)) = p"
  using assms
  by (simp add: parseFirstALPN_def alpn_ext_def put16_def Let_def unat_byte_of_nat)

lemma fold_max_versions:
  "foldl (\<lambda>maxv v. if isGREASE v then maxv else if v > maxv then v else maxv) m vs
   = Max (insert m {v \<in> set vs. \<not> isGREASE v})"
proof -
  have "foldl (\<lambda>maxv v. if isGREASE v then maxv else if v > maxv then v else maxv) m vs
      = fold max (filter (\<lambda>v. \<not> isGREASE v) vs) m"
    by (induction vs arbitrary: m) (auto simp: max_def)
  then show ?thesis
    using Max.set_eq_fold [of m "filter (\<lambda>v. \<not> isGREASE v) vs"] by simp
qed

text \<open>The version a hello asks for: the highest real one it lists, or else the legacy field.\<close>

definition hello_version :: "16 word \<Rightarrow> 16 word list \<Rightarrow> 16 word" where
  "hello_version legacy vs =
     (if \<exists>v \<in> set vs. \<not> isGREASE v \<and> v \<noteq> 0 then Max {v \<in> set vs. \<not> isGREASE v} else legacy)"

lemma pickVersion_versions_ext:
  assumes "length vs < 128"
  shows "pickVersion legacy (parseSupportedVersionsMax (versions_ext vs)) = hello_version legacy vs"
proof -
  let ?V = "{v \<in> set vs. \<not> isGREASE v}"
  have "unat (word_of_nat (2 * length vs) :: byte) = 2 * length vs"
    using assms by (simp add: unat_byte_of_nat del: of_nat_mult)
  then have p: "parseSupportedVersionsMax (versions_ext vs) = Max (insert 0 ?V)"
    unfolding parseSupportedVersionsMax_def versions_ext_def
    by (simp add: wire_simps fold_max_versions Let_def del: of_nat_mult)
  show ?thesis
  proof (cases "\<exists>v \<in> set vs. \<not> isGREASE v \<and> v \<noteq> 0")
    case True
    then obtain v where v: "v \<in> ?V" "v \<noteq> 0" by blast
    then have "v \<le> Max ?V" by (intro Max_ge) auto
    moreover have "Max (insert 0 ?V) = Max ?V" using v by (subst Max_insert) (auto simp: max_def)
    ultimately show ?thesis using True v(2) p by (auto simp: hello_version_def pickVersion_def)
  next
    case False
    then have z: "insert 0 ?V = {0}" by auto
    show ?thesis using p unfolding z hello_version_def pickVersion_def if_not_P [OF False] by simp
  qed
qed

lemma finish_hello_reorder:
  assumes "mset cs' = mset cs" "mset es' = mset es" "distinct (map fst es)"
  shows "finish_hello sha256 v (filter (\<lambda>v. \<not> isGREASE v) cs') (run_exts es' ext_acc0)
       = finish_hello sha256 v (filter (\<lambda>v. \<not> isGREASE v) cs) (run_exts es ext_acc0)"
proof -
  have d: "distinct (map fst es')"
    using assms by (metis mset_eq_imp_distinct_iff mset_map)
  have m: "map_of es' = map_of es"
    using map_of_inject_set [OF d assms(3)] mset_eq_setD [OF assms(2)] by simp
  have k: "mset (map fst es') = mset (map fst es)" using assms(2) by (rule mset_map_eq)
  note srt = sort_map_mset_eq [OF mset_filter_eq [OF k]] sort_map_mset_eq [OF mset_filter_eq [OF assms(1)]]
  note len = mset_eq_length [OF mset_filter_eq [OF k]] mset_eq_length [OF mset_filter_eq [OF assms(1)]]
  show ?thesis
    unfolding finish_hello_def computeJA4_def minExt_def sortedHex_def hexList_def Let_def
      run_exts_extIDs filter_append filter_filter run_exts_fields [OF d] run_exts_fields [OF assms(3)]
      m ext_acc0_def ext_acc.simps filter.simps append_Nil srt len ..
qed
lemma length_encode_exts:
  "length (encode_exts es) = (\<Sum>e \<in># mset es. 4 + length (snd e))"
  by (induction es) (simp_all add: encode_exts_def encode_ext_def)

lemma wf_hello_reorder:
  assumes "wf_hello h" "mset cs = mset (h_ciphers h)" "mset es = mset (h_exts h)"
  shows "wf_hello (h\<lparr>h_ciphers := cs, h_exts := es\<rparr>)"
  using assms mset_eq_length [OF assms(2)] mset_eq_setD [OF assms(3)]
  by (auto simp: wf_hello_def length_encode_exts)

subsection \<open>Properties\<close>

definition hello_example :: hello where
  "hello_example =
     \<lparr>h_version = 0x0303, h_random = replicate 32 7, h_session = [], h_ciphers = [0x0a0a, 0x1302, 0x1301],
      h_compression = [0], h_block = True,
      h_exts = [(0x002b, versions_ext [0x3a3a, 0x0304, 0x0303]), (0, sni_ext ''ab.example''),
                (0x0010, alpn_ext [''h2'', ''http/1.1''])]\<rparr>"

text \<open>
  C16. On every well-formed ClientHello record (any session id, ciphers, compression methods and
  extensions within the sizes the wire format allows, each extension type at most once, or no
  extension block at all) the parser succeeds, and the routing data is what the client sent: the
  server name, the first offered application protocol, and the highest supported version that is
  not a GREASE value. A hello without the server name or the protocol extension gives an empty
  name or protocol, and one that lists no real supported version gives the legacy version field.
\<close>

theorem parseClientHello_recovers:
  assumes "wf_hello h" "distinct (map fst (h_exts h))"
    and "map_of (h_exts h) 0 = map_option sni_ext name" "\<forall>n. name = Some n \<longrightarrow> length n < 65533"
    and "map_of (h_exts h) 0x10 = map_option alpn_ext protos"
      "\<forall>ps. protos = Some ps \<longrightarrow> ps \<noteq> [] \<and> length (hd ps) < 256"
    and "map_of (h_exts h) 0x2b = map_option versions_ext vers" "\<forall>vs. vers = Some vs \<longrightarrow> length vs < 128"
  shows "\<exists>info. parseClientHello sha256 (encode_hello h) = Some info
      \<and> SNI info = (case name of None \<Rightarrow> [] | Some n \<Rightarrow> n)
      \<and> ALPN info = (case protos of None \<Rightarrow> [] | Some ps \<Rightarrow> hd ps)
      \<and> TLSVersion info = versionString (hello_version (h_version h) (case vers of None \<Rightarrow> [] | Some vs \<Rightarrow> vs))"
proof -
  let ?x = "run_exts (h_exts h) ext_acc0"
  have "xSNI ?x = (case name of None \<Rightarrow> [] | Some n \<Rightarrow> n)"
    using assms(3,4) run_exts_fields(1) [OF assms(2)]
    by (cases name) (auto simp: ext_acc0_def parseSNI_sni_ext)
  moreover have "xALPN ?x = (case protos of None \<Rightarrow> [] | Some ps \<Rightarrow> hd ps)"
    using assms(5,6) run_exts_fields(2) [OF assms(2)] parseFirstALPN_alpn_ext [of "hd (the protos)" "tl (the protos)"]
    by (cases protos) (auto simp: ext_acc0_def)
  moreover have "pickVersion (h_version h) (supportedVerMax ?x)
      = hello_version (h_version h) (case vers of None \<Rightarrow> [] | Some vs \<Rightarrow> vs)"
    using assms(7,8) run_exts_fields(4) [OF assms(2)] pickVersion_versions_ext
    by (cases vers) (auto simp: ext_acc0_def pickVersion_def hello_version_def)
  ultimately show ?thesis
    by (simp add: parseClientHello_encode [OF assms(1)] finish_hello_def Let_def)
qed

lemma hello_example_fields:
  "h_ciphers hello_example = [0x0a0a, 0x1302, 0x1301]"
  "h_exts hello_example =
     [(0x002b, versions_ext [0x3a3a, 0x0304, 0x0303]), (0, sni_ext ''ab.example''),
      (0x0010, alpn_ext [''h2'', ''http/1.1''])]"
  by (simp_all add: hello_example_def)

lemma hello_example_wf: "wf_hello hello_example" "distinct (map fst (h_exts hello_example))"
proof -
  have "length (encode_exts (h_exts hello_example)) < 65536"
    by (simp add: hello_example_fields length_encode_exts versions_ext_def sni_ext_def alpn_ext_def)
  then show "wf_hello hello_example"
    by (simp add: hello_example_def wf_hello_def versions_ext_def sni_ext_def alpn_ext_def)
qed (simp add: hello_example_fields)

definition hello_old :: hello where
  "hello_old =
     \<lparr>h_version = 0x0302, h_random = replicate 32 7, h_session = [1], h_ciphers = [0x002f],
      h_compression = [0], h_block = False, h_exts = []\<rparr>"

theorem parseClientHello_recovers_witness:
  "(\<exists>info. parseClientHello (\<lambda>b. b) (encode_hello hello_example) = Some info
      \<and> SNI info = ''ab.example'' \<and> ALPN info = ''h2''
      \<and> TLSVersion info = versionString (hello_version 0x0303 [0x3a3a, 0x0304, 0x0303]))
   \<and> (\<exists>info. parseClientHello (\<lambda>b. b) (encode_hello hello_old) = Some info
      \<and> SNI info = [] \<and> ALPN info = [] \<and> TLSVersion info = ''1.1'')"
proof -
  have "wf_hello hello_old" by (simp add: hello_old_def wf_hello_def encode_exts_def)
  note old = parseClientHello_recovers [where name = None and protos = None and vers = None, OF this]
  note new = parseClientHello_recovers [where name = "Some ''ab.example''" and protos = "Some [''h2'', ''http/1.1'']"
      and vers = "Some [0x3a3a, 0x0304, 0x0303]", OF hello_example_wf]
  have "h_version hello_example = 0x0303" by (simp add: hello_example_def)
  moreover have "versionString (hello_version 0x0302 []) = ''1.1''"
    by (simp add: hello_version_def versionString_def)
  ultimately show ?thesis using old [of "\<lambda>b. b"] new [of "\<lambda>b. b"]
    by (simp add: hello_example_fields hello_old_def)
qed

text \<open>
  The whole peek result, JA4 fingerprint included, is stable under reordering: permuting the
  cipher suites and the extensions of a well-formed hello (as browsers do per connection)
  changes nothing, for every hash function.
\<close>

lemma parseClientHello_reorder:
  assumes "wf_hello h" "distinct (map fst (h_exts h))"
    and "mset cs = mset (h_ciphers h)" "mset es = mset (h_exts h)"
  shows "parseClientHello sha256 (encode_hello (h\<lparr>h_ciphers := cs, h_exts := es\<rparr>))
         = parseClientHello sha256 (encode_hello h)"
  using parseClientHello_encode [OF wf_hello_reorder [OF assms(1,3,4)]]
    parseClientHello_encode [OF assms(1)] finish_hello_reorder [OF assms(3,4,2)]
  by simp

lemma parseClientHello_reorder_witness:
  "parseClientHello (\<lambda>b. b) (encode_hello (hello_example\<lparr>h_ciphers := [0x1301, 0x0a0a, 0x1302],
      h_exts := [(0x0010, alpn_ext [''h2'', ''http/1.1'']), (0, sni_ext ''ab.example''),
                (0x002b, versions_ext [0x3a3a, 0x0304, 0x0303])]\<rparr>))
   = parseClientHello (\<lambda>b. b) (encode_hello hello_example)
   \<and> parseClientHello (\<lambda>b. b) (encode_hello hello_example) \<noteq> None"
  using parseClientHello_reorder [OF hello_example_wf, of "[0x1301, 0x0a0a, 0x1302]"
      "[(0x0010, alpn_ext [''h2'', ''http/1.1'']), (0, sni_ext ''ab.example''),
                (0x002b, versions_ext [0x3a3a, 0x0304, 0x0303])]" "\<lambda>b. b"]
    parseClientHello_encode [OF hello_example_wf(1)]
  by (simp add: hello_example_fields add_mset_commute)

end
