(* ===== verification/Valkey.thy ===== *)
theory Valkey
  imports Go_Strings
begin

text \<open>
  The key-value service every replica shares (Valkey, through \<^verbatim>\<open>go-redis\<close>). It is not part of the
  sources: each operation of the model takes the client \<open>ex\<close> as an argument, a function that
  sends one pipeline of commands and returns the replies, or an error. What the code relies
  on is stated here: the documented effect of each command (\<open>cmd_sem\<close>), expiry by the
  server's clock included, and the locale \<open>valkey\<close>, which says that a pipeline is executed
  command by command, other clients acting in between as the relation \<open>R\<close> allows, and
  that a failed call executed some prefix of its pipeline. Durations in commands are those of
  the Go source (nanoseconds); the client sends milliseconds or seconds.
\<close>

type_synonym vkey = string

datatype vval =
    VStr string
  | VHash "string \<rightharpoonup> string"
  | VZSet "(string \<times> int) list"
  | VSet "string list"

record vstate =
  clock :: int
  keyspace :: "vkey \<rightharpoonup> vval \<times> int option"

datatype cmd =
    GET vkey | SET vkey string duration | SETNX vkey string duration | DEL vkey
  | MGET "vkey list" | INCRBY vkey int
  | PEXPIRE vkey duration | EXPIRE_NX vkey duration | EXPIRE_GT vkey duration | PTTL vkey
  | HGET vkey string | HMGET vkey "string list" | HSET vkey "(string \<times> string) list"
  | HINCRBY vkey string int
  | ZADD vkey string int | ZADDXX vkey string int | ZREM vkey string | ZCARD vkey
  | ZCOUNT_FROM vkey int | ZREMRANGE_UPTO vkey int
  | SADD vkey string | SREM vkey "string list" | SMEMBERS vkey

datatype reply =
    RNil | ROk | RInt int | RBool bool | RStr string
  | RVals "string option list" | RStrs "string list" | RErr string

datatype verr = VErr string

type_synonym 's client = "cmd list \<Rightarrow> 's \<Rightarrow> (verr + reply list) \<times> 's"

abbreviation INCR :: "vkey \<Rightarrow> cmd" where "INCR k \<equiv> INCRBY k 1"

subsection \<open>Command semantics\<close>

text \<open>How the client turns a duration into the unit of the command it sends.\<close>

definition to_ms :: "duration \<Rightarrow> int" where
  "to_ms d = (if 0 < d \<and> d < Millisecond then 1 else d div Millisecond)"

definition to_sec_ms :: "duration \<Rightarrow> int" where
  "to_sec_ms d = 1000 * (if 0 < d \<and> d < Second then 1 else d div Second)"

text \<open>A key whose expiry is not after the server clock is absent.\<close>

definition live :: "vstate \<Rightarrow> vkey \<Rightarrow> (vval \<times> int option) option" where
  "live v k =
     (case keyspace v k of
        None \<Rightarrow> None
      | Some (x, None) \<Rightarrow> Some (x, None)
      | Some (x, Some t) \<Rightarrow> if clock v < t then Some (x, Some t) else None)"

definition put :: "vstate \<Rightarrow> vkey \<Rightarrow> vval \<Rightarrow> int option \<Rightarrow> vstate" where
  "put v k x t = v\<lparr>keyspace := (keyspace v)(k \<mapsto> (x, t))\<rparr>"

definition del :: "vstate \<Rightarrow> vkey \<Rightarrow> vstate" where
  "del v k = v\<lparr>keyspace := (keyspace v)(k := None)\<rparr>"

abbreviation wrongtype :: reply where "wrongtype \<equiv> RErr ''WRONGTYPE''"

definition str_of :: "vstate \<Rightarrow> vkey \<Rightarrow> string option" where
  "str_of v k = (case live v k of Some (VStr s, _) \<Rightarrow> Some s | _ \<Rightarrow> None)"

definition hash_of :: "vstate \<Rightarrow> vkey \<Rightarrow> string \<rightharpoonup> string" where
  "hash_of v k = (case live v k of Some (VHash h, _) \<Rightarrow> h | _ \<Rightarrow> Map.empty)"

definition zset_of :: "vstate \<Rightarrow> vkey \<Rightarrow> (string \<times> int) list" where
  "zset_of v k = (case live v k of Some (VZSet z, _) \<Rightarrow> z | _ \<Rightarrow> [])"

definition set_of :: "vstate \<Rightarrow> vkey \<Rightarrow> string list" where
  "set_of v k = (case live v k of Some (VSet z, _) \<Rightarrow> z | _ \<Rightarrow> [])"

definition expiry_of :: "vstate \<Rightarrow> vkey \<Rightarrow> int option" where
  "expiry_of v k = (case live v k of Some (_, t) \<Rightarrow> t | None \<Rightarrow> None)"

definition is_str :: "vstate \<Rightarrow> vkey \<Rightarrow> bool" where
  "is_str v k \<longleftrightarrow> (case live v k of None \<Rightarrow> True | Some (VStr _, _) \<Rightarrow> True | _ \<Rightarrow> False)"

definition is_hash :: "vstate \<Rightarrow> vkey \<Rightarrow> bool" where
  "is_hash v k \<longleftrightarrow> (case live v k of None \<Rightarrow> True | Some (VHash _, _) \<Rightarrow> True | _ \<Rightarrow> False)"

definition is_zset :: "vstate \<Rightarrow> vkey \<Rightarrow> bool" where
  "is_zset v k \<longleftrightarrow> (case live v k of None \<Rightarrow> True | Some (VZSet _, _) \<Rightarrow> True | _ \<Rightarrow> False)"

definition is_set :: "vstate \<Rightarrow> vkey \<Rightarrow> bool" where
  "is_set v k \<longleftrightarrow> (case live v k of None \<Rightarrow> True | Some (VSet _, _) \<Rightarrow> True | _ \<Rightarrow> False)"

definition ttl_at :: "vstate \<Rightarrow> duration \<Rightarrow> int option" where
  "ttl_at v d = (if d = 0 then None else Some (clock v + to_ms d))"

definition zput :: "string \<Rightarrow> int \<Rightarrow> (string \<times> int) list \<Rightarrow> (string \<times> int) list" where
  "zput m sc z = (m, sc) # filter (\<lambda>p. fst p \<noteq> m) z"

definition zcard :: "(string \<times> int) list \<Rightarrow> nat" where
  "zcard z = card (fst ` set z)"

text \<open>An aggregate that becomes empty is removed with its key.\<close>

definition put_zset :: "vstate \<Rightarrow> vkey \<Rightarrow> (string \<times> int) list \<Rightarrow> vstate" where
  "put_zset v k z = (if z = [] then del v k else put v k (VZSet z) (expiry_of v k))"

definition put_set :: "vstate \<Rightarrow> vkey \<Rightarrow> string list \<Rightarrow> vstate" where
  "put_set v k z = (if z = [] then del v k else put v k (VSet z) (expiry_of v k))"

definition incr_sem :: "string option \<Rightarrow> int \<Rightarrow> int option" where
  "incr_sem old n =
     (case (case old of None \<Rightarrow> Some 0 | Some s \<Rightarrow> parse_int s) of
        None \<Rightarrow> None
      | Some i \<Rightarrow> if MinInt64 \<le> i + n \<and> i + n \<le> MaxInt64 then Some (i + n) else None)"

definition expire_at :: "vstate \<Rightarrow> vkey \<Rightarrow> int \<Rightarrow> vstate" where
  "expire_at v k t =
     (case live v k of
        None \<Rightarrow> v
      | Some (x, _) \<Rightarrow> if t \<le> clock v then del v k else put v k x (Some t))"

fun cmd_sem :: "cmd \<Rightarrow> vstate \<Rightarrow> reply \<times> vstate" where
  "cmd_sem (GET k) v =
     (if is_str v k then (case str_of v k of None \<Rightarrow> RNil | Some s \<Rightarrow> RStr s, v) else (wrongtype, v))"
| "cmd_sem (SET k s d) v = (ROk, put v k (VStr s) (ttl_at v d))"
| "cmd_sem (SETNX k s d) v =
     (if live v k = None then (RBool True, put v k (VStr s) (ttl_at v d)) else (RBool False, v))"
| "cmd_sem (DEL k) v = (RInt (if live v k = None then 0 else 1), del v k)"
| "cmd_sem (MGET ks) v = (RVals (map (str_of v) ks), v)"
| "cmd_sem (INCRBY k n) v =
     (if is_str v k then
        (case incr_sem (str_of v k) n of
           None \<Rightarrow> (RErr ''ERR'', v)
         | Some i \<Rightarrow> (RInt i, put v k (VStr (itoa i)) (expiry_of v k)))
      else (wrongtype, v))"
| "cmd_sem (PEXPIRE k d) v = (RBool (live v k \<noteq> None), expire_at v k (clock v + to_ms d))"
| "cmd_sem (EXPIRE_NX k d) v =
     (if live v k \<noteq> None \<and> expiry_of v k = None
      then (RBool True, expire_at v k (clock v + to_sec_ms d)) else (RBool False, v))"
| "cmd_sem (EXPIRE_GT k d) v =
     (case expiry_of v k of
        Some t \<Rightarrow> if t < clock v + to_sec_ms d
                 then (RBool True, expire_at v k (clock v + to_sec_ms d)) else (RBool False, v)
      | None \<Rightarrow> (RBool False, v))"
| "cmd_sem (PTTL k) v =
     (RInt (case live v k of None \<Rightarrow> - 2 | Some (_, None) \<Rightarrow> - 1 | Some (_, Some t) \<Rightarrow> t - clock v), v)"
| "cmd_sem (HGET k f) v =
     (if is_hash v k then (case hash_of v k f of None \<Rightarrow> RNil | Some s \<Rightarrow> RStr s, v) else (wrongtype, v))"
| "cmd_sem (HMGET k fs) v =
     (if is_hash v k then (RVals (map (hash_of v k) fs), v) else (wrongtype, v))"
| "cmd_sem (HSET k fvs) v =
     (if is_hash v k then
        (RInt (int (length (filter (\<lambda>f. hash_of v k f = None) (remdups (map fst fvs))))),
         put v k (VHash (fold (\<lambda>(f, x) h. h(f \<mapsto> x)) fvs (hash_of v k))) (expiry_of v k))
      else (wrongtype, v))"
| "cmd_sem (HINCRBY k f n) v =
     (if is_hash v k then
        (case incr_sem (hash_of v k f) n of
           None \<Rightarrow> (RErr ''ERR'', v)
         | Some i \<Rightarrow> (RInt i, put v k (VHash ((hash_of v k)(f \<mapsto> itoa i))) (expiry_of v k)))
      else (wrongtype, v))"
| "cmd_sem (ZADD k m sc) v =
     (if is_zset v k then
        (RInt (if m \<in> fst ` set (zset_of v k) then 0 else 1), put_zset v k (zput m sc (zset_of v k)))
      else (wrongtype, v))"
| "cmd_sem (ZADDXX k m sc) v =
     (if is_zset v k then
        (RInt 0, if m \<in> fst ` set (zset_of v k) then put_zset v k (zput m sc (zset_of v k)) else v)
      else (wrongtype, v))"
| "cmd_sem (ZREM k m) v =
     (if is_zset v k then
        (RInt (if m \<in> fst ` set (zset_of v k) then 1 else 0),
         put_zset v k (filter (\<lambda>p. fst p \<noteq> m) (zset_of v k)))
      else (wrongtype, v))"
| "cmd_sem (ZCARD k) v = (if is_zset v k then (RInt (int (zcard (zset_of v k))), v) else (wrongtype, v))"
| "cmd_sem (ZCOUNT_FROM k lo) v =
     (if is_zset v k then (RInt (int (zcard (filter (\<lambda>p. lo \<le> snd p) (zset_of v k)))), v)
      else (wrongtype, v))"
| "cmd_sem (ZREMRANGE_UPTO k hi) v =
     (if is_zset v k then
        (RInt (int (zcard (filter (\<lambda>p. snd p \<le> hi) (zset_of v k)))),
         put_zset v k (filter (\<lambda>p. hi < snd p) (zset_of v k)))
      else (wrongtype, v))"
| "cmd_sem (SADD k m) v =
     (if is_set v k then
        (RInt (if m \<in> set (set_of v k) then 0 else 1), put_set v k (List.insert m (set_of v k)))
      else (wrongtype, v))"
| "cmd_sem (SREM k ms) v =
     (if is_set v k then
        (RInt (int (card (set ms \<inter> set (set_of v k)))),
         put_set v k (filter (\<lambda>m. m \<notin> set ms) (set_of v k)))
      else (wrongtype, v))"
| "cmd_sem (SMEMBERS k) v = (if is_set v k then (RStrs (set_of v k), v) else (wrongtype, v))"

text \<open>The keys a command may write.\<close>

fun cmd_writes :: "cmd \<Rightarrow> vkey set" where
  "cmd_writes (SET k _ _) = {k}"
| "cmd_writes (SETNX k _ _) = {k}"
| "cmd_writes (DEL k) = {k}"
| "cmd_writes (INCRBY k _) = {k}"
| "cmd_writes (PEXPIRE k _) = {k}"
| "cmd_writes (EXPIRE_NX k _) = {k}"
| "cmd_writes (EXPIRE_GT k _) = {k}"
| "cmd_writes (HSET k _) = {k}"
| "cmd_writes (HINCRBY k _ _) = {k}"
| "cmd_writes (ZADD k _ _) = {k}"
| "cmd_writes (ZADDXX k _ _) = {k}"
| "cmd_writes (ZREM k _) = {k}"
| "cmd_writes (ZREMRANGE_UPTO k _) = {k}"
| "cmd_writes (SADD k _) = {k}"
| "cmd_writes (SREM k _) = {k}"
| "cmd_writes _ = {}"

subsection \<open>Executing a pipeline\<close>

inductive runs :: "(vstate \<Rightarrow> vstate \<Rightarrow> bool) \<Rightarrow> cmd list \<Rightarrow> vstate \<Rightarrow> reply list \<Rightarrow> vstate \<Rightarrow> bool"
  for R :: "vstate \<Rightarrow> vstate \<Rightarrow> bool" where
  runs_Nil: "runs R [] v [] v"
| runs_Cons: "R v v1 \<Longrightarrow> cmd_sem c v1 = (r, v2) \<Longrightarrow> runs R cs v2 rs v' \<Longrightarrow> runs R (c # cs) v (r # rs) v'"

inductive_cases runs_NilE [elim!]: "runs R [] v rs v'"
inductive_cases runs_ConsE: "runs R (c # cs) v rs v'"

fun is_err :: "reply \<Rightarrow> bool" where
  "is_err (RErr _) \<longleftrightarrow> True"
| "is_err _ \<longleftrightarrow> False"

text \<open>One command outside a pipeline.\<close>

definition do1 :: "'s client \<Rightarrow> cmd \<Rightarrow> 's \<Rightarrow> (verr + reply) \<times> 's" where
  "do1 ex c s =
     (case ex [c] s of
        (Inl e, s') \<Rightarrow> (Inl e, s')
      | (Inr [r], s') \<Rightarrow> (Inr r, s')
      | (Inr _, s') \<Rightarrow> (Inl (VErr ''reply''), s'))"

locale valkey =
  fixes ex :: "'s client" and view :: "'s \<Rightarrow> vstate" and R :: "vstate \<Rightarrow> vstate \<Rightarrow> bool"
  assumes exec_ok: "ex cs s = (Inr rs, s') \<Longrightarrow>
      runs R cs (view s) rs (view s') \<and> (\<forall>r \<in> set rs. \<not> is_err r)"
    and exec_fail: "ex cs s = (Inl e, s') \<Longrightarrow> \<exists>k rs. runs R (take k cs) (view s) rs (view s')"

text \<open>
  Environments: \<open>quiet\<close>, in which only time passes; \<open>undisturbed K\<close>, in which other clients
  do anything but write the keys of \<open>K\<close>; \<open>steady K\<close>, in which moreover no key of \<open>K\<close> expires;
  and \<open>counting K\<close>, in which other clients may increment the counters of \<open>K\<close> but not reset
  them, and none expires.
\<close>

definition counter :: "vstate \<Rightarrow> vkey \<Rightarrow> int" where
  "counter v k =
     (case str_of v k of None \<Rightarrow> 0 | Some s \<Rightarrow> (case parse_int s of None \<Rightarrow> 0 | Some n \<Rightarrow> n))"

definition quiet :: "vstate \<Rightarrow> vstate \<Rightarrow> bool" where
  "quiet v v' \<longleftrightarrow> clock v \<le> clock v' \<and> keyspace v' = keyspace v"

definition undisturbed :: "vkey set \<Rightarrow> vstate \<Rightarrow> vstate \<Rightarrow> bool" where
  "undisturbed K v v' \<longleftrightarrow> clock v \<le> clock v' \<and> (\<forall>k \<in> K. keyspace v' k = keyspace v k)"

definition steady :: "vkey set \<Rightarrow> vstate \<Rightarrow> vstate \<Rightarrow> bool" where
  "steady K v v' \<longleftrightarrow>
     clock v \<le> clock v' \<and> (\<forall>k \<in> K. keyspace v' k = keyspace v k \<and> live v' k = live v k)"

definition counting :: "vkey set \<Rightarrow> vstate \<Rightarrow> vstate \<Rightarrow> bool" where
  "counting K v v' \<longleftrightarrow> clock v \<le> clock v' \<and> (\<forall>k \<in> K. counter v k \<le> counter v' k)"

text \<open>
  A concrete client over an in-memory server: a script says, for each command sent, how many
  milliseconds pass before it, or that the connection fails there. After the script, commands
  run at once.
\<close>

type_synonym net = "vstate \<times> nat option list"

fun net_tick :: "net \<Rightarrow> net option" where
  "net_tick (v, []) = Some (v, [])"
| "net_tick (v, None # sc) = None"
| "net_tick (v, Some n # sc) = Some (v\<lparr>clock := clock v + int n\<rparr>, sc)"

primrec net_run :: "cmd list \<Rightarrow> net \<Rightarrow> (verr + reply list) \<times> net" where
  "net_run [] n = (Inr [], n)"
| "net_run (c # cs) n =
     (case net_tick n of
        None \<Rightarrow> (Inl (VErr ''connection''), (fst n, tl (snd n)))
      | Some (v1, sc) \<Rightarrow>
        (case net_run cs (snd (cmd_sem c v1), sc) of
           (Inl e, n') \<Rightarrow> (Inl e, n')
         | (Inr rs, n') \<Rightarrow> (Inr (fst (cmd_sem c v1) # rs), n')))"

definition net_exec :: "net client" where
  "net_exec cs n =
     (case net_run cs n of
        (Inl e, n') \<Rightarrow> (Inl e, n')
      | (Inr rs, n') \<Rightarrow> if \<exists>r \<in> set rs. is_err r then (Inl (VErr ''reply''), n') else (Inr rs, n'))"

text \<open>The same server with no time passing and no failures but error replies.\<close>

definition mem_exec :: "vstate client" where
  "mem_exec cs v = (let (r, n) = net_exec cs (v, []) in (r, fst n))"

subsection \<open>Laws\<close>

lemma live_put [vk_simps]:
  "live (put v k x t) k' = (if k' = k then (case t of None \<Rightarrow> Some (x, None)
     | Some t' \<Rightarrow> if clock v < t' then Some (x, Some t') else None) else live v k')"
  by (auto simp: live_def put_def split: option.split)

lemma live_del [vk_simps]: "live (del v k) k' = (if k' = k then None else live v k')"
  by (auto simp: live_def del_def split: option.split)

lemma clock_put_del [simp]: "clock (put v k x t) = clock v" "clock (del v k) = clock v"
  by (simp_all add: put_def del_def)

lemma keyspace_put_del [vk_simps]:
  "keyspace (put v k x t) = (keyspace v)(k \<mapsto> (x, t))" "keyspace (del v k) = (keyspace v)(k := None)"
  by (simp_all add: put_def del_def)

lemma live_keyspace_None: "keyspace v k = None \<Longrightarrow> live v k = None"
  by (simp add: live_def)

lemma live_cong: "keyspace v' k = keyspace v k \<Longrightarrow> clock v' = clock v \<Longrightarrow> live v' k = live v k"
  by (simp add: live_def split: option.split)

lemma live_later:
  assumes "keyspace v' k = keyspace v k" "clock v \<le> clock v'"
  shows "live v' k =
    (case live v k of Some (x, Some t) \<Rightarrow> if clock v' < t then Some (x, Some t) else None | y \<Rightarrow> y)"
  using assms by (auto simp: live_def split: option.splits)

lemmas vk_reads = str_of_def hash_of_def zset_of_def set_of_def expiry_of_def
  is_str_def is_hash_def is_zset_def is_set_def

lemma clock_expire_at [simp]: "clock (expire_at v k t) = clock v"
  by (simp add: expire_at_def split: option.split)

lemma clock_puts [simp]: "clock (put_zset v k z) = clock v" "clock (put_set v k l) = clock v"
  by (simp_all add: put_zset_def put_set_def)

lemma clock_cmd_sem: "clock (snd (cmd_sem c v)) = clock v"
  by (cases c) (auto split: option.split)

lemma keyspace_expire_at:
  "k' \<noteq> k \<Longrightarrow> keyspace (expire_at v k t) k' = keyspace v k'"
  by (auto simp: expire_at_def vk_simps split: option.split)

lemma keyspace_cmd_sem:
  "k \<notin> cmd_writes c \<Longrightarrow> keyspace (snd (cmd_sem c v)) k = keyspace v k"
  by (cases c) (auto simp: vk_simps put_zset_def put_set_def keyspace_expire_at split: option.split)

lemma do1_Inr: "do1 ex c s = (Inr r, s') \<longleftrightarrow> ex [c] s = (Inr [r], s')"
  by (auto simp: do1_def split: prod.splits sum.splits list.splits)

lemma do1_Inl:
  "do1 ex c s = (Inl e, s') \<Longrightarrow> (\<exists>e. ex [c] s = (Inl e, s')) \<or> (\<exists>rs. ex [c] s = (Inr rs, s') \<and> length rs \<noteq> 1)"
  by (auto simp: do1_def split: prod.splits sum.splits list.splits)

lemma runs_length: "runs R cs v rs v' \<Longrightarrow> length rs = length cs"
  by (induction rule: runs.induct) auto

lemma runs_mono: "runs R cs v rs v' \<Longrightarrow> (\<And>v v'. R v v' \<Longrightarrow> R' v v') \<Longrightarrow> runs R' cs v rs v'"
  by (induction rule: runs.induct) (auto intro: runs.intros)

lemma runs_single: "runs R [c] v rs v' \<longleftrightarrow> (\<exists>v1 r. R v v1 \<and> cmd_sem c v1 = (r, v') \<and> rs = [r])"
  by (auto elim!: runs_ConsE intro: runs.intros)

lemma runs_Cons_iff:
  "runs R (c # cs) v rs v' \<longleftrightarrow>
     (\<exists>v1 r v2 rs'. R v v1 \<and> cmd_sem c v1 = (r, v2) \<and> runs R cs v2 rs' v' \<and> rs = r # rs')"
  by (auto elim!: runs_ConsE intro: runs.intros)

lemma runs_Nil_iff: "runs R [] v rs v' \<longleftrightarrow> rs = [] \<and> v' = v"
  by (auto intro: runs.intros)

text \<open>What a pipeline keeps: anything both the environment and each command keep.\<close>

lemma runs_preserves:
  assumes "runs R cs v rs v'" "P v"
    and "\<And>v v'. P v \<Longrightarrow> R v v' \<Longrightarrow> P v'"
    and "\<And>c v. c \<in> set cs \<Longrightarrow> P v \<Longrightarrow> P (snd (cmd_sem c v))"
  shows "P v'"
  using assms(1,2,4)
proof (induction rule: runs.induct)
  case (runs_Cons v v1 c r v2 cs rs v')
  then show ?case using assms(3) by (metis list.set_intros snd_conv)
qed

lemma runs_clock_mono:
  assumes "runs R cs v rs v'" "\<And>v v'. R v v' \<Longrightarrow> clock v \<le> clock v'"
  shows "clock v \<le> clock v'"
  using assms(1)
proof (induction rule: runs.induct)
  case (runs_Cons v v1 c r v2 cs rs v')
  then show ?case using assms(2) [of v v1] clock_cmd_sem [of c v1] by simp
qed simp

lemma quiet_undisturbed: "quiet v v' \<Longrightarrow> undisturbed K v v'"
  by (simp add: quiet_def undisturbed_def)

lemma runs_keyspace:
  assumes "runs (undisturbed K) cs v rs v'" "k \<in> K" "\<forall>c \<in> set cs. k \<notin> cmd_writes c"
  shows "keyspace v' k = keyspace v k"
  by (rule runs_preserves [OF assms(1), where P = "\<lambda>w. keyspace w k = keyspace v k"])
    (use assms in \<open>auto simp: undisturbed_def keyspace_cmd_sem\<close>)

lemma valkey_mono:
  assumes "valkey ex view R" "\<And>v v'. R v v' \<Longrightarrow> R' v v'"
  shows "valkey ex view R'"
proof
  show "runs R' cs (view s) rs (view s') \<and> (\<forall>r \<in> set rs. \<not> is_err r)" if "ex cs s = (Inr rs, s')" for cs s rs s'
    using valkey.exec_ok [OF assms(1) that] runs_mono assms(2) by metis
  show "\<exists>k rs. runs R' (take k cs) (view s) rs (view s')" if "ex cs s = (Inl e, s')" for cs s e s'
    using valkey.exec_fail [OF assms(1) that] runs_mono assms(2) by metis
qed

context valkey
begin

lemma do1_ok:
  assumes "do1 ex c s = (Inr r, s')"
  obtains v1 where "R (view s) v1" "cmd_sem c v1 = (r, view s')" "\<not> is_err r"
  using exec_ok [of "[c]" s "[r]" s'] assms that by (auto simp: do1_Inr runs_single)

lemma do1_fail:
  assumes "do1 ex c s = (Inl e, s')"
  shows "view s' = view s \<or> (\<exists>v1 r. R (view s) v1 \<and> cmd_sem c v1 = (r, view s'))"
proof -
  from do1_Inl [OF assms] consider e' where "ex [c] s = (Inl e', s')"
    | rs where "ex [c] s = (Inr rs, s')" "length rs \<noteq> 1" by blast
  then show ?thesis
  proof cases
    case 1
    then obtain k rs where "runs R (take k [c]) (view s) rs (view s')" using exec_fail by blast
    then show ?thesis by (cases k) (auto simp: runs_single)
  next
    case 2
    then show ?thesis using exec_ok runs_length by fastforce
  qed
qed

end

lemma net_tick_quiet: "net_tick n = Some (v1, sc) \<Longrightarrow> quiet (fst n) v1"
  by (cases n rule: net_tick.cases) (auto simp: quiet_def)

lemma net_run_ok: "net_run cs n = (Inr rs, n') \<Longrightarrow> runs quiet cs (fst n) rs (fst n')"
proof (induction cs arbitrary: n rs)
  case (Cons c cs)
  then obtain v1 sc rs' where t: "net_tick n = Some (v1, sc)" and rs: "rs = fst (cmd_sem c v1) # rs'"
    and r: "net_run cs (snd (cmd_sem c v1), sc) = (Inr rs', n')"
    by (auto split: option.splits prod.splits sum.splits)
  show ?case
    unfolding rs using runs_Cons [where R = quiet, OF net_tick_quiet [OF t] surjective_pairing] Cons.IH [OF r] by simp
qed (simp add: runs_Nil)

lemma net_run_fail: "net_run cs n = (Inl e, n') \<Longrightarrow> \<exists>k rs. runs quiet (take k cs) (fst n) rs (fst n')"
proof (induction cs arbitrary: n)
  case (Cons c cs)
  show ?case
  proof (cases "net_tick n")
    case None
    then have "runs quiet (take 0 (c # cs)) (fst n) [] (fst n')"
      using Cons.prems by (auto intro: runs_Nil)
    then show ?thesis by blast
  next
    case (Some p)
    then obtain v1 sc where t: "net_tick n = Some (v1, sc)" by (cases p) auto
    then have "net_run cs (snd (cmd_sem c v1), sc) = (Inl e, n')"
      using Cons.prems by (auto split: prod.splits sum.splits)
    from Cons.IH [OF this] obtain k rs where "runs quiet (take k cs) (snd (cmd_sem c v1)) rs (fst n')"
      by auto
    then have "runs quiet (take (Suc k) (c # cs)) (fst n) (fst (cmd_sem c v1) # rs) (fst n')"
      using runs_Cons [where R = quiet, OF net_tick_quiet [OF t] surjective_pairing] by simp
    then show ?thesis by blast
  qed
qed simp

interpretation net: valkey net_exec fst quiet
proof
  show "runs quiet cs (fst s) rs (fst s') \<and> (\<forall>r \<in> set rs. \<not> is_err r)"
    if "net_exec cs s = (Inr rs, s')" for cs s rs s'
    using that by (auto simp: net_exec_def split: prod.splits sum.splits if_splits intro: net_run_ok)
  show "\<exists>k rs. runs quiet (take k cs) (fst s) rs (fst s')"
    if "net_exec cs s = (Inl e, s')" for cs s e s'
  proof -
    obtain o' n where o: "net_run cs s = (o', n)" by (meson surj_pair)
    then have "n = s'" using that by (auto simp: net_exec_def split: sum.splits if_splits)
    with o show ?thesis
      by (cases o') (metis net_run_fail, metis net_run_ok take_all_iff order_refl)
  qed
qed

lemma net_undisturbed: "valkey net_exec fst (undisturbed K)"
  by (rule valkey_mono [OF net.valkey_axioms quiet_undisturbed])

lemma net_tick_empty: "net_tick (v, []) = Some n \<longleftrightarrow> n = (v, [])"
  by auto

lemma mem_run: "net_run cs (v, []) = (r, n) \<Longrightarrow> \<exists>rs. r = Inr rs \<and> runs (=) cs v rs (fst n)"
proof (induction cs arbitrary: v r n)
  case (Cons c cs)
  obtain r' n' where r': "net_run cs (snd (cmd_sem c v), []) = (r', n')" by (meson surj_pair)
  from Cons.IH [OF this] obtain rs where "r' = Inr rs" "runs (=) cs (snd (cmd_sem c v)) rs (fst n')" by blast
  then show ?case
    using Cons.prems r' runs_Cons [where R = "(=)", OF refl surjective_pairing] by auto
qed (auto intro: runs_Nil)

interpretation mem: valkey mem_exec id "(=)"
proof
  have run: "\<exists>rs. runs (=) cs s rs s' \<and> (r = Inr rs \<and> (\<forall>x \<in> set rs. \<not> is_err x) \<or> (\<exists>e. r = Inl e))"
    if "mem_exec cs s = (r, s')" for cs s r s'
  proof -
    obtain r' n where n: "net_run cs (s, []) = (r', n)" by (meson surj_pair)
    from mem_run [OF this] obtain rs where "r' = Inr rs" "runs (=) cs s rs (fst n)" by blast
    then show ?thesis using that n by (auto simp: mem_exec_def net_exec_def split: if_splits)
  qed
  show "runs (=) cs (id s) rs (id s') \<and> (\<forall>r \<in> set rs. \<not> is_err r)"
    if "mem_exec cs s = (Inr rs, s')" for cs s rs s'
    using run [OF that] by auto
  show "\<exists>k rs. runs (=) (take k cs) (id s) rs (id s')"
    if "mem_exec cs s = (Inl e, s')" for cs s e s'
    using run [OF that] by (metis id_apply order_refl take_all_iff)
qed

lemma mem_steady: "valkey mem_exec id (steady K)"
  by (rule valkey_mono [OF mem.valkey_axioms]) (simp add: steady_def)

lemma mem_counting: "valkey mem_exec id (counting K)"
  by (rule valkey_mono [OF mem.valkey_axioms]) (simp add: counting_def)

subsection \<open>Counters and expiry\<close>

lemma counter_cong: "live v' k = live v k \<Longrightarrow> counter v' k = counter v k"
  by (simp add: counter_def str_of_def)

lemma expiry_of_live: "expiry_of v k = Some t \<Longrightarrow> clock v < t"
  by (auto simp: expiry_of_def live_def split: option.splits if_splits)

lemma live_put_expiry: "live (put v k x (expiry_of v k)) k = Some (x, expiry_of v k)"
  by (auto simp: vk_simps dest: expiry_of_live split: option.split)

lemma INCRBY_counter:
  assumes "cmd_sem (INCRBY k n) v = (r, v')" "\<not> is_err r"
  shows "r = RInt (counter v k + n)" "counter v' k = counter v k + n"
    "expiry_of v' k = expiry_of v k" "live v' k \<noteq> None"
proof -
  have str: "is_str v k" using assms by (auto split: if_splits)
  have base: "(case str_of v k of None \<Rightarrow> Some 0 | Some s \<Rightarrow> parse_int s) = Some (counter v k)"
    and rng: "MinInt64 \<le> counter v k + n" "counter v k + n \<le> MaxInt64"
    using assms str by (auto simp: incr_sem_def counter_def split: option.splits if_splits)
  then have "incr_sem (str_of v k) n = Some (counter v k + n)" by (simp add: incr_sem_def)
  then have v': "v' = put v k (VStr (itoa (counter v k + n))) (expiry_of v k)"
    and r: "r = RInt (counter v k + n)" using assms(1) str by auto
  show "r = RInt (counter v k + n)" by (rule r)
  show "counter v' k = counter v k + n" "live v' k \<noteq> None" "expiry_of v' k = expiry_of v k"
    using rng unfolding v' by (simp_all add: counter_def str_of_def expiry_of_def [of "put _ _ _ _"] live_put_expiry)
qed

lemma live_expire_at:
  "live (expire_at v k t) k' =
     (if k' = k then (case live v k of None \<Rightarrow> None | Some (x, _) \<Rightarrow> if t \<le> clock v then None else Some (x, Some t))
      else live v k')"
  by (auto simp: expire_at_def vk_simps split: option.split)

lemma counter_expire_at: "clock v < t \<Longrightarrow> counter (expire_at v k t) k' = counter v k'"
  by (simp add: counter_def str_of_def live_expire_at split: option.split)

lemma live_cmd_sem: "k \<notin> cmd_writes c \<Longrightarrow> live (snd (cmd_sem c v)) k = live v k"
  by (rule live_cong) (simp_all add: keyspace_cmd_sem clock_cmd_sem)

lemma counter_cmd_sem: "k \<notin> cmd_writes c \<Longrightarrow> counter (snd (cmd_sem c v)) k = counter v k"
  by (rule counter_cong) (rule live_cmd_sem)

lemma counter_EXPIRE_NX: "0 < to_sec_ms d \<Longrightarrow> counter (snd (cmd_sem (EXPIRE_NX k d) v)) k' = counter v k'"
  by (simp add: counter_expire_at)

lemma runs_append:
  "runs R (xs @ ys) v rs v' \<longleftrightarrow> (\<exists>rs1 v1 rs2. runs R xs v rs1 v1 \<and> runs R ys v1 rs2 v' \<and> rs = rs1 @ rs2)"
  by (induction xs arbitrary: v rs) (fastforce simp: runs_Nil_iff runs_Cons_iff)+

lemma runs_live:
  assumes "runs (steady K) cs v rs v'" "k \<in> K" "\<forall>c \<in> set cs. k \<notin> cmd_writes c"
  shows "live v' k = live v k"
  by (rule runs_preserves [OF assms(1), where P = "\<lambda>w. live w k = live v k"])
    (use assms in \<open>auto simp: steady_def live_cmd_sem\<close>)

text \<open>
  A counter that is incremented and then given a TTL if it has none, in one pipeline, has an
  expiry at least \<open>E\<close> afterwards, if the TTL reaches \<open>E\<close> and an earlier expiry did.
\<close>

lemma counter_ttl:
  assumes run: "runs (steady {k}) (xs @ INCRBY k n # ys @ EXPIRE_NX k d # zs) v rs v'" "\<forall>r \<in> set rs. \<not> is_err r"
    and cs: "\<forall>c \<in> set (xs @ ys @ zs). k \<notin> cmd_writes c"
    and old: "\<forall>t. expiry_of v k = Some t \<longrightarrow> E \<le> t" and new: "0 < to_sec_ms d" "E \<le> clock v + to_sec_ms d"
  shows "\<exists>t. expiry_of v' k = Some t \<and> E \<le> t"
proof -
  obtain v1 v2 v3 r rs1 rs2 v4 v5 v6 rs3 r' where
    r1: "runs (steady {k}) xs v rs1 v1" and s2: "steady {k} v1 v2" and i: "cmd_sem (INCRBY k n) v2 = (r, v3)" "\<not> is_err r"
    and r4: "runs (steady {k}) ys v3 rs2 v4" and s5: "steady {k} v4 v5"
    and x: "cmd_sem (EXPIRE_NX k d) v5 = (r', v6)" and r6: "runs (steady {k}) zs v6 rs3 v'"
    using run by (auto simp: runs_append runs_Cons_iff simp del: cmd_sem.simps)
  have live: "live v2 k = live v k" using runs_live [OF r1] s2 cs by (auto simp: steady_def)
  then have e3: "expiry_of v3 k = expiry_of v k" "live v3 k \<noteq> None"
    using INCRBY_counter(3,4) [OF i] by (auto simp: expiry_of_def)
  moreover have "live v5 k = live v3 k" using runs_live [OF r4] s5 cs by (auto simp: steady_def)
  ultimately have l5: "expiry_of v5 k = expiry_of v k" "live v5 k \<noteq> None" by (auto simp: expiry_of_def)
  have "clock v \<le> clock v5"
    using runs_clock_mono [OF r1] runs_clock_mono [OF r4] s2 s5 clock_cmd_sem [of "INCRBY k n" v2] i(1)
    by (force simp: steady_def)
  then have "\<exists>t. expiry_of v6 k = Some t \<and> E \<le> t"
    using x l5 old new by (auto simp: expiry_of_def [of "expire_at _ _ _"] live_expire_at split: if_splits option.splits)
  moreover have "live v' k = live v6 k" using runs_live [OF r6] cs by auto
  ultimately show ?thesis by (simp add: expiry_of_def)
qed

end
