(* ===== verification/Route_Registry.thy ===== *)
theory Route_Registry
  imports Valkey
begin

text \<open>
  The cross-replica routing table of \<^verbatim>\<open>src/internal/router\<close>: the per-name lock
  (\<^verbatim>\<open>lock.go\<close>), bind, self-heal and lookup (\<^verbatim>\<open>route_e2e.go\<close>), heartbeat and unbind
  (\<^verbatim>\<open>registry.go\<close>), the byte counters (\<^verbatim>\<open>traffic.go\<close>, \<^verbatim>\<open>tunnels.go\<close>) and the node
  registry (\<^verbatim>\<open>nodes.go\<close>). Every operation takes the Valkey client \<open>ex\<close>. Random tokens are
  the argument \<open>mint\<close>, indexed by the attempts left, and \<open>cancelled\<close> says before which
  retry the caller's context is done. JSON coding of a node entry is an argument.
\<close>

datatype rerr = Valkey verr | ErrLockContended | ErrConnIDCollision | CtxDone | JSONError

definition lockTTL :: duration where "lockTTL = 5 * Second"

definition lockKey :: "string \<Rightarrow> vkey" where "lockKey name = ''lock:'' @ name"

definition key :: "string \<Rightarrow> vkey" where "key name = ''tunnel:'' @ name"

definition bad_reply :: rerr where "bad_reply = Valkey (VErr ''reply'')"

subsection \<open>The per-name lock\<close>

definition acquire :: "'s client \<Rightarrow> string \<Rightarrow> string \<Rightarrow> 's \<Rightarrow> (rerr + string \<times> bool) \<times> 's" where
  "acquire ex name token s =
     (case do1 ex (SETNX (lockKey name) token lockTTL) s of
        (Inl e, s') \<Rightarrow> (Inl (Valkey e), s')
      | (Inr (RBool got), s') \<Rightarrow> (Inr (token, got), s')
      | (Inr _, s') \<Rightarrow> (Inl bad_reply, s'))"

definition release :: "'s client \<Rightarrow> string \<Rightarrow> string \<Rightarrow> 's \<Rightarrow> 's" where
  "release ex name token s =
     (case do1 ex (GET (lockKey name)) s of
        (Inr (RStr v), s') \<Rightarrow>
          if v \<noteq> token then s' else snd (do1 ex (DEL (lockKey name)) s')
      | (_, s') \<Rightarrow> s')"

fun withLock_loop ::
  "'s client \<Rightarrow> (nat \<Rightarrow> string) \<Rightarrow> (nat \<Rightarrow> bool) \<Rightarrow> string \<Rightarrow> ('s \<Rightarrow> (rerr + 'a) \<times> 's) \<Rightarrow> nat \<Rightarrow> 's
   \<Rightarrow> (rerr + 'a) \<times> 's" where
  "withLock_loop ex mint cancelled name fn 0 s = (Inl ErrLockContended, s)"
| "withLock_loop ex mint cancelled name fn (Suc n) s =
     (case acquire ex name (mint n) s of
        (Inl e, s1) \<Rightarrow> (Inl e, s1)
      | (Inr (token, ok), s1) \<Rightarrow>
          if ok then (let (r, s2) = fn s1 in (r, release ex name token s2))
          else if cancelled n then (Inl CtxDone, s1)
          else withLock_loop ex mint cancelled name fn n s1)"

definition withLock ::
  "'s client \<Rightarrow> (nat \<Rightarrow> string) \<Rightarrow> (nat \<Rightarrow> bool) \<Rightarrow> string \<Rightarrow> ('s \<Rightarrow> (rerr + 'a) \<times> 's) \<Rightarrow> 's
   \<Rightarrow> (rerr + 'a) \<times> 's" where
  "withLock ex mint cancelled name fn s = withLock_loop ex mint cancelled name fn 50 s"

subsection \<open>Routes\<close>

datatype HeartbeatResult = HeartbeatRefreshed | HeartbeatNotOwner | HeartbeatMissing

datatype SelfHealResult = SelfHealBound | SelfHealNotOwner

text \<open>\<^verbatim>\<open>node, _ := v.(string)\<close>: a nil element gives the empty string.\<close>

definition as_string :: "string option \<Rightarrow> string" where
  "as_string v = (case v of None \<Rightarrow> [] | Some s \<Rightarrow> s)"

definition Heartbeat ::
  "'s client \<Rightarrow> duration \<Rightarrow> string \<Rightarrow> string \<Rightarrow> 's \<Rightarrow> (HeartbeatResult \<times> rerr option) \<times> 's" where
  "Heartbeat ex ttl name connID s =
     (case do1 ex (HGET (key name) ''connID'') s of
        (Inr RNil, s1) \<Rightarrow> ((HeartbeatMissing, None), s1)
      | (Inl e, s1) \<Rightarrow> ((HeartbeatMissing, Some (Valkey e)), s1)
      | (Inr (RStr owner), s1) \<Rightarrow>
          if owner \<noteq> connID then ((HeartbeatNotOwner, None), s1)
          else (case do1 ex (PEXPIRE (key name) ttl) s1 of
                  (Inl e, s2) \<Rightarrow> ((HeartbeatMissing, Some (Valkey e)), s2)
                | (Inr (RBool ok), s2) \<Rightarrow>
                    ((if \<not> ok then HeartbeatMissing else HeartbeatRefreshed, None), s2)
                | (Inr _, s2) \<Rightarrow> ((HeartbeatMissing, Some bad_reply), s2))
      | (Inr _, s1) \<Rightarrow> ((HeartbeatMissing, Some bad_reply), s1))"

definition unbind_section :: "'s client \<Rightarrow> string \<Rightarrow> string \<Rightarrow> 's \<Rightarrow> (rerr + unit) \<times> 's" where
  "unbind_section ex name connID s =
     (case do1 ex (HGET (key name) ''connID'') s of
        (Inr RNil, s1) \<Rightarrow> (Inr (), s1)
      | (Inl e, s1) \<Rightarrow> (Inl (Valkey e), s1)
      | (Inr (RStr owner), s1) \<Rightarrow>
          if owner \<noteq> connID then (Inr (), s1)
          else (case do1 ex (DEL (key name)) s1 of
                  (Inl e, s2) \<Rightarrow> (Inl (Valkey e), s2)
                | (Inr _, s2) \<Rightarrow> (Inr (), s2))
      | (Inr _, s1) \<Rightarrow> (Inl bad_reply, s1))"

definition Unbind ::
  "'s client \<Rightarrow> (nat \<Rightarrow> string) \<Rightarrow> (nat \<Rightarrow> bool) \<Rightarrow> string \<Rightarrow> string \<Rightarrow> 's \<Rightarrow> (rerr + unit) \<times> 's" where
  "Unbind ex mint cancelled name connID s =
     withLock ex mint cancelled name (unbind_section ex name connID) s"

definition bind_fields :: "string \<Rightarrow> string \<Rightarrow> bool \<Rightarrow> (string \<times> string) list" where
  "bind_fields nodeID connID resetBytes =
     [(''node'', nodeID), (''connID'', connID)]
     @ (if resetBytes then [(''bytes_in'', ''0''), (''bytes_out'', ''0'')] else [])"

definition bindHSet ::
  "'s client \<Rightarrow> duration \<Rightarrow> string \<Rightarrow> string \<Rightarrow> string \<Rightarrow> bool \<Rightarrow> 's \<Rightarrow> (rerr + unit) \<times> 's" where
  "bindHSet ex ttl name nodeID connID resetBytes s =
     (case ex [HSET (key name) (bind_fields nodeID connID resetBytes), PEXPIRE (key name) ttl] s of
        (Inl e, s') \<Rightarrow> (Inl (Valkey e), s')
      | (Inr _, s') \<Rightarrow> (Inr (), s'))"

definition bind_section ::
  "'s client \<Rightarrow> duration \<Rightarrow> string \<Rightarrow> string \<Rightarrow> string \<Rightarrow> 's \<Rightarrow> (rerr + unit) \<times> 's" where
  "bind_section ex ttl name nodeID connID s =
     (case do1 ex (HMGET (key name) [''connID'']) s of
        (Inl e, s1) \<Rightarrow> (Inl (Valkey e), s1)
      | (Inr (RVals [cid]), s1) \<Rightarrow>
          if as_string cid = connID then (Inl ErrConnIDCollision, s1)
          else bindHSet ex ttl name nodeID connID True s1
      | (Inr _, s1) \<Rightarrow> (Inl bad_reply, s1))"

definition BindRoute ::
  "'s client \<Rightarrow> (nat \<Rightarrow> string) \<Rightarrow> (nat \<Rightarrow> bool) \<Rightarrow> duration \<Rightarrow> string \<Rightarrow> string \<Rightarrow> string \<Rightarrow> 's
   \<Rightarrow> (rerr + unit) \<times> 's" where
  "BindRoute ex mint cancelled ttl name nodeID connID s =
     withLock ex mint cancelled name (bind_section ex ttl name nodeID connID) s"

definition selfheal_section ::
  "'s client \<Rightarrow> duration \<Rightarrow> string \<Rightarrow> string \<Rightarrow> string \<Rightarrow> 's \<Rightarrow> (rerr + SelfHealResult) \<times> 's" where
  "selfheal_section ex ttl name nodeID connID s =
     (case do1 ex (HMGET (key name) [''node'', ''connID'']) s of
        (Inl e, s1) \<Rightarrow> (Inl (Valkey e), s1)
      | (Inr (RVals [node, cid]), s1) \<Rightarrow>
          if as_string node = [] then
            (case bindHSet ex ttl name nodeID connID True s1 of
               (Inl e, s2) \<Rightarrow> (Inl e, s2) | (Inr _, s2) \<Rightarrow> (Inr SelfHealBound, s2))
          else if as_string cid \<noteq> connID then (Inr SelfHealNotOwner, s1)
          else
            (case bindHSet ex ttl name nodeID connID False s1 of
               (Inl e, s2) \<Rightarrow> (Inl e, s2) | (Inr _, s2) \<Rightarrow> (Inr SelfHealBound, s2))
      | (Inr _, s1) \<Rightarrow> (Inl bad_reply, s1))"

definition BindRouteIfAbsentOrOwner ::
  "'s client \<Rightarrow> (nat \<Rightarrow> string) \<Rightarrow> (nat \<Rightarrow> bool) \<Rightarrow> duration \<Rightarrow> string \<Rightarrow> string \<Rightarrow> string \<Rightarrow> 's
   \<Rightarrow> (rerr + SelfHealResult) \<times> 's" where
  "BindRouteIfAbsentOrOwner ex mint cancelled ttl name nodeID connID s =
     withLock ex mint cancelled name (selfheal_section ex ttl name nodeID connID) s"

definition LookupRoute :: "'s client \<Rightarrow> string \<Rightarrow> 's \<Rightarrow> (rerr + (string \<times> string) option) \<times> 's" where
  "LookupRoute ex name s =
     (case do1 ex (HMGET (key name) [''node'', ''connID'']) s of
        (Inl e, s1) \<Rightarrow> (Inl (Valkey e), s1)
      | (Inr (RVals [node, cid]), s1) \<Rightarrow>
          (Inr (if as_string node = [] then None else Some (as_string node, as_string cid)), s1)
      | (Inr _, s1) \<Rightarrow> (Inl bad_reply, s1))"

subsection \<open>Byte counters\<close>

definition orphanTTL :: duration where "orphanTTL = 30 * Second"

definition AddTraffic :: "'s client \<Rightarrow> string \<Rightarrow> int \<Rightarrow> int \<Rightarrow> 's \<Rightarrow> (rerr + unit) \<times> 's" where
  "AddTraffic ex name bytesIn bytesOut s =
     (case ex ((if bytesIn \<noteq> 0 then [HINCRBY (key name) ''bytes_in'' bytesIn] else [])
               @ (if bytesOut \<noteq> 0 then [HINCRBY (key name) ''bytes_out'' bytesOut] else [])
               @ [EXPIRE_NX (key name) orphanTTL]) s of
        (Inl e, s') \<Rightarrow> (Inl (Valkey e), s')
      | (Inr _, s') \<Rightarrow> (Inr (), s'))"

record TunnelMetaInfo =
  Node :: string
  BytesIn :: int
  BytesOut :: int

definition atoiVal :: "string option \<Rightarrow> int" where
  "atoiVal v = (case v of None \<Rightarrow> 0 | Some s \<Rightarrow> (case parse_int s of None \<Rightarrow> 0 | Some n \<Rightarrow> n))"

fun meta_of :: "reply \<Rightarrow> TunnelMetaInfo option" where
  "meta_of (RVals [node, bi, bo]) =
     (if as_string node = [] then None
      else Some \<lparr>Node = as_string node, BytesIn = atoiVal bi, BytesOut = atoiVal bo\<rparr>)"
| "meta_of _ = None"

definition TunnelMeta ::
  "'s client \<Rightarrow> string list \<Rightarrow> 's \<Rightarrow> (rerr + (string \<rightharpoonup> TunnelMetaInfo)) \<times> 's" where
  "TunnelMeta ex names s =
     (if names = [] then (Inr Map.empty, s)
      else case ex (map (\<lambda>n. HMGET (key n) [''node'', ''bytes_in'', ''bytes_out'']) names) s of
        (Inl e, s') \<Rightarrow> (Inl (Valkey e), s')
      | (Inr rs, s') \<Rightarrow>
          (Inr (fold (\<lambda>(n, r) out. case meta_of r of None \<Rightarrow> out | Some i \<Rightarrow> out(n \<mapsto> i))
                  (zip names rs) Map.empty), s'))"

subsection \<open>Node registry\<close>

record NodeInfo =
  Advertise :: string
  Public :: string
  Hostname :: string
  Version :: string
  StartedAt :: string
  LastHeartbeat :: string

definition nodeKey :: "string \<Rightarrow> vkey" where "nodeKey i = ''node:'' @ i"

definition nodeSetKey :: vkey where "nodeSetKey = ''nodes''"

definition RegisterNode ::
  "'s client \<Rightarrow> (NodeInfo \<Rightarrow> string option) \<Rightarrow> string \<Rightarrow> NodeInfo \<Rightarrow> duration \<Rightarrow> 's
   \<Rightarrow> (rerr + unit) \<times> 's" where
  "RegisterNode ex marshal nodeID info ttl s =
     (case marshal info of
        None \<Rightarrow> (Inl JSONError, s)
      | Some b \<Rightarrow>
        (case ex [SET (nodeKey nodeID) b ttl, SADD nodeSetKey nodeID, PEXPIRE nodeSetKey (3 * ttl)] s of
           (Inl e, s') \<Rightarrow> (Inl (Valkey e), s')
         | (Inr _, s') \<Rightarrow> (Inr (), s')))"

definition RefreshNode ::
  "'s client \<Rightarrow> (NodeInfo \<Rightarrow> string option) \<Rightarrow> string \<Rightarrow> NodeInfo \<Rightarrow> duration \<Rightarrow> 's
   \<Rightarrow> (rerr + unit) \<times> 's" where
  "RefreshNode ex marshal nodeID info ttl s = RegisterNode ex marshal nodeID info ttl s"

definition DeregisterNode :: "'s client \<Rightarrow> string \<Rightarrow> 's \<Rightarrow> (rerr + unit) \<times> 's" where
  "DeregisterNode ex nodeID s =
     (case ex [DEL (nodeKey nodeID), SREM nodeSetKey [nodeID]] s of
        (Inl e, s') \<Rightarrow> (Inl (Valkey e), s')
      | (Inr _, s') \<Rightarrow> (Inr (), s'))"

text \<open>The loop over the values of \<^verbatim>\<open>LiveNodes\<close>: entries found, and ids whose value is gone.\<close>

definition live_step ::
  "(string \<Rightarrow> NodeInfo option) \<Rightarrow> string \<times> string option
   \<Rightarrow> (string \<rightharpoonup> NodeInfo) \<times> string list \<Rightarrow> (string \<rightharpoonup> NodeInfo) \<times> string list" where
  "live_step unmarshal iv og =
     (case snd iv of
        None \<Rightarrow> (fst og, snd og @ [fst iv])
      | Some v \<Rightarrow>
        (case unmarshal v of
           None \<Rightarrow> og
         | Some info \<Rightarrow> ((fst og)(fst iv \<mapsto> info), snd og)))"

definition LiveNodes ::
  "'s client \<Rightarrow> (string \<Rightarrow> NodeInfo option) \<Rightarrow> 's \<Rightarrow> (rerr + (string \<rightharpoonup> NodeInfo)) \<times> 's" where
  "LiveNodes ex unmarshal s =
     (case do1 ex (SMEMBERS nodeSetKey) s of
        (Inl e, s1) \<Rightarrow> (Inl (Valkey e), s1)
      | (Inr (RStrs ids), s1) \<Rightarrow>
          if ids = [] then (Inr Map.empty, s1)
          else (case do1 ex (MGET (map nodeKey ids)) s1 of
                  (Inl e, s2) \<Rightarrow> (Inl (Valkey e), s2)
                | (Inr (RVals vals), s2) \<Rightarrow>
                    (let (out, gone) = fold (live_step unmarshal) (zip ids vals) (Map.empty, [])
                     in (Inr out, if gone \<noteq> [] then snd (do1 ex (SREM nodeSetKey gone) s2) else s2))
                | (Inr _, s2) \<Rightarrow> (Inl bad_reply, s2))
      | (Inr _, s1) \<Rightarrow> (Inl bad_reply, s1))"

definition LookupNode ::
  "'s client \<Rightarrow> (string \<Rightarrow> NodeInfo option) \<Rightarrow> string \<Rightarrow> 's \<Rightarrow> (rerr + string option) \<times> 's" where
  "LookupNode ex unmarshal nodeID s =
     (case do1 ex (GET (nodeKey nodeID)) s of
        (Inr RNil, s1) \<Rightarrow> (Inr None, s1)
      | (Inl e, s1) \<Rightarrow> (Inl (Valkey e), s1)
      | (Inr (RStr v), s1) \<Rightarrow>
          (case unmarshal v of
             None \<Rightarrow> (Inl JSONError, s1)
           | Some info \<Rightarrow> (Inr (Some (Advertise info)), s1))
      | (Inr _, s1) \<Rightarrow> (Inl bad_reply, s1))"

end
