(* ===== verification/Route_Locking.thy ===== *)
theory Route_Locking
  imports Route_Registry
begin

text \<open>
  What the routing table promises when several replicas use it at once. The other replicas
  are the environment of the Valkey client: they may bind, unbind, refresh and count bytes at
  any moment, except that while this replica holds the per-name lock they leave the lock and
  the route of that name alone (\<open>route_rely\<close>). Under that rely each locked operation acts
  as one atomic step, taken in the state in which the lock was acquired.
\<close>

subsection \<open>The abstract route\<close>

definition route_of :: "vstate \<Rightarrow> string \<Rightarrow> (string \<times> string) option" where
  "route_of v name =
     (let h = hash_of v (key name); node = as_string (h ''node'') in
      if node = [] then None else Some (node, as_string (h ''connID'')))"

definition rawexp :: "vstate \<Rightarrow> vkey \<Rightarrow> int option" where
  "rawexp v k = (case keyspace v k of None \<Rightarrow> None | Some (_, t) \<Rightarrow> t)"

text \<open>The entry's own TTL has run out by time \<open>c\<close>.\<close>

definition lapses :: "vstate \<Rightarrow> string \<Rightarrow> int \<Rightarrow> bool" where
  "lapses v name c \<longleftrightarrow> (case rawexp v (key name) of None \<Rightarrow> False | Some t \<Rightarrow> t \<le> c)"

text \<open>
  The route is the same, its TTL at most extended, or it is gone because its TTL ran out; a
  TTL newly set on the key is at least as long as the lock's.
\<close>

definition keeps_route :: "string \<Rightarrow> vstate \<Rightarrow> vstate \<Rightarrow> bool" where
  "keeps_route name v v' \<longleftrightarrow>
     clock v \<le> clock v'
     \<and> (route_of v' name = route_of v name
          \<and> (route_of v name = None \<or> (\<forall>c. lapses v' name c \<longrightarrow> lapses v name c))
        \<or> route_of v' name = None \<and> lapses v name (clock v'))
     \<and> (\<forall>c. lapses v' name c \<longrightarrow> lapses v name c \<or> clock v + to_ms lockTTL \<le> c)"

definition route_rely :: "string \<Rightarrow> string set \<Rightarrow> vstate \<Rightarrow> vstate \<Rightarrow> bool" where
  "route_rely name T v v' \<longleftrightarrow>
     clock v \<le> clock v'
     \<and> (\<forall>tok t. keyspace v (lockKey name) = Some (VStr tok, Some t) \<and> tok \<in> T \<and> clock v' < t
          \<longrightarrow> keyspace v' (lockKey name) = keyspace v (lockKey name) \<and> keeps_route name v v')"

text \<open>The lock is ours until after time \<open>B\<close>.\<close>

definition secure :: "string \<Rightarrow> string \<Rightarrow> int \<Rightarrow> vstate \<Rightarrow> bool" where
  "secure name tok B v \<longleftrightarrow>
     (\<exists>t. keyspace v (lockKey name) = Some (VStr tok, Some t) \<and> B < t)"

text \<open>The route is in place and its TTL does not run out before time \<open>t\<close>.\<close>

definition bound_until :: "string \<Rightarrow> string \<Rightarrow> string \<Rightarrow> int \<Rightarrow> vstate \<Rightarrow> bool" where
  "bound_until name node conn t v \<longleftrightarrow>
     route_of v name = Some (node, conn) \<and> (\<forall>c. lapses v name c \<longrightarrow> t \<le> c)"

text \<open>The state (and token) with which the retry loop of \<^verbatim>\<open>withLock\<close> gets the lock.\<close>

fun acquired ::
  "'s client \<Rightarrow> (nat \<Rightarrow> string) \<Rightarrow> (nat \<Rightarrow> bool) \<Rightarrow> string \<Rightarrow> nat \<Rightarrow> 's \<Rightarrow> (string \<times> 's) option" where
  "acquired ex mint cancelled name 0 s = None"
| "acquired ex mint cancelled name (Suc n) s =
     (case acquire ex name (mint n) s of
        (Inl e, s1) \<Rightarrow> None
      | (Inr (token, ok), s1) \<Rightarrow>
          if ok then Some (token, s1)
          else if cancelled n then None
          else acquired ex mint cancelled name n s1)"

subsection \<open>Basic facts\<close>

lemma lock_neq_key [simp]: "lockKey name \<noteq> key n" "key n \<noteq> lockKey name"
  by (simp_all add: lockKey_def key_def)

lemma to_ms_lockTTL [simp]: "to_ms lockTTL = 5000"
  by (simp add: to_ms_def lockTTL_def)

lemma route_of_cong:
  "keyspace v' (key name) = keyspace v (key name) \<Longrightarrow> clock v' = clock v \<Longrightarrow> route_of v' name = route_of v name"
  using live_cong [of v' "key name" v] by (simp add: route_of_def hash_of_def)

lemma lapses_cong: "keyspace v' (key name) = keyspace v (key name) \<Longrightarrow> lapses v' name c = lapses v name c"
  by (simp add: lapses_def rawexp_def)

lemma lapses_mono: "lapses v name c \<Longrightarrow> c \<le> d \<Longrightarrow> lapses v name d"
  by (auto simp: lapses_def split: option.splits)

lemma keeps_route_same:
  "keyspace v' (key name) = keyspace v (key name) \<Longrightarrow> clock v' = clock v \<Longrightarrow> keeps_route name v v'"
  using route_of_cong [of v' name v] lapses_cong [of v' name v] by (simp add: keeps_route_def)

lemma keeps_route_refl [simp]: "keeps_route name v v"
  by (simp add: keeps_route_same)

lemma keeps_route_trans:
  assumes k1: "keeps_route name v v1" and k2: "keeps_route name v1 v2"
  shows "keeps_route name v v2"
proof -
  have clk: "clock v \<le> clock v1" "clock v1 \<le> clock v2"
    using k1 k2 by (simp_all add: keeps_route_def)
  have ttl: "lapses v name c \<or> clock v + to_ms lockTTL \<le> c" if "lapses v2 name c" for c
  proof (cases "lapses v1 name c")
    case True
    then show ?thesis using k1 by (simp add: keeps_route_def)
  next
    case False
    then have "clock v1 + to_ms lockTTL \<le> c" using k2 that by (auto simp: keeps_route_def)
    then show ?thesis using clk by simp
  qed
  have "route_of v2 name = route_of v name
          \<and> (route_of v name = None \<or> (\<forall>c. lapses v2 name c \<longrightarrow> lapses v name c))
        \<or> route_of v2 name = None \<and> lapses v name (clock v2)"
  proof (cases "route_of v1 name")
    case None
    then have "route_of v2 name = None" using k2 by (auto simp: keeps_route_def)
    moreover have "route_of v name = None \<or> lapses v name (clock v1)"
      using k1 None by (auto simp: keeps_route_def)
    ultimately show ?thesis using lapses_mono clk(2) by auto
  next
    case (Some r)
    then have "route_of v name = Some r" "\<forall>c. lapses v1 name c \<longrightarrow> lapses v name c"
      using k1 by (auto simp: keeps_route_def)
    then show ?thesis using k2 Some by (auto simp: keeps_route_def)
  qed
  then show ?thesis using clk ttl by (simp add: keeps_route_def)
qed

lemma keeps_route_Some:
  "keeps_route name v v' \<Longrightarrow> route_of v' name = Some x \<Longrightarrow> route_of v name = Some x"
  by (auto simp: keeps_route_def)

lemma keeps_route_clock: "keeps_route name v v' \<Longrightarrow> clock v \<le> clock v'"
  by (simp add: keeps_route_def)

lemma keeps_route_None:
  "keeps_route name v v' \<Longrightarrow> route_of v name = None \<Longrightarrow> route_of v' name = None"
  by (auto simp: keeps_route_def)

lemma route_of_lapsed: "lapses v name (clock v) \<Longrightarrow> route_of v name = None"
  by (auto simp: route_of_def hash_of_def live_def lapses_def rawexp_def as_string_def split: option.splits)

lemma quiet_route_of:
  assumes "quiet v v'" "\<not> lapses v name (clock v')"
  shows "route_of v' name = route_of v name"
proof -
  have "live v' (key name) = live v (key name)"
    using assms by (auto simp: live_def lapses_def rawexp_def quiet_def split: option.splits)
  then show ?thesis by (simp add: route_of_def hash_of_def)
qed

lemma quiet_keeps_route: "quiet v v' \<Longrightarrow> keeps_route name v v'"
  using route_of_lapsed [of v' name] quiet_route_of [of v v' name] lapses_cong [of v' name v]
  by (auto simp: keeps_route_def quiet_def)

lemma quiet_route_rely: "quiet v v' \<Longrightarrow> route_rely name T v v'"
  by (simp add: route_rely_def quiet_keeps_route) (simp add: quiet_def)

lemma route_rely_clock: "route_rely name T v v' \<Longrightarrow> clock v \<le> clock v'"
  by (simp add: route_rely_def)

lemma route_rely_secure:
  assumes "route_rely name T v v'" "secure name tok B v" "tok \<in> T" "clock v' \<le> B"
  shows "secure name tok B v' \<and> keeps_route name v v'"
  using assms by (fastforce simp: route_rely_def secure_def)

lemma secure_cmd:
  "secure name tok B v \<Longrightarrow> lockKey name \<notin> cmd_writes c \<Longrightarrow> secure name tok B (snd (cmd_sem c v))"
  by (simp add: secure_def keyspace_cmd_sem)

lemma keeps_route_cmd:
  "key name \<notin> cmd_writes c \<Longrightarrow> keeps_route name v (snd (cmd_sem c v))"
  by (simp add: keeps_route_same keyspace_cmd_sem clock_cmd_sem)

lemma route_of_del: "route_of (del v (key name)) name = None"
  by (simp add: route_of_def hash_of_def vk_simps as_string_def)

lemma keeps_route_gone:
  assumes "keeps_route name v v1" "route_of v1 name = None" "clock v1 \<le> clock v'"
    and "keyspace v' (key name) = None"
  shows "keeps_route name v v'"
proof -
  have "route_of v' name = None"
    using assms(4) by (simp add: route_of_def hash_of_def live_def as_string_def)
  moreover have "\<not> lapses v' name c" for c
    using assms(4) by (simp add: lapses_def rawexp_def)
  moreover have "route_of v name = None \<or> lapses v name (clock v')"
    using assms lapses_mono by (auto simp: keeps_route_def)
  ultimately show ?thesis using assms by (auto simp: keeps_route_def)
qed

lemma route_of_put_hash:
  "route_of (put v (key name) (VHash h) t) name =
     (if as_string (h ''node'') = [] \<or> (case t of None \<Rightarrow> False | Some t' \<Rightarrow> t' \<le> clock v) then None
      else Some (as_string (h ''node''), as_string (h ''connID'')))"
  by (auto simp: route_of_def hash_of_def vk_simps as_string_def split: option.splits)

lemma hash_of_SomeD:
  "hash_of v k f = Some x \<Longrightarrow> \<exists>t. live v k = Some (VHash (hash_of v k), t)"
  by (simp add: hash_of_def split: option.splits prod.splits vval.splits)

lemma route_of_SomeD:
  assumes "route_of v name = Some (n, c)"
  shows "\<exists>h t. live v (key name) = Some (VHash h, t) \<and> n = as_string (h ''node'')
    \<and> c = as_string (h ''connID'') \<and> n \<noteq> []"
proof -
  have r: "n = as_string (hash_of v (key name) ''node'')" "n \<noteq> []" "c = as_string (hash_of v (key name) ''connID'')"
    using assms by (auto simp: route_of_def Let_def split: if_splits)
  then have "hash_of v (key name) ''node'' = Some n"
    by (simp add: as_string_def split: option.splits)
  then show ?thesis using hash_of_SomeD r by fast
qed

lemma bind_fields_hash:
  "fold (\<lambda>(f, x) h. h(f \<mapsto> x)) (bind_fields node conn b) h ''node'' = Some node"
  "fold (\<lambda>(f, x) h. h(f \<mapsto> x)) (bind_fields node conn b) h ''connID'' = Some conn"
  by (simp_all add: bind_fields_def)

lemma HSET_bind_route:
  assumes "cmd_sem (HSET (key name) (bind_fields node conn b)) v = (r, v')" "\<not> is_err r" "node \<noteq> []"
  shows "route_of v' name = Some (node, conn)" "clock v' = clock v"
    "\<And>c. lapses v' name c \<Longrightarrow> lapses v name c"
proof -
  define h where "h = fold (\<lambda>(f, x) h. h(f \<mapsto> x)) (bind_fields node conn b) (hash_of v (key name))"
  have f: "h ''node'' = Some node" "h ''connID'' = Some conn" by (simp_all add: h_def bind_fields_hash)
  have h: "v' = put v (key name) (VHash h) (expiry_of v (key name))"
    using assms(1,2) by (auto simp: h_def split: if_splits)
  have e: "expiry_of v (key name) = Some t \<Longrightarrow> clock v < t \<and> rawexp v (key name) = Some t" for t
    by (auto simp: expiry_of_def live_def rawexp_def split: option.splits if_splits)
  show "route_of v' name = Some (node, conn)"
    using e f assms(3) by (auto simp: h route_of_put_hash as_string_def split: option.split)
  show "clock v' = clock v" by (simp add: h)
  show "lapses v name c" if "lapses v' name c" for c
    using that e by (auto simp: h lapses_def rawexp_def vk_simps split: option.splits)
qed

lemma PEXPIRE_route:
  assumes "route_of v name = Some x" "to_ms ttl > 0"
  shows "bound_until name (fst x) (snd x) (clock v + to_ms ttl) (snd (cmd_sem (PEXPIRE (key name) ttl) v))"
proof -
  obtain h t where "live v (key name) = Some (VHash h, t)" "x = (as_string (h ''node''), as_string (h ''connID''))"
    "as_string (h ''node'') \<noteq> []"
    using route_of_SomeD [of v name "fst x" "snd x"] assms(1) by (cases x) auto
  then show ?thesis using assms(2)
    by (simp add: bound_until_def expire_at_def route_of_put_hash lapses_def rawexp_def vk_simps)
qed

lemma bound_until_mono: "bound_until name node conn t v \<Longrightarrow> t' \<le> t \<Longrightarrow> bound_until name node conn t' v"
  by (fastforce simp: bound_until_def)

lemma keeps_bound:
  "bound_until name node conn t v \<Longrightarrow> keeps_route name v v' \<Longrightarrow> clock v' < t \<Longrightarrow>
   route_of v' name = Some (node, conn)"
  by (fastforce simp: bound_until_def keeps_route_def)

lemma acquire_error: "acquire ex name tok s = (Inl e, s') \<Longrightarrow> e \<noteq> ErrConnIDCollision"
  by (auto simp: acquire_def bad_reply_def split: prod.splits sum.splits reply.splits)

lemma acquired_withLock:
  "withLock_loop ex mint cancelled name fn n s = (r, s') \<Longrightarrow>
     (\<exists>e. r = Inl e \<and> e \<noteq> ErrConnIDCollision \<and> acquired ex mint cancelled name n s = None)
     \<or> (\<exists>tok s1 s2. acquired ex mint cancelled name n s = Some (tok, s1)
          \<and> fn s1 = (r, s2) \<and> s' = release ex name tok s2)"
proof (induction n arbitrary: s)
  case (Suc n)
  then show ?case
    by (cases "acquire ex name (mint n) s")
      (auto simp: acquire_error split: sum.splits prod.splits if_splits)
qed auto

subsection \<open>Operations under the lock\<close>

locale registry_env = valkey ex view "route_rely name T"
  for ex :: "'s client" and view :: "'s \<Rightarrow> vstate" and name :: string and T :: "string set"
begin

lemma exec_clock: "ex cs s = (r, s') \<Longrightarrow> clock (view s) \<le> clock (view s')"
  by (cases r) (auto dest!: exec_fail exec_ok elim!: runs_clock_mono route_rely_clock)

lemma do1_state: "\<exists>r. ex [c] s = (r, snd (do1 ex c s))"
  by (auto simp: do1_def split: prod.splits sum.splits list.splits)

lemma do1_clock: "do1 ex c s = (r, s') \<Longrightarrow> clock (view s) \<le> clock (view s')"
  using do1_state [of c s] exec_clock by fastforce

lemma runs_secure:
  assumes "runs (route_rely name T) cs v rs v'" "secure name tok B v" "tok \<in> T" "clock v' \<le> B"
    and "\<forall>c \<in> set cs. lockKey name \<notin> cmd_writes c"
  shows "secure name tok B v'"
  using assms
proof (induction rule: runs.induct)
  case (runs_Cons v v1 c r v2 cs rs v')
  have "clock v1 \<le> clock v'"
    using runs_clock_mono [OF runs_Cons(3) route_rely_clock] clock_cmd_sem [of c v1] runs_Cons(2) by simp
  then have "secure name tok B v1"
    using route_rely_secure [OF runs_Cons(1,5,6)] runs_Cons(7) by simp
  then have "secure name tok B v2"
    using secure_cmd [of name tok B v1 c] runs_Cons(2,8) by simp
  then show ?case using runs_Cons(4,6,7,8) by simp
qed simp

lemma exec_secure:
  assumes "ex cs s = (r, s')" "secure name tok B (view s)" "tok \<in> T" "clock (view s') \<le> B"
    and "\<forall>c \<in> set cs. lockKey name \<notin> cmd_writes c"
  shows "secure name tok B (view s')"
proof (cases r)
  case (Inl e)
  then obtain k rs where "runs (route_rely name T) (take k cs) (view s) rs (view s')"
    using exec_fail assms(1) by blast
  then show ?thesis by (rule runs_secure) (use assms in \<open>auto dest: in_set_takeD\<close>)
next
  case (Inr rs)
  then show ?thesis using exec_ok assms runs_secure by blast
qed

lemma do1_secure:
  assumes "do1 ex c s = (r, s')" "secure name tok B (view s)" "tok \<in> T" "clock (view s') \<le> B"
    and "lockKey name \<notin> cmd_writes c"
  shows "secure name tok B (view s')"
  using do1_state [of c s] exec_secure [of "[c]" s _ s' tok B] assms by fastforce

text \<open>One command inside the section acts on a state in which the route is still as it was.\<close>

lemma do1_section:
  assumes "do1 ex c s = (Inr r, s')" "secure name tok B (view s)" "tok \<in> T" "clock (view s') \<le> B"
  obtains v1 where "keeps_route name (view s) v1" "secure name tok B v1" "cmd_sem c v1 = (r, view s')"
    "\<not> is_err r"
proof -
  have "ex [c] s = (Inr [r], s')" using assms(1) by (simp add: do1_Inr)
  then obtain v1 where v1: "route_rely name T (view s) v1" "cmd_sem c v1 = (r, view s')" "\<not> is_err r"
    by (auto dest!: exec_ok simp: runs_single)
  moreover have "clock v1 = clock (view s')" using v1(2) clock_cmd_sem [of c v1] by simp
  ultimately show thesis using that route_rely_secure assms by metis
qed

lemma do1_keeps:
  assumes "do1 ex c s = (r, s')" "secure name tok B (view s)" "tok \<in> T" "clock (view s') \<le> B"
    and "key name \<notin> cmd_writes c"
  shows "keeps_route name (view s) (view s')"
proof -
  have one: "keeps_route name (view s) (view s')"
    if "runs (route_rely name T) [c] (view s) rs (view s')" for rs
  proof -
    from that obtain v1 r where v1: "route_rely name T (view s) v1" "cmd_sem c v1 = (r, view s')"
      by (auto simp: runs_single)
    moreover have "clock v1 = clock (view s')" using v1(2) clock_cmd_sem [of c v1] by simp
    ultimately show ?thesis
      using route_rely_secure [OF v1(1) assms(2,3)] assms(4,5) keeps_route_cmd [of name c v1]
      by (auto intro: keeps_route_trans)
  qed
  from do1_state [of c s] assms(1) obtain o' where o: "ex [c] s = (o', s')" by auto
  show ?thesis
  proof (cases o')
    case (Inl e)
    then obtain k rs where "runs (route_rely name T) (take k [c]) (view s) rs (view s')"
      using exec_fail o by blast
    then show ?thesis using one by (cases k) auto
  next
    case (Inr rs)
    then show ?thesis using exec_ok o one by blast
  qed
qed

lemma acquire_secure:
  assumes "acquire ex name tok s = (Inr (tok', True), s1)" "B < clock (view s) + 5000"
  shows "tok' = tok" "secure name tok B (view s1)"
proof -
  from assms(1) have t: "tok' = tok" and d: "do1 ex (SETNX (lockKey name) tok lockTTL) s = (Inr (RBool True), s1)"
    by (auto simp: acquire_def split: prod.splits sum.splits reply.splits)
  from d obtain v1 where v1: "route_rely name T (view s) v1"
      "cmd_sem (SETNX (lockKey name) tok lockTTL) v1 = (RBool True, view s1)"
    by (auto simp: do1_Inr dest!: exec_ok simp: runs_single)
  then have "view s1 = put v1 (lockKey name) (VStr tok) (Some (clock v1 + 5000))"
    by (auto simp: ttl_at_def lockTTL_def to_ms_def split: if_splits)
  with v1 assms(2) show "secure name tok B (view s1)"
    using route_rely_clock [OF v1(1)] by (auto simp: secure_def vk_simps)
  show "tok' = tok" by (rule t)
qed

lemma acquired_secure:
  assumes "acquired ex mint cancelled name n s = Some (tok, s1)" "B < clock (view s) + 5000"
    and "range mint \<subseteq> T"
  shows "tok \<in> T" "secure name tok B (view s1)"
proof -
  have "tok \<in> T \<and> secure name tok B (view s1)" using assms(1,2)
  proof (induction n arbitrary: s)
    case (Suc n)
    obtain r s0 where a: "acquire ex name (mint n) s = (r, s0)" by force
    with Suc.prems obtain tk ok where r: "r = Inr (tk, ok)" by (cases r) auto
    have "clock (view s) \<le> clock (view s0)"
      using a do1_clock by (auto simp: acquire_def split: prod.splits sum.splits reply.splits)
    then show ?case
      using Suc a r acquire_secure [of "mint n" s tk s0 B] assms(3)
      by (auto split: if_splits)
  qed simp
  then show "tok \<in> T" "secure name tok B (view s1)" by auto
qed

lemma acquired_clock:
  "acquired ex mint cancelled name n s = Some (tok, s1) \<Longrightarrow> clock (view s) \<le> clock (view s1)"
proof (induction n arbitrary: s)
  case (Suc n)
  obtain r s0 where a: "acquire ex name (mint n) s = (r, s0)" by force
  then have "clock (view s) \<le> clock (view s0)"
    using do1_clock by (auto simp: acquire_def split: prod.splits sum.splits reply.splits)
  then show ?case using Suc a by (auto split: sum.splits if_splits dest!: Suc.IH)
qed simp

lemma release_clock: "clock (view s) \<le> clock (view (release ex name tok s))"
proof -
  obtain r s1 where g: "do1 ex (GET (lockKey name)) s = (r, s1)" by force
  obtain r2 s2 where d: "do1 ex (DEL (lockKey name)) s1 = (r2, s2)" by force
  show ?thesis using do1_clock [OF g] do1_clock [OF d]
    by (auto simp: release_def g d split: sum.splits reply.splits)
qed

lemma release_keeps:
  assumes "secure name tok B (view s)" "tok \<in> T" "clock (view (release ex name tok s)) \<le> B"
  shows "keeps_route name (view s) (view (release ex name tok s))"
proof -
  obtain r s1 where g: "do1 ex (GET (lockKey name)) s = (r, s1)" by force
  obtain r2 s2 where d: "do1 ex (DEL (lockKey name)) s1 = (r2, s2)" by force
  have rel: "release ex name tok s = (if r = Inr (RStr tok) then s2 else s1)"
    by (auto simp: release_def g d split: sum.splits reply.splits)
  then have c: "clock (view s1) \<le> B" using assms(3) do1_clock [OF d] by (auto split: if_splits)
  note k1 = do1_keeps [OF g assms(1,2) c] and sec = do1_secure [OF g assms(1,2) c]
  show ?thesis
    using rel k1 sec do1_keeps [OF d _ assms(2), of B] assms(3) by (auto intro: keeps_route_trans split: if_splits)
qed

text \<open>\<^verbatim>\<open>Unbind\<close> deletes the route if it is this connection's, and only then.\<close>

lemma unbind_section_spec:
  assumes "unbind_section ex name connID s = (Inr (), s')" "connID \<noteq> []"
    and sec: "secure name tok B (view s)" "tok \<in> T" and B: "clock (view s') \<le> B"
  shows "secure name tok B (view s')"
    "if \<exists>n. route_of (view s) name = Some (n, connID)
     then route_of (view s') name = None else keeps_route name (view s) (view s')"
proof -
  obtain r1 s1 where h: "do1 ex (HGET (key name) ''connID'') s = (r1, s1)" by force
  obtain r2 s2 where d: "do1 ex (DEL (key name)) s1 = (r2, s2)" by force
  have s': "s' = (if r1 = Inr (RStr connID) then s2 else s1)"
    and ok: "r1 = Inr RNil \<or> (\<exists>o'. r1 = Inr (RStr o'))" "r1 = Inr (RStr connID) \<Longrightarrow> \<exists>r. r2 = Inr r"
    using assms(1) by (auto simp: unbind_section_def h d split: sum.splits reply.splits if_splits)
  have c1: "clock (view s1) \<le> B" using B s' do1_clock [OF d] by (auto split: if_splits)
  have sec1: "secure name tok B (view s1)" using do1_secure [OF h sec c1] by simp
  then show "secure name tok B (view s')"
    using s' do1_secure [OF d sec1 sec(2)] B by (auto split: if_splits)
  from ok(1) obtain rr where rr: "r1 = Inr rr" by auto
  obtain v1 where k1: "keeps_route name (view s) v1" and v1: "cmd_sem (HGET (key name) ''connID'') v1 = (rr, view s1)"
    using do1_section [OF h [unfolded rr] sec c1] by metis
  then have vs1: "view s1 = v1" and own: "rr = (case hash_of v1 (key name) ''connID'' of None \<Rightarrow> RNil | Some x \<Rightarrow> RStr x)"
    using ok(1) rr by (auto split: if_splits)
  have mine: "(\<exists>n. route_of v1 name = Some (n, connID)) \<longleftrightarrow> rr = RStr connID \<and> route_of v1 name \<noteq> None"
    using own assms(2) by (auto simp: route_of_def Let_def as_string_def split: option.splits)
  show "if \<exists>n. route_of (view s) name = Some (n, connID)
     then route_of (view s') name = None else keeps_route name (view s) (view s')"
  proof (cases "rr = RStr connID")
    case True
    then obtain r where r: "do1 ex (DEL (key name)) s1 = (Inr r, s2)" using ok(2) rr d by auto
    have c2: "clock (view s2) \<le> B" using B s' rr True by simp
    obtain v2 where k2: "keeps_route name (view s1) v2" and "cmd_sem (DEL (key name)) v2 = (r, view s2)"
      by (rule do1_section [OF r sec1 sec(2) c2])
    then have v2: "view s' = del v2 (key name)" using s' rr True by simp
    have "keeps_route name (view s) (view s')" if "\<not> (\<exists>n. route_of (view s) name = Some (n, connID))"
    proof (rule keeps_route_gone [OF k1])
      show "route_of v1 name = None" using that mine True keeps_route_Some [OF k1] by blast
      show "clock v1 \<le> clock (view s')" using keeps_route_clock [OF k2] v2 vs1 by simp
      show "keyspace (view s') (key name) = None" using v2 by (simp add: vk_simps)
    qed
    then show ?thesis using v2 by (auto simp: route_of_del)
  next
    case False
    then have "keeps_route name (view s) (view s')" using s' rr vs1 k1 by simp
    moreover have "route_of v1 name = None" if "route_of (view s) name = Some (n, connID)" for n
      using that mine False k1 by (auto simp: keeps_route_def)
    ultimately show ?thesis using s' rr vs1 False by auto
  qed
qed

text \<open>The write of a bind: the route is in place, unless the old entry's TTL ran out meanwhile.\<close>

lemma bindHSet_spec:
  assumes "bindHSet ex ttl name node conn b s = (Inr (), s')" "node \<noteq> []" "to_ms ttl > 0"
    and sec: "secure name tok B (view s)" "tok \<in> T" and B: "clock (view s') \<le> B" "B < clock (view s) + 5000"
  shows "secure name tok B (view s')"
    "bound_until name node conn (clock (view s) + to_ms ttl) (view s') \<or> lapses (view s) name (clock (view s'))"
proof -
  obtain rs where e: "ex [HSET (key name) (bind_fields node conn b), PEXPIRE (key name) ttl] s = (Inr rs, s')"
    using assms(1) by (auto simp: bindHSet_def split: prod.splits sum.splits)
  show "secure name tok B (view s')" using exec_secure [OF e sec B(1)] by simp
  obtain v1 r1 v2 v3 r2 where v1: "route_rely name T (view s) v1"
    and h: "cmd_sem (HSET (key name) (bind_fields node conn b)) v1 = (r1, v2)" "\<not> is_err r1"
    and v3: "route_rely name T v2 v3" and p: "cmd_sem (PEXPIRE (key name) ttl) v3 = (r2, view s')"
    using exec_ok [OF e] by (auto simp: runs_Cons_iff runs_Nil_iff simp del: cmd_sem.simps)
  have c3: "clock v3 = clock (view s')"
    using clock_cmd_sem [of "PEXPIRE (key name) ttl" v3] p by (metis snd_conv)
  have c1: "clock v1 \<le> B" "clock v2 = clock v1"
    using HSET_bind_route(2) [OF h assms(2)] route_rely_clock [OF v3] c3 B by auto
  from route_rely_secure [OF v1 sec c1(1)] have k1: "keeps_route name (view s) v1" "secure name tok B v1" by auto
  then have "secure name tok B v2" using secure_cmd [of name tok B v1 "HSET (key name) (bind_fields node conn b)"] h by simp
  then have "keeps_route name v2 v3" using route_rely_secure [OF v3 _ sec(2)] c3 B by auto
  then consider "route_of v3 name = Some (node, conn)" | "lapses v2 name (clock v3)"
    using HSET_bind_route(1) [OF h assms(2)] by (auto simp: keeps_route_def)
  then show "bound_until name node conn (clock (view s) + to_ms ttl) (view s') \<or> lapses (view s) name (clock (view s'))"
  proof cases
    case 1
    have "clock (view s) \<le> clock v3" using exec_clock [OF e] c3 by simp
    then show ?thesis
      using bound_until_mono PEXPIRE_route [OF 1 assms(3)] p by (metis add_right_mono fst_conv snd_conv)
  next
    case 2
    then have "lapses v1 name (clock (view s'))" using HSET_bind_route(3) [OF h assms(2)] c3 by simp
    then have "lapses (view s) name (clock (view s')) \<or> clock (view s) + 5000 \<le> clock (view s')"
      using k1(1) by (simp add: keeps_route_def)
    then show ?thesis using B by auto
  qed
qed

lemma HMGET_section:
  assumes "do1 ex (HMGET (key name) fs) s = (Inr r, s1)"
    and sec: "secure name tok B (view s)" "tok \<in> T" and B: "clock (view s1) \<le> B"
  shows "keeps_route name (view s) (view s1)" "secure name tok B (view s1)"
    "r = RVals (map (hash_of (view s1) (key name)) fs)"
proof -
  obtain v1 where "keeps_route name (view s) v1" "secure name tok B v1"
      "cmd_sem (HMGET (key name) fs) v1 = (r, view s1)" "\<not> is_err r"
    by (rule do1_section [OF assms(1) sec B])
  then show "keeps_route name (view s) (view s1)" "secure name tok B (view s1)"
    "r = RVals (map (hash_of (view s1) (key name)) fs)"
    by (auto split: if_splits)
qed

lemma bindHSet_clock: "bindHSet ex ttl name node conn b s = (r, s') \<Longrightarrow> clock (view s) \<le> clock (view s')"
  by (auto simp: bindHSet_def split: prod.splits sum.splits dest: exec_clock)

lemma bind_section_spec:
  assumes "bind_section ex ttl name node conn s = (Inr (), s')" "node \<noteq> []" "to_ms ttl > 0"
    and sec: "secure name tok B (view s)" "tok \<in> T" and B: "clock (view s') \<le> B" "B < clock (view s) + 5000"
  shows "secure name tok B (view s')"
    "bound_until name node conn (clock (view s) + to_ms ttl) (view s')
       \<and> (\<forall>n. route_of (view s) name \<noteq> Some (n, conn))
     \<or> lapses (view s) name (clock (view s'))"
proof -
  obtain cid s1 where h: "do1 ex (HMGET (key name) [''connID'']) s = (Inr (RVals [cid]), s1)"
    and new: "as_string cid \<noteq> conn" and b: "bindHSet ex ttl name node conn True s1 = (Inr (), s')"
    using assms(1) by (auto simp: bind_section_def split: prod.splits sum.splits reply.splits list.splits if_splits)
  have c: "clock (view s1) \<le> clock (view s')" using bindHSet_clock [OF b] .
  then have c1: "clock (view s1) \<le> B" using B by simp
  note m = HMGET_section [OF h sec c1]
  have B1: "B < clock (view s1) + 5000" using B(2) keeps_route_clock [OF m(1)] by simp
  note w = bindHSet_spec [OF b assms(2,3) m(2) sec(2) B(1) B1]
  show "secure name tok B (view s')" by (rule w(1))
  have "(\<forall>n. route_of (view s) name \<noteq> Some (n, conn)) \<or> lapses (view s) name (clock (view s1))"
    using m(1,3) new by (auto simp: keeps_route_def route_of_def Let_def split: if_splits)
  moreover have "lapses (view s) name (clock (view s'))" if "lapses (view s1) name (clock (view s'))"
    using that m(1) B by (auto simp: keeps_route_def)
  ultimately show "bound_until name node conn (clock (view s) + to_ms ttl) (view s')
       \<and> (\<forall>n. route_of (view s) name \<noteq> Some (n, conn))
     \<or> lapses (view s) name (clock (view s'))"
    using w(2) lapses_mono [OF _ c] bound_until_mono keeps_route_clock [OF m(1)]
    by (metis add_right_mono)
qed

text \<open>The TTL the write of a bind leaves on the key, and a refused bind.\<close>

lemma bindHSet_ttl:
  assumes "bindHSet ex ttl name node conn b s = (Inr (), s')" "route_of (view s') name = Some x"
  shows "rawexp (view s') (key name) = Some (clock (view s') + to_ms ttl)"
proof -
  obtain rs where e: "ex [HSET (key name) (bind_fields node conn b), PEXPIRE (key name) ttl] s = (Inr rs, s')"
    using assms(1) by (auto simp: bindHSet_def split: prod.splits sum.splits)
  obtain v3 r2 where p: "cmd_sem (PEXPIRE (key name) ttl) v3 = (r2, view s')"
    using exec_ok [OF e] by (auto simp: runs_Cons_iff runs_Nil_iff simp del: cmd_sem.simps)
  have l: "live (view s') (key name) \<noteq> None" using route_of_SomeD [of "view s'" name] assms(2) by (cases x) fastforce
  have v': "view s' = expire_at v3 (key name) (clock v3 + to_ms ttl)" using p by auto
  then show ?thesis using l
    by (auto simp: expire_at_def rawexp_def live_def put_def del_def split: option.splits if_splits prod.splits)
qed

lemma bind_section_ttl:
  assumes "bind_section ex ttl name node conn s = (Inr (), s')" "route_of (view s') name = Some x"
  shows "rawexp (view s') (key name) = Some (clock (view s') + to_ms ttl)"
  using assms bindHSet_ttl
  by (auto simp: bind_section_def split: prod.splits sum.splits reply.splits list.splits if_splits)

lemma bind_section_collision:
  assumes "bind_section ex ttl name node conn s = (Inl ErrConnIDCollision, s')" "conn \<noteq> []"
    and sec: "secure name tok B (view s)" "tok \<in> T" and B: "clock (view s') \<le> B"
  shows "secure name tok B (view s')" "keeps_route name (view s) (view s')"
    "route_of (view s') name = None \<or> (\<exists>n. route_of (view s') name = Some (n, conn))"
proof -
  obtain cid where h: "do1 ex (HMGET (key name) [''connID'']) s = (Inr (RVals [cid]), s')"
    and own: "as_string cid = conn"
    using assms(1)
    by (auto simp: bind_section_def bindHSet_def bad_reply_def
        split: prod.splits sum.splits reply.splits list.splits if_splits)
  note m = HMGET_section [OF h sec B]
  show "secure name tok B (view s')" "keeps_route name (view s) (view s')" by (rule m)+
  show "route_of (view s') name = None \<or> (\<exists>n. route_of (view s') name = Some (n, conn))"
    using m(3) own by (auto simp: route_of_def Let_def)
qed

lemma selfheal_section_spec:
  assumes "selfheal_section ex ttl name node conn s = (Inr res, s')" "node \<noteq> []" "to_ms ttl > 0"
    and sec: "secure name tok B (view s)" "tok \<in> T" and B: "clock (view s') \<le> B" "B < clock (view s) + 5000"
  shows "secure name tok B (view s')"
    "case res of
       SelfHealBound \<Rightarrow> bound_until name node conn (clock (view s) + to_ms ttl) (view s')
           \<and> (route_of (view s) name = None \<or> (\<exists>n. route_of (view s) name = Some (n, conn)))
         \<or> lapses (view s) name (clock (view s'))
     | SelfHealNotOwner \<Rightarrow> keeps_route name (view s) (view s')
         \<and> (\<exists>n c. route_of (view s) name = Some (n, c) \<and> c \<noteq> conn)"
proof -
  obtain nd cid s1 where h: "do1 ex (HMGET (key name) [''node'', ''connID'']) s = (Inr (RVals [nd, cid]), s1)"
    using assms(1) by (auto simp: selfheal_section_def split: prod.splits sum.splits reply.splits list.splits)
  have alt: "s' = s1 \<and> res = SelfHealNotOwner \<and> as_string nd \<noteq> [] \<and> as_string cid \<noteq> conn
    \<or> (\<exists>b. bindHSet ex ttl name node conn b s1 = (Inr (), s')) \<and> res = SelfHealBound
       \<and> (as_string nd = [] \<or> as_string cid = conn)"
    using assms(1) by (auto simp: selfheal_section_def h split: prod.splits sum.splits if_splits)
  then have c: "clock (view s1) \<le> clock (view s')" using bindHSet_clock by auto
  then have c1: "clock (view s1) \<le> B" using B by simp
  note m = HMGET_section [OF h sec c1]
  have B1: "B < clock (view s1) + 5000" using B(2) keeps_route_clock [OF m(1)] by simp
  have r1: "route_of (view s1) name = (if as_string nd = [] then None else Some (as_string nd, as_string cid))"
    using m(3) by (auto simp: route_of_def Let_def)
  show "secure name tok B (view s')"
    using alt m(2) bindHSet_spec(1) [OF _ assms(2,3) m(2) sec(2) B(1) B1] by blast
  show "case res of
       SelfHealBound \<Rightarrow> bound_until name node conn (clock (view s) + to_ms ttl) (view s')
           \<and> (route_of (view s) name = None \<or> (\<exists>n. route_of (view s) name = Some (n, conn)))
         \<or> lapses (view s) name (clock (view s'))
     | SelfHealNotOwner \<Rightarrow> keeps_route name (view s) (view s')
         \<and> (\<exists>n c. route_of (view s) name = Some (n, c) \<and> c \<noteq> conn)"
  proof (cases res)
    case SelfHealNotOwner
    then show ?thesis using alt m(1) r1 keeps_route_Some [OF m(1)] by auto
  next
    case SelfHealBound
    with alt obtain b where b: "bindHSet ex ttl name node conn b s1 = (Inr (), s')"
      and own: "as_string nd = [] \<or> as_string cid = conn" by auto
    have "lapses (view s) name (clock (view s'))" if "lapses (view s1) name (clock (view s'))"
      using that m(1) B by (auto simp: keeps_route_def)
    moreover have "route_of (view s) name = None \<or> (\<exists>n. route_of (view s) name = Some (n, conn))
        \<or> lapses (view s) name (clock (view s1))"
      using m(1) r1 own by (auto simp: keeps_route_def split: if_splits)
    moreover have "bound_until name node conn (clock (view s) + to_ms ttl) (view s')
        \<or> lapses (view s1) name (clock (view s'))"
      using bindHSet_spec(2) [OF b assms(2,3) m(2) sec(2) B(1) B1] bound_until_mono keeps_route_clock [OF m(1)]
      by (metis add_right_mono)
    ultimately show ?thesis using SelfHealBound lapses_mono [OF _ c] by auto
  qed
qed

text \<open>
  From a section to the operation: whatever the section establishes about the state in which
  the lock was taken still holds after the lock is released.
\<close>

lemma withLock_ran:
  assumes "withLock ex mint cancelled name fn s = (res, s')" "clock (view s') < clock (view s) + 5000"
    and "range mint \<subseteq> T" and mono: "\<And>s r s'. fn s = (r, s') \<Longrightarrow> clock (view s) \<le> clock (view s')"
    and ran: "\<And>e. res = Inl e \<Longrightarrow> e = ErrConnIDCollision"
  obtains tok s1 s2 where "acquired ex mint cancelled name 50 s = Some (tok, s1)" "fn s1 = (res, s2)"
    "tok \<in> T" "secure name tok (clock (view s')) (view s1)" "s' = release ex name tok s2"
    "clock (view s2) \<le> clock (view s')" "clock (view s') < clock (view s1) + 5000"
proof -
  obtain tok s1 s2 where a: "acquired ex mint cancelled name 50 s = Some (tok, s1)"
    and f: "fn s1 = (res, s2)" and s': "s' = release ex name tok s2"
    using acquired_withLock assms(1) ran unfolding withLock_def by fastforce
  have "clock (view s2) \<le> clock (view s')" using release_clock s' by simp
  moreover have "clock (view s) \<le> clock (view s1)"
    using a acquired_clock by blast
  ultimately show thesis
    using that [OF a f] acquired_secure [OF a assms(2,3)] s' assms(2) by simp
qed

lemmas withLock_spec = withLock_ran [where res = "Inr r" for r, simplified]

end

subsection \<open>Properties\<close>

interpretation net_routes: registry_env net_exec fst name T for name T
  unfolding registry_env_def by (rule valkey_mono [OF net.valkey_axioms quiet_route_rely])

lemma unbind_section_clock:
  assumes "registry_env ex view name T" "unbind_section ex name connID s = (r, s')"
  shows "clock (view s) \<le> clock (view s')"
  using assms(2)
  by (auto simp: unbind_section_def split: prod.splits sum.splits reply.splits if_splits
      dest!: registry_env.do1_clock [OF assms(1)])

lemma bind_section_clock:
  assumes "registry_env ex view name T" "bind_section ex ttl name node conn s = (r, s')"
  shows "clock (view s) \<le> clock (view s')"
  using assms(2)
  by (auto simp: bind_section_def split: prod.splits sum.splits reply.splits list.splits if_splits
      dest!: registry_env.do1_clock [OF assms(1)] registry_env.bindHSet_clock [OF assms(1)])

lemma selfheal_section_clock:
  assumes "registry_env ex view name T" "selfheal_section ex ttl name node conn s = (r, s')"
  shows "clock (view s) \<le> clock (view s')"
  using assms(2)
  by (auto simp: selfheal_section_def split: prod.splits sum.splits reply.splits list.splits if_splits
      dest!: registry_env.do1_clock [OF assms(1)] registry_env.bindHSet_clock [OF assms(1)])

lemma ttl_at_lock: "ttl_at v lockTTL = Some (clock v + 5000)"
  by (simp add: ttl_at_def lockTTL_def to_ms_def)

lemma to_ms_30s: "to_ms 30000000000 = 30000"
  by (simp add: to_ms_def)

lemmas net_eval = acquire_def release_def do1_def net_exec_def is_hash_def is_str_def str_of_def
  live_def hash_of_def put_def del_def ttl_at_lock expire_at_def expiry_of_def as_string_def
  bind_fields_def

definition demo_net :: net where
  "demo_net =
     (\<lparr>clock = 100, keyspace = [key ''a'' \<mapsto> (VHash [''node'' \<mapsto> ''n1'', ''connID'' \<mapsto> ''c1''], Some 60100)]\<rparr>,
      [Some 3, Some 2])"

definition demo_after :: "int \<Rightarrow> vstate" where
  "demo_after t = \<lparr>clock = t, keyspace =
     [key ''a'' \<mapsto> (VHash [''node'' \<mapsto> ''n1'', ''connID'' \<mapsto> ''c1''], Some 60100)]\<rparr>"

lemma demo_unbind:
  "Unbind net_exec (\<lambda>n. ''t'') (\<lambda>n. False) ''a'' ''c2'' demo_net
   = (Inr (), (demo_after 105, []))"
  by (simp add: Unbind_def withLock_def numeral_eq_Suc unbind_section_def demo_net_def demo_after_def net_eval)

definition demo_bound :: "int \<Rightarrow> vstate" where
  "demo_bound t = \<lparr>clock = t, keyspace =
     [key ''a'' \<mapsto> (VHash [''node'' \<mapsto> ''n2'', ''connID'' \<mapsto> ''c2'', ''bytes_in'' \<mapsto> ''0'', ''bytes_out'' \<mapsto> ''0''],
        Some (t + 30000))]\<rparr>"

lemma demo_bind:
  "BindRoute net_exec (\<lambda>n. ''t'') (\<lambda>n. False) (30 * Second) ''a'' ''n2'' ''c2'' demo_net
   = (Inr (), (demo_bound 105, []))"
  by (simp add: BindRoute_def withLock_def numeral_eq_Suc bind_section_def bindHSet_def demo_bound_def
      demo_net_def to_ms_30s net_eval)

lemma demo_collision:
  "BindRoute net_exec (\<lambda>n. ''t'') (\<lambda>n. False) (30 * Second) ''a'' ''n2'' ''c1'' demo_net
   = (Inl ErrConnIDCollision, (demo_after 105, []))"
  by (simp add: BindRoute_def withLock_def numeral_eq_Suc bind_section_def demo_after_def
      demo_net_def net_eval)

lemma demo_selfheal:
  "BindRouteIfAbsentOrOwner net_exec (\<lambda>n. ''t'') (\<lambda>n. False) (30 * Second) ''a'' ''n2'' ''c2'' demo_net
   = (Inr SelfHealNotOwner, (demo_after 105, []))"
  by (simp add: BindRouteIfAbsentOrOwner_def withLock_def numeral_eq_Suc selfheal_section_def
      demo_net_def demo_after_def net_eval)

text \<open>
  C2. Unbinding is atomic and owner-conditional, whatever other replicas do: in the state in which
  the lock was obtained, either the route was this connection's, and it is gone afterwards, or
  it was not, and it is untouched (at most its own TTL ran out). Others may act at any time as
  long as they respect the lock, and the call must finish within the lock's five seconds.
\<close>

theorem Unbind_atomic:
  assumes "valkey ex view (route_rely name (range mint))"
    and "Unbind ex mint cancelled name connID s = (Inr (), s')" "connID \<noteq> []"
    and "clock (view s') < clock (view s) + 5000"
  shows "\<exists>tok s1. acquired ex mint cancelled name 50 s = Some (tok, s1)
    \<and> (if \<exists>n. route_of (view s1) name = Some (n, connID) then route_of (view s') name = None
       else keeps_route name (view s1) (view s'))"
proof -
  from assms(1) have env: "registry_env ex view name (range mint)" by (simp add: registry_env_def)
  obtain tok s1 s2 where a: "acquired ex mint cancelled name 50 s = Some (tok, s1)"
    and f: "unbind_section ex name connID s1 = (Inr (), s2)" and t: "tok \<in> range mint"
    and sec: "secure name tok (clock (view s')) (view s1)" and s': "s' = release ex name tok s2"
    and c: "clock (view s2) \<le> clock (view s')"
    by (rule registry_env.withLock_spec [OF env assms(2) [unfolded Unbind_def] assms(4) order_refl
          unbind_section_clock [OF env]])
  note spec = registry_env.unbind_section_spec [OF env f assms(3) sec t c]
  have "keeps_route name (view s2) (view s')"
    using registry_env.release_keeps [OF env spec(1) t] s' by simp
  then show ?thesis using a spec(2) by (auto intro: keeps_route_trans keeps_route_None split: if_splits)
qed

theorem Unbind_atomic_witness:
  "Unbind net_exec (\<lambda>n. ''t'') (\<lambda>n. False) ''a'' ''c2'' demo_net = (Inr (), (demo_after 105, []))
   \<and> (\<exists>tok s1. acquired net_exec (\<lambda>n. ''t'') (\<lambda>n. False) ''a'' 50 demo_net = Some (tok, s1)
      \<and> (if \<exists>n. route_of (fst s1) ''a'' = Some (n, ''c2'') then route_of (demo_after 105) ''a'' = None
         else keeps_route ''a'' (fst s1) (demo_after 105)))"
proof -
  have "clock (fst (demo_after 105, [] :: nat option list)) < clock (fst demo_net) + 5000"
    by (simp add: demo_net_def demo_after_def)
  from Unbind_atomic [OF net_routes.valkey_axioms demo_unbind _ this] show ?thesis
    using demo_unbind unfolding fst_conv by blast
qed



text \<open>
  C4. The self-heal of the heartbeat never takes a route from its owner: it reports "bound" only
  if, when it got the lock, the name had no route or the route was this connection's own, and
  then the route is in place; otherwise it reports "not owner" and the route stays as it was.
\<close>

theorem SelfHeal_atomic:
  assumes "valkey ex view (route_rely name (range mint))"
    and "BindRouteIfAbsentOrOwner ex mint cancelled ttl name nodeID connID s = (Inr res, s')"
    and "nodeID \<noteq> []" "5 * Second \<le> ttl" "clock (view s') < clock (view s) + 5000"
  shows "\<exists>tok s1. acquired ex mint cancelled name 50 s = Some (tok, s1)
    \<and> (case res of
         SelfHealBound \<Rightarrow> route_of (view s') name = Some (nodeID, connID)
             \<and> (route_of (view s1) name = None \<or> (\<exists>n. route_of (view s1) name = Some (n, connID)))
           \<or> lapses (view s1) name (clock (view s'))
       | SelfHealNotOwner \<Rightarrow> keeps_route name (view s1) (view s')
           \<and> (\<exists>n c. route_of (view s1) name = Some (n, c) \<and> c \<noteq> connID))"
proof -
  from assms(1) have env: "registry_env ex view name (range mint)" by (simp add: registry_env_def)
  obtain tok s1 s2 where a: "acquired ex mint cancelled name 50 s = Some (tok, s1)"
    and f: "selfheal_section ex ttl name nodeID connID s1 = (Inr res, s2)" and t: "tok \<in> range mint"
    and sec: "secure name tok (clock (view s')) (view s1)" and s': "s' = release ex name tok s2"
    and c: "clock (view s2) \<le> clock (view s')" "clock (view s') < clock (view s1) + 5000"
    by (rule registry_env.withLock_spec [OF env assms(2) [unfolded BindRouteIfAbsentOrOwner_def] assms(5)
          order_refl selfheal_section_clock [OF env]])
  have ttl: "to_ms ttl \<ge> 5000" using assms(4) by (simp add: to_ms_def)
  then have pos: "to_ms ttl > 0" by simp
  note spec = registry_env.selfheal_section_spec [OF env f assms(3) pos sec t c]
  have k: "keeps_route name (view s2) (view s')"
    using registry_env.release_keeps [OF env spec(1) t] s' by simp
  show ?thesis
    using a spec(2) keeps_bound [OF _ k, of nodeID connID "clock (view s1) + to_ms ttl"] c(2) ttl
      lapses_mono [OF _ c(1)] keeps_route_trans [OF _ k] by (auto split: SelfHealResult.splits)
qed

theorem SelfHeal_atomic_witness:
  "\<exists>tok s1. acquired net_exec (\<lambda>n. ''t'') (\<lambda>n. False) ''a'' 50 demo_net = Some (tok, s1)
    \<and> keeps_route ''a'' (fst s1) (demo_after 105)
    \<and> (\<exists>n c. route_of (fst s1) ''a'' = Some (n, c) \<and> c \<noteq> ''c2'')"
proof -
  have "clock (fst (demo_after 105, [] :: nat option list)) < clock (fst demo_net) + 5000"
    by (simp add: demo_net_def demo_after_def)
  from SelfHeal_atomic [OF net_routes.valkey_axioms demo_selfheal _ _ this] show ?thesis by simp
qed
text \<open>
  A heartbeat is owner-conditional and changes nothing but the TTL: with any interference from
  other clients, a heartbeat that finds another connection id writes nothing at all; one that
  reports a refresh read its own connection id first and then only moved the expiry of that key.
\<close>

lemma Heartbeat_owner_conditional:
  assumes "valkey ex view R" "Heartbeat ex ttl name connID s = ((res, None), s')"
  shows "\<exists>v1. R (view s) v1 \<and>
    (case res of
       HeartbeatNotOwner \<Rightarrow> (\<exists>c. hash_of v1 (key name) ''connID'' = Some c \<and> c \<noteq> connID) \<and> view s' = v1
     | HeartbeatRefreshed \<Rightarrow> hash_of v1 (key name) ''connID'' = Some connID
         \<and> (\<exists>v2. R v1 v2 \<and> live v2 (key name) \<noteq> None
              \<and> view s' = expire_at v2 (key name) (clock v2 + to_ms ttl))
     | HeartbeatMissing \<Rightarrow> hash_of v1 (key name) ''connID'' = None \<and> view s' = v1
         \<or> hash_of v1 (key name) ''connID'' = Some connID
           \<and> (\<exists>v2. R v1 v2 \<and> live v2 (key name) = None \<and> view s' = v2))"
proof -
  obtain r1 s1 where h: "do1 ex (HGET (key name) ''connID'') s = (Inr r1, s1)"
    using assms(2) by (auto simp: Heartbeat_def split: prod.splits sum.splits)
  obtain v1 where v1: "R (view s) v1" "cmd_sem (HGET (key name) ''connID'') v1 = (r1, view s1)" "\<not> is_err r1"
    by (rule valkey.do1_ok [OF assms(1) h])
  then have r1: "view s1 = v1" "r1 = (case hash_of v1 (key name) ''connID'' of None \<Rightarrow> RNil | Some x \<Rightarrow> RStr x)"
    by (auto split: if_splits)
  show ?thesis
  proof (cases "hash_of v1 (key name) ''connID'' = Some connID")
    case True
    then obtain ok s2 where p: "do1 ex (PEXPIRE (key name) ttl) s1 = (Inr (RBool ok), s2)"
      and res: "s' = s2" "res = (if ok then HeartbeatRefreshed else HeartbeatMissing)"
      using assms(2) r1(2) by (auto simp: Heartbeat_def h split: prod.splits sum.splits reply.splits if_splits)
    obtain v2 where "R (view s1) v2" "cmd_sem (PEXPIRE (key name) ttl) v2 = (RBool ok, view s2)"
      by (rule valkey.do1_ok [OF assms(1) p])
    then have "R v1 v2" "cmd_sem (PEXPIRE (key name) ttl) v2 = (RBool ok, view s')"
      using r1(1) res(1) by simp_all
    then have e: "R v1 v2" "ok \<longleftrightarrow> live v2 (key name) \<noteq> None"
      "view s' = expire_at v2 (key name) (clock v2 + to_ms ttl)" by auto
    then have "\<not> ok \<Longrightarrow> view s' = v2" by (auto simp: expire_at_def split: option.split)
    with e show ?thesis using v1(1) True res by (intro exI [of _ v1]) (cases "live v2 (key name)"; auto)
  next
    case False
    then show ?thesis using assms(2) v1(1) r1 by (auto simp: Heartbeat_def h split: option.splits)
  qed
qed

lemma demo_heartbeat:
  "Heartbeat net_exec (30 * Second) ''a'' ''c2'' demo_net = ((HeartbeatNotOwner, None), (demo_after 103, [Some 2]))"
  by (simp add: Heartbeat_def demo_net_def demo_after_def net_eval)

lemma Heartbeat_owner_conditional_witness:
  "\<exists>v1. quiet (fst demo_net) v1 \<and>
     (\<exists>c. hash_of v1 (key ''a'') ''connID'' = Some c \<and> c \<noteq> ''c2'') \<and> demo_after 103 = v1"
  using Heartbeat_owner_conditional [OF net.valkey_axioms demo_heartbeat]
  unfolding HeartbeatResult.case fst_conv .

end
