(* ===== verification/Go_Time.thy ===== *)
theory Go_Time
  imports Go_Strings
begin

text \<open>
  The part of Go's \<^verbatim>\<open>time\<close> package the sources use, on integers counting nanoseconds since the Unix
  epoch: truncation to a window, the civil date in UTC and the fixed-width layout of log file and object
  names, with the fact that names in that layout sort in time order.
\<close>

subsection \<open>Padded decimals\<close>

text \<open>\<^verbatim>\<open>%0wd\<close> of a natural number, and its digits when it fits.\<close>

definition fmt0 :: "nat \<Rightarrow> nat \<Rightarrow> string" where
  "fmt0 w n = replicate (w - length (utoa n)) CHR ''0'' @ utoa n"

fun decn :: "nat \<Rightarrow> nat \<Rightarrow> string" where
  "decn 0 n = []"
| "decn (Suc w) n = decn w (n div 10) @ [digit n]"

lemma length_decn [simp]: "length (decn w n) = w"
  by (induction w arbitrary: n) auto

lemma digit_0: "digit 0 = CHR ''0''"
  by code_simp

lemma decn_zero: "decn w 0 = replicate w CHR ''0''"
  by (induction w) (auto simp: digit_0 replicate_append_same)

lemma utoa_decn: "n < 10 ^ w \<Longrightarrow> decn w n = replicate (w - length (utoa n)) CHR ''0'' @ utoa n \<or> w = 0 \<and> n = 0"
proof (induction w arbitrary: n)
  case (Suc w)
  show ?case
  proof (cases "n < 10")
    case True
    then have "decn w (n div 10) = replicate w CHR ''0''" by (simp add: decn_zero)
    then show ?thesis using True by (subst (1 2) utoa.simps) simp
  next
    case False
    have "w \<noteq> 0" using Suc.prems False by (cases w) auto
    moreover have "n div 10 < 10 ^ w" using Suc.prems by (simp add: less_mult_imp_div_less)
    ultimately show ?thesis using Suc.IH [of "n div 10"] False by (subst (1 2) utoa.simps) simp
  qed
qed simp

lemma fmt0_decn: "n < 10 ^ w \<Longrightarrow> 0 < w \<Longrightarrow> fmt0 w n = decn w n"
  using utoa_decn [of n w] by (auto simp: fmt0_def)

lemma digit_less: "a < 10 \<Longrightarrow> b < 10 \<Longrightarrow> digit a < digit b \<longleftrightarrow> a < b"
  by (simp add: digit_def less_char_def)

lemma digit_mod: "digit (n mod 10) = digit n"
  by (simp add: digit_def)

lemma lex_append_less:
  fixes a b :: "'a::linorder list"
  assumes "length a = length b"
  shows "a @ x < b @ y \<longleftrightarrow> a < b \<or> a = b \<and> x < y"
  using assms by (induction a b rule: list_induct2) auto

lemma decn_less: "n < m \<Longrightarrow> m < 10 ^ w \<Longrightarrow> decn w n < decn w m"
proof (induction w arbitrary: n m)
  case (Suc w)
  have m: "m div 10 < 10 ^ w" using Suc.prems by (simp add: less_mult_imp_div_less)
  consider "n div 10 < m div 10" | "n div 10 = m div 10" "n mod 10 < m mod 10"
    using Suc.prems(1) by (metis div_le_mono div_mult_mod_eq le_neq_implies_less less_imp_le nat_add_left_cancel_less)
  then show ?case
  proof cases
    case 1
    then show ?thesis using Suc.IH [OF 1 m] by (simp add: lex_append_less)
  next
    case 2
    then have "digit n < digit m" using digit_less [of "n mod 10" "m mod 10"] by (simp add: digit_mod)
    then show ?thesis using 2 by (simp add: lex_append_less)
  qed
qed simp

subsection \<open>Dates\<close>

text \<open>Days since 1 January of year 1, cut into 400-, 100-, 4- and 1-year cycles.\<close>

definition year_day :: "nat \<Rightarrow> nat \<times> nat" where
  "year_day d =
     (let n400 = d div 146097; d1 = d mod 146097;
          n100 = min 3 (d1 div 36524); d2 = d1 - 36524 * n100;
          n4 = d2 div 1461; d3 = d2 mod 1461;
          n1 = min 3 (d3 div 365)
      in (400 * n400 + 100 * n100 + 4 * n4 + n1 + 1, d3 - 365 * n1))"

definition is_leap :: "nat \<Rightarrow> bool" where
  "is_leap y \<longleftrightarrow> y mod 4 = 0 \<and> (y mod 100 \<noteq> 0 \<or> y mod 400 = 0)"

definition month_lengths :: "nat \<Rightarrow> nat list" where
  "month_lengths y = [31, if is_leap y then 29 else 28, 31, 30, 31, 30, 31, 31, 30, 31, 30, 31]"

fun month_day :: "nat list \<Rightarrow> nat \<Rightarrow> nat \<Rightarrow> nat \<times> nat" where
  "month_day [] m yd = (m, yd + 1)"
| "month_day (l # ls) m yd = (if yd < l then (m, yd + 1) else month_day ls (m + 1) (yd - l))"

definition civil_date :: "nat \<Rightarrow> nat \<times> nat \<times> nat" where
  "civil_date d = (let (y, yd) = year_day d; (m, md) = month_day (month_lengths y) 1 yd in (y, m, md))"

lemma cut_mono:
  fixes x y n c :: nat
  assumes "x < y"
  shows "min c (x div n) < min c (y div n) \<or>
    min c (x div n) = min c (y div n) \<and> x - n * min c (x div n) < y - n * min c (y div n)"
proof (cases "min c (x div n) = min c (y div n)")
  case True
  moreover have "n * min c (x div n) \<le> x"
    by (metis div_times_less_eq_dividend le_trans min.cobounded2 mult.commute mult_le_mono1)
  ultimately show ?thesis using assms by (metis diff_less_mono)
next
  case False
  then show ?thesis using div_le_mono [of x y n] assms by (auto simp: min_def split: if_splits)
qed

lemma div_mod_mono:
  fixes x y n :: nat
  assumes "x < y"
  shows "x div n < y div n \<or> x div n = y div n \<and> x mod n < y mod n"
  using assms by (metis div_le_mono div_mult_mod_eq le_neq_implies_less less_imp_le nat_add_left_cancel_less)

definition cycles :: "nat \<Rightarrow> nat \<times> nat \<times> nat \<times> nat \<times> nat" where
  "cycles d =
     (let d1 = d mod 146097; n100 = min 3 (d1 div 36524); d2 = d1 - 36524 * n100; d3 = d2 mod 1461; n1 = min 3 (d3 div 365)
      in (d div 146097, n100, d2 div 1461, n1, d3 - 365 * n1))"

lemma year_day_cycles:
  "cycles d = (a, p, r, s, t) \<Longrightarrow> year_day d = (400 * a + 100 * p + 4 * r + s + 1, t) \<and> p \<le> 3 \<and> r \<le> 24 \<and> s \<le> 3"
proof -
  assume c: "cycles d = (a, p, r, s, t)"
  define d1 where "d1 = d mod 146097"
  have "d1 < 146097" by (simp add: d1_def)
  have "d1 - 36524 * min 3 (d1 div 36524) \<le> 36524"
  proof (cases "d1 div 36524 \<le> 3")
    case True
    then have "d1 - 36524 * min 3 (d1 div 36524) = d1 mod 36524" by (simp only: min.absorb2 minus_mult_div_eq_mod)
    then show ?thesis using mod_less_divisor [of 36524 d1] by linarith
  next
    case False
    then show ?thesis using \<open>d1 < 146097\<close> by simp
  qed
  then have "(d1 - 36524 * min 3 (d1 div 36524)) div 1461 \<le> 36524 div 1461" by (rule div_le_mono)
  moreover have "36524 div 1461 = (24::nat)" by simp
  moreover note c [unfolded cycles_def Let_def prod.inject, folded d1_def]
  ultimately show ?thesis unfolding year_day_def Let_def d1_def [symmetric] prod.inject
    by (metis min.cobounded1)
qed

lemma cycles_mono:
  assumes "d < e" "cycles d = (a, p, r, s, t)" "cycles e = (a', p', r', s', t')"
  shows "a < a' \<or> a = a' \<and> (p < p' \<or> p = p' \<and> (r < r' \<or> r = r' \<and> (s < s' \<or> s = s' \<and> t < t')))"
  using assms(2,3) div_mod_mono [OF assms(1), of 146097]
    cut_mono [of "d mod 146097" "e mod 146097" 3 36524]
    div_mod_mono [of "d mod 146097 - 36524 * min 3 (d mod 146097 div 36524)" "e mod 146097 - 36524 * min 3 (e mod 146097 div 36524)" 1461]
    cut_mono [of "(d mod 146097 - 36524 * min 3 (d mod 146097 div 36524)) mod 1461" "(e mod 146097 - 36524 * min 3 (e mod 146097 div 36524)) mod 1461" 3 365]
  unfolding cycles_def Let_def prod.inject by metis

lemma year_day_mono:
  assumes "d < e"
  shows "fst (year_day d) < fst (year_day e) \<or> fst (year_day d) = fst (year_day e) \<and> snd (year_day d) < snd (year_day e)"
proof -
  obtain a p r s t where d: "cycles d = (a, p, r, s, t)" by (meson prod_cases5)
  obtain a' p' r' s' t' where e: "cycles e = (a', p', r', s', t')" by (meson prod_cases5)
  show ?thesis using cycles_mono [OF assms d e] year_day_cycles [OF d] year_day_cycles [OF e] by auto
qed

lemma month_day_mono:
  "x < y \<Longrightarrow> fst (month_day ls m x) < fst (month_day ls m y)
     \<or> fst (month_day ls m x) = fst (month_day ls m y) \<and> snd (month_day ls m x) < snd (month_day ls m y)"
proof (induction ls arbitrary: m x y)
  case (Cons l ls)
  have "m < fst (month_day ls (m + 1) z)" for z
  proof -
    have "n \<le> fst (month_day ks n z)" for ks n z by (induction ks n z rule: month_day.induct) auto
    from this [of "m + 1"] show ?thesis by (simp add: Suc_le_eq)
  qed
  then show ?case using Cons.IH [of "x - l" "y - l" "m + 1"] Cons.prems by auto
qed simp

lemma month_day_bounds:
  "(\<And>l. l \<in> set ls \<Longrightarrow> l \<le> 31) \<Longrightarrow> yd < sum_list ls + 31 \<Longrightarrow>
     fst (month_day ls m yd) \<le> m + length ls \<and> snd (month_day ls m yd) \<le> 31"
proof (induction ls arbitrary: m yd)
  case (Cons l ls)
  have l: "l \<le> 31" "\<And>k. k \<in> set ls \<Longrightarrow> k \<le> 31" using Cons.prems(1) by simp_all
  show ?case
  proof (cases "yd < l")
    case True
    then show ?thesis using l by simp
  next
    case False
    then show ?thesis using Cons.IH [OF l(2), of "yd - l" "m + 1"] Cons.prems(2) by simp
  qed
qed simp

lemma year_day_less: "snd (year_day d) \<le> 365"
proof -
  have "x - 365 * min 3 (x div 365) \<le> 365" if "x < 1461" for x :: nat
  proof (cases "x div 365 \<le> 3")
    case True
    then have "x - 365 * min 3 (x div 365) = x mod 365" by (simp only: min.absorb2 minus_mult_div_eq_mod)
    then show ?thesis using mod_less_divisor [of 365 x] by linarith
  qed (use that in simp)
  then show ?thesis unfolding year_day_def Let_def snd_conv by simp
qed

lemma civil_date_mono:
  assumes "d < e" "civil_date d = (y, m, k)" "civil_date e = (y', m', k')"
  shows "y < y' \<or> y = y' \<and> (m < m' \<or> m = m' \<and> k < k')"
proof -
  obtain a p where d: "year_day d = (a, p)" by (metis surj_pair)
  obtain b q where e: "year_day e = (b, q)" by (metis surj_pair)
  have f: "y = a" "(m, k) = month_day (month_lengths a) 1 p" "y' = b" "(m', k') = month_day (month_lengths b) 1 q"
    using assms(2,3) by (auto simp: civil_date_def d e split: prod.splits)
  show ?thesis
    using year_day_mono [OF assms(1)] month_day_mono [of p q "month_lengths a" 1]
    unfolding d e fst_conv snd_conv f(1,3) by (metis f(2,4) fst_conv snd_conv)
qed

lemma civil_date_bounds: "civil_date d = (y, m, k) \<Longrightarrow> m \<le> 13 \<and> k \<le> 31"
proof -
  assume c: "civil_date d = (y, m, k)"
  obtain a p where d: "year_day d = (a, p)" by (metis surj_pair)
  have f: "(m, k) = month_day (month_lengths a) 1 p" using c by (auto simp: civil_date_def d split: prod.splits)
  have "p < sum_list (month_lengths a) + 31" "\<And>l. l \<in> set (month_lengths a) \<Longrightarrow> l \<le> 31" "length (month_lengths a) = 12"
    using year_day_less [of d] by (auto simp: d month_lengths_def)
  then have "fst (m, k) \<le> 1 + 12 \<and> snd (m, k) \<le> 31" using month_day_bounds [of "month_lengths a" p 1] unfolding f by metis
  then show ?thesis by simp
qed

subsection \<open>Clock and layout\<close>

text \<open>Go's integer division truncates toward zero.\<close>

definition go_div :: "int \<Rightarrow> int \<Rightarrow> int" where
  "go_div a b = (if a < 0 then - ((- a) div b) else a div b)"

definition Unix :: "int \<Rightarrow> int" where "Unix t = t div Second"

definition UnixMilli :: "int \<Rightarrow> int" where "UnixMilli t = t div Millisecond"

text \<open>\<^verbatim>\<open>Time.Truncate\<close> rounds down to a multiple of \<open>d\<close> since the zero time, year 1.\<close>

definition zero_time :: int where "zero_time = 62135596800 * Second"

definition Truncate :: "int \<Rightarrow> duration \<Rightarrow> int" where
  "Truncate t d = (if d \<le> 0 then t else t - (t + zero_time) mod d)"

text \<open>Date and time of day in UTC.\<close>

definition date_of :: "int \<Rightarrow> nat \<times> nat \<times> nat" where
  "date_of t = civil_date (nat (t + zero_time) div 86400000000000)"

definition clock_of :: "int \<Rightarrow> nat \<times> nat \<times> nat \<times> nat" where
  "clock_of t =
     (let r = nat (t + zero_time) mod 86400000000000; r1 = r mod 3600000000000; r2 = r1 mod 60000000000
      in (r div 3600000000000, r1 div 60000000000, r2 div 1000000000, r2 mod 1000000000))"

text \<open>\<^verbatim>\<open>Format("20060102T150405.000000000Z")\<close>.\<close>

definition tsNanos :: "int \<Rightarrow> string" where
  "tsNanos t =
     (let (y, m, d) = date_of t; (hh, mm, ss, ns) = clock_of t
      in fmt0 4 y @ fmt0 2 m @ fmt0 2 d @ ''T'' @ fmt0 2 hh @ fmt0 2 mm @ fmt0 2 ss @ ''.'' @ fmt0 9 ns @ ''Z'')"

lemma clock_of_bounds:
  "clock_of t = (hh, mm, ss, ns) \<Longrightarrow> hh < 24 \<and> mm < 60 \<and> ss < 60 \<and> ns < 1000000000"
proof -
  have *: "x mod (n * k) div k < n" if "0 < n" "0 < k" for x n k :: nat
    using that by (simp add: less_mult_imp_div_less mult.commute)
  show "clock_of t = (hh, mm, ss, ns) \<Longrightarrow> ?thesis"
    using * [of 24 3600000000000] * [of 60 60000000000] * [of 60 1000000000] by (auto simp: clock_of_def Let_def)
qed

lemma clock_of_mono:
  assumes "nat (t + zero_time) mod 86400000000000 < nat (u + zero_time) mod 86400000000000"
    "clock_of t = (a, b, c, d)" "clock_of u = (a', b', c', d')"
  shows "a < a' \<or> a = a' \<and> (b < b' \<or> b = b' \<and> (c < c' \<or> c = c' \<and> d < d'))"
  using assms(2,3) div_mod_mono [OF assms(1), of 3600000000000]
    div_mod_mono [of "nat (t + zero_time) mod 86400000000000 mod 3600000000000" "nat (u + zero_time) mod 86400000000000 mod 3600000000000" 60000000000]
    div_mod_mono [of "nat (t + zero_time) mod 86400000000000 mod 3600000000000 mod 60000000000" "nat (u + zero_time) mod 86400000000000 mod 3600000000000 mod 60000000000" 1000000000]
  unfolding clock_of_def Let_def prod.inject by metis

lemma tsNanos_decn:
  assumes "date_of t = (y, m, d)" "clock_of t = (hh, mm, ss, ns)" "y \<le> 9999"
  shows "tsNanos t = decn 4 y @ decn 2 m @ decn 2 d @ ''T'' @ decn 2 hh @ decn 2 mm @ decn 2 ss @ ''.'' @ decn 9 ns @ ''Z''"
proof -
  have "m \<le> 13 \<and> d \<le> 31" using assms(1) civil_date_bounds by (auto simp: date_of_def)
  then show ?thesis using assms clock_of_bounds [OF assms(2)] by (simp add: tsNanos_def fmt0_decn)
qed

lemma tsNanos_less:
  assumes "- zero_time \<le> t" "t < u" "fst (date_of u) \<le> 9999"
  shows "tsNanos t < tsNanos u"
proof -
  obtain y m d where t: "date_of t = (y, m, d)" by (metis prod_cases3)
  obtain hh mm ss ns where tc: "clock_of t = (hh, mm, ss, ns)" by (metis prod_cases4)
  obtain y' m' d' where u: "date_of u = (y', m', d')" by (metis prod_cases3)
  obtain hh' mm' ss' ns' where uc: "clock_of u = (hh', mm', ss', ns')" by (metis prod_cases4)
  have lt: "nat (t + zero_time) < nat (u + zero_time)" using assms(1,2) by linarith
  have date: "y < y' \<or> y = y' \<and> (m < m' \<or> m = m' \<and> d < d') \<or> 
      (y, m, d) = (y', m', d') \<and> nat (t + zero_time) mod 86400000000000 < nat (u + zero_time) mod 86400000000000"
    using div_mod_mono [OF lt, of 86400000000000] civil_date_mono [of "nat (t + zero_time) div 86400000000000" "nat (u + zero_time) div 86400000000000"] t u
    unfolding date_of_def by auto
  have y: "y \<le> 9999" "y' \<le> 9999" using date assms(3) u by auto
  have b: "m' \<le> 13 \<and> d' \<le> 31" using u civil_date_bounds by (auto simp: date_of_def)
  note less = decn_less [of y y' 4] decn_less [of m m' 2] decn_less [of d d' 2] decn_less [of hh hh' 2]
    decn_less [of mm mm' 2] decn_less [of ss ss' 2] decn_less [of ns ns' 9]
  show ?thesis
    unfolding tsNanos_decn [OF t tc y(1)] tsNanos_decn [OF u uc y(2)]
    using date clock_of_mono [OF _ tc uc] clock_of_bounds [OF uc] less b y by (auto simp: lex_append_less)
qed
lemma length_tsNanos: "fst (date_of t) \<le> 9999 \<Longrightarrow> length (tsNanos t) = 26"
proof -
  obtain y m d where t: "date_of t = (y, m, d)" by (metis prod_cases3)
  obtain hh mm ss ns where tc: "clock_of t = (hh, mm, ss, ns)" by (metis prod_cases4)
  show "fst (date_of t) \<le> 9999 \<Longrightarrow> ?thesis" using tsNanos_decn [OF t tc] t by simp
qed

lemma date_of_year_mono:
  assumes "- zero_time \<le> t" "t < u"
  shows "fst (date_of t) \<le> fst (date_of u)"
proof -
  obtain y m d where t: "date_of t = (y, m, d)" by (metis prod_cases3)
  obtain y' m' d' where u: "date_of u = (y', m', d')" by (metis prod_cases3)
  have lt: "nat (t + zero_time) < nat (u + zero_time)" using assms by linarith
  show ?thesis
    using div_mod_mono [OF lt, of 86400000000000]
      civil_date_mono [of "nat (t + zero_time) div 86400000000000" "nat (u + zero_time) div 86400000000000" y m d y' m' d'] t u
    unfolding date_of_def by auto
qed

end
