(* ===== verification/Limiter.thy ===== *)
theory Limiter
  imports Valkey Go_Time
begin

text \<open>
  The abuse-control primitives of \<^verbatim>\<open>src/internal/limit\<close>: rate windows (\<^verbatim>\<open>window.go\<close>), the
  open-connection cap (\<^verbatim>\<open>concurrency.go\<close>), byte and packet accounting (\<^verbatim>\<open>limiter.go\<close>), the
  admin snapshot (\<^verbatim>\<open>tunnels.go\<close>), certificate issuance (\<^verbatim>\<open>issuance.go\<close>) and the wait state of
  a certificate authority (\<^verbatim>\<open>acme_cooldown.go\<close>). The injected clock \<^verbatim>\<open>l.now()\<close> is the argument
  \<open>now\<close> (nanoseconds since the Unix epoch), an address is the argument \<open>ip\<close> (its text), and
  random tokens are arguments. Sorted-set scores are Go's \<^verbatim>\<open>float64\<close> of a millisecond
  timestamp; those are integers below \<open>2 ^ 53\<close>, so scores are integers here.
\<close>

subsection \<open>Rate windows\<close>

definition rlKey :: "string \<Rightarrow> string \<Rightarrow> int \<Rightarrow> vkey" where
  "rlKey scope ip winStart = ''rl:'' @ scope @ '':'' @ ip @ '':'' @ itoa (Unix winStart)"

definition Allow ::
  "'s client \<Rightarrow> string \<Rightarrow> string \<Rightarrow> int \<Rightarrow> duration \<Rightarrow> int \<Rightarrow> 's \<Rightarrow> (verr + bool \<times> duration) \<times> 's" where
  "Allow ex scope ip limit window now s =
     (let winStart = Truncate now window; key = rlKey scope ip winStart in
      case ex [INCR key, EXPIRE_NX key (window * 2)] s of
        (Inl e, s') \<Rightarrow> (Inl e, s')
      | (Inr (RInt c # _), s') \<Rightarrow>
          (Inr (if c > limit then (False, winStart + window - now) else (True, 0)), s')
      | (Inr _, s') \<Rightarrow> (Inl (VErr ''reply''), s'))"

definition Over ::
  "'s client \<Rightarrow> string \<Rightarrow> string \<Rightarrow> int \<Rightarrow> duration \<Rightarrow> int \<Rightarrow> 's \<Rightarrow> (verr + bool \<times> duration) \<times> 's" where
  "Over ex scope ip limit window now s =
     (let winStart = Truncate now window; key = rlKey scope ip winStart in
      case do1 ex (GET key) s of
        (Inl e, s') \<Rightarrow> (Inl e, s')
      | (Inr RNil, s') \<Rightarrow> (Inr (False, 0), s')
      | (Inr (RStr v), s') \<Rightarrow>
          (case parse_int v of
             None \<Rightarrow> (Inl (VErr ''parse''), s')
           | Some cnt \<Rightarrow>
               (Inr (if cnt \<ge> limit then (True, winStart + window - now) else (False, 0)), s'))
      | (Inr _, s') \<Rightarrow> (Inl (VErr ''reply''), s'))"

subsection \<open>Open-connection slots\<close>

record Limiter =
  bwRate :: int
  pktCap :: int
  dayCap :: int
  weekCap :: int
  streamTTL :: duration

definition concKey :: "string \<Rightarrow> vkey" where "concKey name = ''conc:'' @ name"

definition AcquireStream ::
  "Limiter \<Rightarrow> 's client \<Rightarrow> string \<Rightarrow> string \<Rightarrow> int \<Rightarrow> int \<Rightarrow> 's \<Rightarrow> (verr + bool) \<times> 's" where
  "AcquireStream l ex name member maxN now s =
     (let key = concKey name in
      case ex [ZREMRANGE_UPTO key (UnixMilli now),
               ZADD key member (UnixMilli (now + streamTTL l)),
               ZCARD key,
               PEXPIRE key (streamTTL l)] s of
        (Inl e, s1) \<Rightarrow> (Inl e, s1)
      | (Inr [_, _, RInt n, _], s1) \<Rightarrow>
          if n \<le> maxN then (Inr True, s1)
          else (Inr False, snd (do1 ex (ZREM key member) s1))
      | (Inr _, s1) \<Rightarrow> (Inl (VErr ''reply''), s1))"

definition ReleaseStream :: "'s client \<Rightarrow> string \<Rightarrow> string \<Rightarrow> 's \<Rightarrow> (verr + unit) \<times> 's" where
  "ReleaseStream ex name member s =
     (case do1 ex (ZREM (concKey name) member) s of
        (Inl e, s') \<Rightarrow> (Inl e, s')
      | (Inr _, s') \<Rightarrow> (Inr (), s'))"

subsection \<open>Byte and packet windows\<close>

datatype ChargeAction = ChargeProceed | ChargeWait | ChargeKill

definition bwWindowTTL :: duration where "bwWindowTTL = 3 * Second"
definition trafDayTTL :: duration where "trafDayTTL = 25 * Hour"
definition trafWeekTTL :: duration where "trafWeekTTL = 7 * 24 * Hour + Hour"
definition maxPacingWait :: duration where "maxPacingWait = 5 * Second"

definition bwKey :: "string \<Rightarrow> string \<Rightarrow> int \<Rightarrow> vkey" where
  "bwKey name dir sec = ''bw:'' @ (name @ '':'' @ dir) @ '':'' @ itoa sec"

definition pktKey :: "string \<Rightarrow> string \<Rightarrow> int \<Rightarrow> vkey" where
  "pktKey name dir sec = ''pkt:'' @ (name @ '':'' @ dir) @ '':'' @ itoa sec"

definition dayKey :: "string \<Rightarrow> string \<Rightarrow> int \<Rightarrow> vkey" where
  "dayKey name dir sec = ''traf:'' @ (name @ '':'' @ dir) @ '':day:'' @ itoa (go_div sec 86400)"

definition weekKey :: "string \<Rightarrow> string \<Rightarrow> int \<Rightarrow> vkey" where
  "weekKey name dir sec = ''traf:'' @ (name @ '':'' @ dir) @ '':week:'' @ itoa (go_div (go_div sec 86400) 7)"

definition chargeKeys :: "string \<Rightarrow> string \<Rightarrow> int \<Rightarrow> vkey \<times> vkey \<times> vkey \<times> vkey" where
  "chargeKeys name dir sec =
     (bwKey name dir sec, pktKey name dir sec, dayKey name dir sec, weekKey name dir sec)"

definition charge_cmds :: "Limiter \<Rightarrow> string \<Rightarrow> string \<Rightarrow> string \<Rightarrow> int \<Rightarrow> int \<Rightarrow> cmd list" where
  "charge_cmds l name member dir nr now =
     (let (bk, pk, dk, wk) = chargeKeys name dir (Unix now) in
      [INCRBY bk nr, INCR pk, INCRBY dk nr, INCRBY wk nr,
       EXPIRE_NX bk bwWindowTTL, EXPIRE_NX pk bwWindowTTL,
       EXPIRE_NX dk trafDayTTL, EXPIRE_NX wk trafWeekTTL,
       ZADDXX (concKey name) member (UnixMilli (now + streamTTL l)),
       PEXPIRE (concKey name) (streamTTL l)])"

definition secReset :: "int \<Rightarrow> duration" where
  "secReset now = (Unix now + 1) * Second - now"

definition dayReset :: "int \<Rightarrow> duration" where
  "dayReset now = (go_div (Unix now) 86400 + 1) * 86400 * Second - now"

definition weekReset :: "int \<Rightarrow> duration" where
  "weekReset now = (go_div (go_div (Unix now) 86400) 7 + 1) * 7 * 86400 * Second - now"

text \<open>The decision from the four counter values after the increments.\<close>

definition charge_decide ::
  "Limiter \<Rightarrow> int \<Rightarrow> int \<Rightarrow> int \<Rightarrow> int \<Rightarrow> int \<Rightarrow> ChargeAction \<times> duration \<times> string" where
  "charge_decide l now b p d w =
     (let overSec = b > bwRate l \<or> (pktCap l > 0 \<and> p > pktCap l);
          dayOver = d > dayCap l; weekOver = w > weekCap l in
      if weekOver \<and> weekReset now > maxPacingWait then (ChargeKill, 0, ''week'')
      else if dayOver \<and> dayReset now > maxPacingWait then (ChargeKill, 0, ''day'')
      else
        let wait = 0 :: int;
            wait = (if overSec \<and> secReset now > wait then secReset now else wait);
            wait = (if dayOver \<and> dayReset now > wait then dayReset now else wait);
            wait = (if weekOver \<and> weekReset now > wait then weekReset now else wait) in
        if wait > 0 then (ChargeWait, wait, []) else (ChargeProceed, 0, []))"

definition Charge ::
  "Limiter \<Rightarrow> 's client \<Rightarrow> string \<Rightarrow> string \<Rightarrow> string \<Rightarrow> int \<Rightarrow> int \<Rightarrow> 's
   \<Rightarrow> ((ChargeAction \<times> duration \<times> string) \<times> verr option) \<times> 's" where
  "Charge l ex name member dir nr now s =
     (case ex (charge_cmds l name member dir nr now) s of
        (Inl e, s') \<Rightarrow> (((ChargeProceed, 0, []), Some e), s')
      | (Inr (RInt b # RInt p # RInt d # RInt w # _), s') \<Rightarrow> ((charge_decide l now b p d w, None), s')
      | (Inr _, s') \<Rightarrow> (((ChargeProceed, 0, []), Some (VErr ''reply'')), s'))"

definition atoiCap :: "string option \<Rightarrow> int" where
  "atoiCap v = (case v of None \<Rightarrow> 0 | Some s \<Rightarrow> (case parse_int s of None \<Rightarrow> 0 | Some n \<Rightarrow> n))"

definition TrafficExhausted ::
  "Limiter \<Rightarrow> 's client \<Rightarrow> string \<Rightarrow> int \<Rightarrow> 's \<Rightarrow> (verr + bool \<times> bool) \<times> 's" where
  "TrafficExhausted l ex name now s =
     (let sec = Unix now in
      case do1 ex (MGET [dayKey name ''in'' sec, dayKey name ''out'' sec,
                         weekKey name ''in'' sec, weekKey name ''out'' sec]) s of
        (Inl e, s') \<Rightarrow> (Inl e, s')
      | (Inr (RVals [v0, v1, v2, v3]), s') \<Rightarrow>
          (Inr (atoiCap v0 \<ge> dayCap l \<or> atoiCap v1 \<ge> dayCap l,
                atoiCap v2 \<ge> weekCap l \<or> atoiCap v3 \<ge> weekCap l), s')
      | (Inr _, s') \<Rightarrow> (Inl (VErr ''reply''), s'))"

subsection \<open>Admin snapshot\<close>

record TunnelStat =
  Conc :: int
  BwIn :: int
  BwOut :: int
  DayIn :: int
  DayOut :: int
  WeekIn :: int
  WeekOut :: int

definition window_keys :: "int \<Rightarrow> string \<Rightarrow> vkey list" where
  "window_keys sec n =
     [bwKey n ''in'' (sec - 1), bwKey n ''out'' (sec - 1),
      dayKey n ''in'' sec, dayKey n ''out'' sec, weekKey n ''in'' sec, weekKey n ''out'' sec]"

text \<open>The loop that reads six values per name, at index \<^verbatim>\<open>i * perName\<close>.\<close>

fun stats_of :: "string list \<Rightarrow> reply list \<Rightarrow> string option list \<Rightarrow> (string \<rightharpoonup> TunnelStat) \<Rightarrow> (string \<rightharpoonup> TunnelStat)" where
  "stats_of (n # ns) (RInt c # cs) (v0 # v1 # v2 # v3 # v4 # v5 # vs) out =
     stats_of ns cs vs
       (out(n \<mapsto> \<lparr>Conc = c, BwIn = atoiCap v0, BwOut = atoiCap v1, DayIn = atoiCap v2,
                  DayOut = atoiCap v3, WeekIn = atoiCap v4, WeekOut = atoiCap v5\<rparr>))"
| "stats_of _ _ _ out = out"

definition TunnelWindows ::
  "'s client \<Rightarrow> string list \<Rightarrow> int \<Rightarrow> 's \<Rightarrow> (verr + (string \<rightharpoonup> TunnelStat)) \<times> 's" where
  "TunnelWindows ex names now s =
     (if names = [] then (Inr Map.empty, s)
      else case ex (map (\<lambda>n. ZCOUNT_FROM (concKey n) (UnixMilli now)) names
                    @ [MGET (concat (map (window_keys (Unix now)) names))]) s of
        (Inl e, s') \<Rightarrow> (Inl e, s')
      | (Inr rs, s') \<Rightarrow>
          (case last rs of
             RVals vals \<Rightarrow> (Inr (stats_of names (butlast rs) vals Map.empty), s')
           | _ \<Rightarrow> (Inl (VErr ''reply''), s')))"

subsection \<open>Certificate issuance\<close>

definition issLockTTL :: duration where "issLockTTL = 15 * Second"
definition issWindowTTL :: duration where "issWindowTTL = 7 * 24 * Hour"

definition issuanceKey :: "string \<Rightarrow> vkey" where "issuanceKey name = ''iss:'' @ name"
definition issLockKey :: "string \<Rightarrow> vkey" where "issLockKey name = ''iss_lock:'' @ name"

datatype issue_err = IssValkey verr | ErrIssuanceInFlight

definition releaseIssLock :: "'s client \<Rightarrow> string \<Rightarrow> string \<Rightarrow> 's \<Rightarrow> (verr + unit) \<times> 's" where
  "releaseIssLock ex name token s =
     (case do1 ex (GET (issLockKey name)) s of
        (Inl e, s1) \<Rightarrow> (Inl e, s1)
      | (Inr RNil, s1) \<Rightarrow> (Inr (), s1)
      | (Inr (RStr v), s1) \<Rightarrow>
          if v \<noteq> token then (Inr (), s1)
          else (case do1 ex (DEL (issLockKey name)) s1 of
                  (Inl e, s2) \<Rightarrow> (Inl e, s2)
                | (Inr _, s2) \<Rightarrow> (Inr (), s2))
      | (Inr _, s1) \<Rightarrow> (Inl (VErr ''reply''), s1))"

text \<open>A \<^verbatim>\<open>PTTL\<close> reply as a duration: the client passes \<open>-1\<close> and \<open>-2\<close> through as they are.\<close>

definition pttl_duration :: "int \<Rightarrow> duration" where
  "pttl_duration n = (if n < 0 then n else n * Millisecond)"

definition issuanceWindowLeft :: "'s client \<Rightarrow> string \<Rightarrow> 's \<Rightarrow> (verr + duration) \<times> 's" where
  "issuanceWindowLeft ex name s =
     (case do1 ex (PTTL (issuanceKey name)) s of
        (Inl e, s1) \<Rightarrow> (Inl e, s1)
      | (Inr (RInt n), s1) \<Rightarrow>
          (let ttl = pttl_duration n in
           if ttl > 0 then (Inr (ttl + Second - 1 - (ttl + Second - 1) mod Second), s1)
           else if ttl = - 1 then
             (case do1 ex (EXPIRE_NX (issuanceKey name) issWindowTTL) s1 of
                (Inl e, s2) \<Rightarrow> (Inl e, s2)
              | (Inr _, s2) \<Rightarrow> (Inr issWindowTTL, s2))
           else (Inr Second, s1))
      | (Inr _, s1) \<Rightarrow> (Inl (VErr ''reply''), s1))"

text \<open>The result of \<^verbatim>\<open>IssuanceBegin\<close>: refused with the time to wait, or granted with the token.\<close>

datatype begin_result = Refused duration | Granted string

definition IssuanceBegin ::
  "'s client \<Rightarrow> string \<Rightarrow> string \<Rightarrow> int \<Rightarrow> 's \<Rightarrow> (issue_err + begin_result) \<times> 's" where
  "IssuanceBegin ex token name maxN s =
     (case do1 ex (SETNX (issLockKey name) token issLockTTL) s of
        (Inl e, s1) \<Rightarrow> (Inl (IssValkey e), s1)
      | (Inr (RBool False), s1) \<Rightarrow> (Inl ErrIssuanceInFlight, s1)
      | (Inr (RBool True), s1) \<Rightarrow>
          (case (case do1 ex (GET (issuanceKey name)) s1 of
                   (Inl e, s2) \<Rightarrow> (Inl e, s2)
                 | (Inr RNil, s2) \<Rightarrow> (Inr 0, s2)
                 | (Inr (RStr v), s2) \<Rightarrow>
                     (case parse_int v of None \<Rightarrow> (Inl (VErr ''parse''), s2) | Some n \<Rightarrow> (Inr n, s2))
                 | (Inr _, s2) \<Rightarrow> (Inl (VErr ''reply''), s2)) of
             (Inl e, s2) \<Rightarrow> (Inl (IssValkey e), snd (releaseIssLock ex name token s2))
           | (Inr n, s2) \<Rightarrow>
               if n \<ge> maxN then
                 (case issuanceWindowLeft ex name (snd (releaseIssLock ex name token s2)) of
                    (Inl e, s4) \<Rightarrow> (Inl (IssValkey e), s4)
                  | (Inr left, s4) \<Rightarrow> (Inr (Refused left), s4))
               else (Inr (Granted token), s2))
      | (Inr _, s1) \<Rightarrow> (Inl (IssValkey (VErr ''reply'')), s1))"

definition refreshIssLock :: "'s client \<Rightarrow> string \<Rightarrow> string \<Rightarrow> 's \<Rightarrow> 's" where
  "refreshIssLock ex name orderID s =
     (case do1 ex (GET (issLockKey name)) s of
        (Inr (RStr v), s1) \<Rightarrow>
          if v = orderID then snd (do1 ex (PEXPIRE (issLockKey name) issLockTTL) s1) else s1
      | (_, s1) \<Rightarrow> s1)"

text \<open>The loop refreshes once per tick until its context is done, after \<open>beats\<close> ticks.\<close>

definition IssuanceHeartbeatLoop :: "'s client \<Rightarrow> string \<Rightarrow> string \<Rightarrow> nat \<Rightarrow> 's \<Rightarrow> 's" where
  "IssuanceHeartbeatLoop ex name orderID beats s = (refreshIssLock ex name orderID ^^ beats) s"

definition IssuanceEnd :: "'s client \<Rightarrow> string \<Rightarrow> string \<Rightarrow> 's \<Rightarrow> (verr + unit) \<times> 's" where
  "IssuanceEnd ex name orderID s = releaseIssLock ex name orderID s"

definition IssuanceRecord :: "'s client \<Rightarrow> string \<Rightarrow> 's \<Rightarrow> (verr + unit) \<times> 's" where
  "IssuanceRecord ex name s =
     (case ex [INCR (issuanceKey name), EXPIRE_NX (issuanceKey name) issWindowTTL] s of
        (Inl e, s') \<Rightarrow> (Inl e, s')
      | (Inr _, s') \<Rightarrow> (Inr (), s'))"

subsection \<open>Wait state of a certificate authority\<close>

definition cooldownKey :: "string \<Rightarrow> vkey" where "cooldownKey ca = ''acme-cooldown:'' @ ca"
definition failuresKey :: "string \<Rightarrow> vkey" where "failuresKey ca = ''acme-fail:'' @ ca"
definition limitedKey :: "string \<Rightarrow> vkey" where "limitedKey ca = ''acme-429:'' @ ca"

text \<open>
  \<^verbatim>\<open>max(time.Duration(math.Ceil(d.Seconds()))*time.Second, time.Second)\<close>, the ceiling taken
  exactly (\<^verbatim>\<open>float64\<close> seconds represent it exactly for waits up to 48 days).
\<close>

definition cooldown_secs :: "duration \<Rightarrow> duration" where
  "cooldown_secs d = max (((d + Second - 1) div Second) * Second) Second"

definition SetCACooldown :: "'s client \<Rightarrow> string \<Rightarrow> duration \<Rightarrow> 's \<Rightarrow> (verr + unit) \<times> 's" where
  "SetCACooldown ex ca d s =
     (let d = cooldown_secs d in
      case ex [EXPIRE_GT (cooldownKey ca) d, SETNX (cooldownKey ca) ''1'' d] s of
        (Inl e, s') \<Rightarrow> (Inl e, s')
      | (Inr _, s') \<Rightarrow> (Inr (), s'))"

definition CACooldown :: "'s client \<Rightarrow> string \<Rightarrow> 's \<Rightarrow> (verr + duration) \<times> 's" where
  "CACooldown ex ca s =
     (case do1 ex (PTTL (cooldownKey ca)) s of
        (Inl e, s') \<Rightarrow> (Inl e, s')
      | (Inr (RInt n), s') \<Rightarrow> (Inr (if pttl_duration n < 0 then 0 else pttl_duration n), s')
      | (Inr _, s') \<Rightarrow> (Inl (VErr ''reply''), s'))"

definition MarkCALimited :: "'s client \<Rightarrow> string \<Rightarrow> string \<Rightarrow> duration \<Rightarrow> 's \<Rightarrow> (verr + unit) \<times> 's" where
  "MarkCALimited ex text ca ttl s =
     (if ttl \<le> 0 then (Inl (VErr ''ttl''), s)
      else case do1 ex (SET (limitedKey ca) text ttl) s of
        (Inl e, s') \<Rightarrow> (Inl e, s')
      | (Inr _, s') \<Rightarrow> (Inr (), s'))"

definition CAWaitState :: "'s client \<Rightarrow> string \<Rightarrow> 's \<Rightarrow> (verr + duration \<times> string) \<times> 's" where
  "CAWaitState ex ca s =
     (case ex [PTTL (cooldownKey ca), GET (limitedKey ca)] s of
        (Inl e, s') \<Rightarrow> (Inl e, s')
      | (Inr [RInt n, RNil], s') \<Rightarrow> (Inr (max (pttl_duration n) 0, []), s')
      | (Inr [RInt n, RStr m], s') \<Rightarrow> (Inr (max (pttl_duration n) 0, m), s')
      | (Inr _, s') \<Rightarrow> (Inl (VErr ''reply''), s'))"

definition BumpCAFailures :: "'s client \<Rightarrow> string \<Rightarrow> duration \<Rightarrow> 's \<Rightarrow> (verr + int) \<times> 's" where
  "BumpCAFailures ex ca window s =
     (case ex [INCR (failuresKey ca), PEXPIRE (failuresKey ca) window] s of
        (Inl e, s') \<Rightarrow> (Inl e, s')
      | (Inr (RInt c # _), s') \<Rightarrow> (Inr c, s')
      | (Inr _, s') \<Rightarrow> (Inl (VErr ''reply''), s'))"

definition ResetCAFailures :: "'s client \<Rightarrow> string \<Rightarrow> 's \<Rightarrow> (verr + unit) \<times> 's" where
  "ResetCAFailures ex ca s =
     (case do1 ex (DEL (failuresKey ca)) s of
        (Inl e, s') \<Rightarrow> (Inl e, s')
      | (Inr _, s') \<Rightarrow> (Inr (), s'))"

end
