(* ===== verification/Limiter_Props.thy ===== *)
theory Limiter_Props
  imports Limiter
begin

text \<open>
  What the limiter promises: the open-connection cap holds however replicas interleave, a rate
  window admits at most its limit, the pacing decision never waits longer than five seconds and
  what it kills is refused at admission too, issuance is exclusive per name, and a wait period of
  a certificate authority is never shortened.
\<close>

subsection \<open>The open-connection cap\<close>

definition has_slot :: "string \<Rightarrow> int \<Rightarrow> string \<Rightarrow> vstate \<Rightarrow> bool" where
  "has_slot name lo m v \<longleftrightarrow> (\<exists>sc. (m, sc) \<in> set (zset_of v (concKey name)) \<and> lo < sc)"

text \<open>Other replicas add and remove slots of their own, but none of \<open>M\<close>, and none of \<open>M\<close> expires.\<close>

definition slot_rely :: "string \<Rightarrow> int \<Rightarrow> string set \<Rightarrow> vstate \<Rightarrow> vstate \<Rightarrow> bool" where
  "slot_rely name lo M v v' \<longleftrightarrow>
     clock v \<le> clock v' \<and> (\<forall>m \<in> M. has_slot name lo m v \<longrightarrow> has_slot name lo m v')"

lemma zset_of_put_zset: "zset_of (put_zset v k z) k = z"
  by (simp add: zset_of_def put_zset_def live_put_expiry live_del)

lemma has_slot_put_zset:
  "has_slot name lo m (put_zset v (concKey name) z) \<longleftrightarrow> (\<exists>sc. (m, sc) \<in> set z \<and> lo < sc)"
  by (simp add: has_slot_def zset_of_put_zset)

lemma has_slot_ZREMRANGE:
  assumes "cmd_sem (ZREMRANGE_UPTO (concKey name) lo) v = (r, v')"
  shows "has_slot name lo m v' \<longleftrightarrow> has_slot name lo m v"
  using assms by (auto simp: has_slot_put_zset split: if_splits) (auto simp: has_slot_def)

lemma has_slot_ZADD:
  assumes "cmd_sem (ZADD (concKey name) member sc) v = (r, v')" "\<not> is_err r" "lo < sc"
  shows "has_slot name lo m v' \<longleftrightarrow> m = member \<or> has_slot name lo m v"
  using assms by (auto simp: has_slot_put_zset zput_def split: if_splits) (auto simp: has_slot_def)

lemma card_le_zcard:
  assumes "\<forall>m \<in> M. has_slot name lo m v"
  shows "card M \<le> zcard (zset_of v (concKey name))"
  unfolding zcard_def
  by (rule card_mono) (use assms in \<open>force simp: has_slot_def\<close>)+

lemma zcard_added:
  assumes "z = filter (\<lambda>p. lo < snd p) (zset_of v (concKey name))"
  shows "zcard (zput member sc z) = card (insert member {m. has_slot name lo m v})"
proof -
  have "fst ` set (zput member sc z) = insert member {m. has_slot name lo m v}"
    using assms by (force simp: zput_def has_slot_def)
  then show ?thesis by (simp add: zcard_def)
qed

lemma zset_of_cong: "live v' k = live v k \<Longrightarrow> zset_of v' k = zset_of v k"
  by (simp add: zset_of_def)

text \<open>The count that the pipeline of \<^verbatim>\<open>AcquireStream\<close> returns.\<close>

lemma AcquireStream_count:
  assumes "runs R [ZREMRANGE_UPTO k lo, ZADD k member sc, ZCARD k, PEXPIRE k d] v [r1, r2, RInt n, r4] v'"
    and "\<not> is_err r1" "\<not> is_err r2" "k = concKey name" "lo < sc"
    and rely: "\<forall>v v'. R v v' \<longrightarrow> slot_rely name lo (insert member H) v v'"
  shows "\<forall>m \<in> H. has_slot name lo m v \<Longrightarrow> int (card (insert member H)) \<le> n"
    "\<forall>v v'. R v v' \<longrightarrow> steady {k} v v' \<Longrightarrow> n = int (card (insert member {m. has_slot name lo m v}))"
proof -
  from assms(1) obtain v1 v2 v3 v4 v5 v6 where
    v1: "R v v1" "cmd_sem (ZREMRANGE_UPTO k lo) v1 = (r1, v2)"
    and v3: "R v2 v3" "cmd_sem (ZADD k member sc) v3 = (r2, v4)"
    and v5: "R v4 v5" "cmd_sem (ZCARD k) v5 = (RInt n, v6)"
    by (auto simp: runs_Cons_iff runs_Nil_iff simp del: cmd_sem.simps)
  have n: "n = int (zcard (zset_of v5 k))" using v5(2) by (auto split: if_splits)
  have add: "has_slot name lo m v4 \<longleftrightarrow> m = member \<or> has_slot name lo m v3" for m
    using has_slot_ZADD [of name member sc v3 r2 v4 lo m] v3(2) assms(3,4,5) by simp
  have rem: "has_slot name lo m v2 \<longleftrightarrow> has_slot name lo m v1" for m
    using has_slot_ZREMRANGE [of name lo v1 r1 v2 m] v1(2) assms(4) by simp
  show "int (card (insert member H)) \<le> n" if "\<forall>m \<in> H. has_slot name lo m v"
  proof -
    have "\<forall>m \<in> insert member H. has_slot name lo m v5"
      using that add rem rely v1(1) v3(1) v5(1) by (auto simp: slot_rely_def)
    from card_le_zcard [OF this] show ?thesis using n assms(4) by simp
  qed
  show "n = int (card (insert member {m. has_slot name lo m v}))" if "\<forall>v v'. R v v' \<longrightarrow> steady {k} v v'"
  proof -
    have z: "zset_of v1 k = zset_of v k" "zset_of v3 k = zset_of v2 k" "zset_of v5 k = zset_of v4 k"
      using that v1(1) v3(1) v5(1) by (auto simp: steady_def intro!: zset_of_cong)
    moreover have "zset_of v2 k = filter (\<lambda>p. lo < snd p) (zset_of v1 k)"
      "zset_of v4 k = zput member sc (zset_of v3 k)"
      using v1(2) v3(2) assms(2,3) by (auto simp: zset_of_put_zset split: if_splits)
    ultimately show ?thesis using n zcard_added [OF refl, of member sc lo v name] assms(4) by simp
  qed
qed

lemma ZREM_gone:
  assumes "valkey ex view R" "do1 ex (ZREM k m) s = (r, s')"
  shows "(\<forall>sc. (m, sc) \<notin> set (zset_of (view s') k)) \<or> (\<exists>e. r = Inl e)"
proof (cases r)
  case (Inr x)
  then obtain v where "cmd_sem (ZREM k m) v = (x, view s')" "\<not> is_err x"
    using valkey.do1_ok [OF assms(1)] assms(2) by metis
  then have "view s' = put_zset v k (filter (\<lambda>p. fst p \<noteq> m) (zset_of v k))" by (auto split: if_splits)
  then show ?thesis by (simp add: zset_of_put_zset)
qed simp

text \<open>
  C5. The open-connection cap is a cap, whatever the interleaving: if \<open>H\<close> are the members that hold
  an unexpired slot when the call starts, and the other replicas leave those alone, then a
  granted slot means that \<open>H\<close> together with the new member has at most \<open>maxN\<close> elements. A
  refused call leaves no slot of its own behind (unless Valkey fails on its undo request), and
  when no other replica touches the set meanwhile it refuses only if the unexpired members with
  the new one really are more than \<open>maxN\<close>.
\<close>

theorem AcquireStream_cap:
  assumes "valkey ex view R"
    and "\<And>v v'. R v v' \<Longrightarrow> slot_rely name (UnixMilli now) (insert member H) v v'"
    and "\<forall>m \<in> H. has_slot name (UnixMilli now) m (view s)"
    and "Millisecond \<le> streamTTL l"
    and "AcquireStream l ex name member maxN now s = (Inr ok, s')"
  shows "if ok then int (card (insert member H)) \<le> maxN
    else ((\<forall>sc. (member, sc) \<notin> set (zset_of (view s') (concKey name)))
          \<or> (\<exists>s1 e. do1 ex (ZREM (concKey name) member) s1 = (Inl e, s')))
      \<and> ((\<forall>v v'. R v v' \<longrightarrow> steady {concKey name} v v')
          \<longrightarrow> maxN < int (card (insert member {m. has_slot name (UnixMilli now) m (view s)})))"
proof -
  let ?lo = "UnixMilli now" and ?k = "concKey name"
  obtain r1 r2 n r4 s1 where e: "ex [ZREMRANGE_UPTO ?k ?lo, ZADD ?k member (UnixMilli (now + streamTTL l)),
      ZCARD ?k, PEXPIRE ?k (streamTTL l)] s = (Inr [r1, r2, RInt n, r4], s1)"
    and ok: "ok \<longleftrightarrow> n \<le> maxN" and s': "s' = (if ok then s1 else snd (do1 ex (ZREM ?k member) s1))"
    using assms(5)
    by (auto simp: AcquireStream_def Let_def split: prod.splits sum.splits list.splits reply.splits if_splits)
  have "?lo + 1 \<le> UnixMilli (now + streamTTL l)"
    using assms(4) zdiv_mono1 [of "now + Millisecond" "now + streamTTL l" Millisecond] by (simp add: UnixMilli_def)
  then have lt: "?lo < UnixMilli (now + streamTTL l)" by simp
  from valkey.exec_ok [OF assms(1) e]
  have run: "runs R [ZREMRANGE_UPTO ?k ?lo, ZADD ?k member (UnixMilli (now + streamTTL l)), ZCARD ?k,
      PEXPIRE ?k (streamTTL l)] (view s) [r1, r2, RInt n, r4] (view s1)" "\<not> is_err r1" "\<not> is_err r2" by simp_all
  have "\<forall>v v'. R v v' \<longrightarrow> slot_rely name ?lo (insert member H) v v'" using assms(2) by blast
  note count = AcquireStream_count [OF run refl lt this]
  show ?thesis
  proof (cases ok)
    case True
    then show ?thesis using count(1) [OF assms(3)] ok by simp
  next
    case False
    then obtain r where d: "do1 ex (ZREM ?k member) s1 = (r, s')" using s' by (metis prod.collapse)
    have "maxN < n" using False ok by simp
    then show ?thesis using False count(2) ZREM_gone [OF assms(1) d] d by (simp del: split_paired_Ex) metis
  qed
qed

definition demo_limiter :: Limiter where
  "demo_limiter = \<lparr>bwRate = 1000, pktCap = 0, dayCap = 5000, weekCap = 20000, streamTTL = 60 * Second\<rparr>"

definition demo_slots :: vstate where
  "demo_slots = \<lparr>clock = 50, keyspace = [concKey ''a'' \<mapsto> (VZSet [(''m1'', 70)], Some 90)]\<rparr>"

lemma demo_acquire:
  "AcquireStream demo_limiter mem_exec ''a'' ''m2'' 2 (50 * Millisecond) demo_slots
   = (Inr True, \<lparr>clock = 50, keyspace = [concKey ''a'' \<mapsto> (VZSet [(''m2'', 60050), (''m1'', 70)], Some 60050)]\<rparr>)"
  by (simp add: AcquireStream_def mem_exec_def net_exec_def demo_slots_def demo_limiter_def UnixMilli_def
      is_zset_def zset_of_def put_zset_def zput_def zcard_def live_def put_def del_def expiry_of_def Let_def
      expire_at_def to_ms_def)

lemma demo_refused:
  "AcquireStream demo_limiter mem_exec ''a'' ''m2'' 1 (50 * Millisecond) demo_slots
   = (Inr False, \<lparr>clock = 50, keyspace = [concKey ''a'' \<mapsto> (VZSet [(''m1'', 70)], Some 60050)]\<rparr>)"
  by (simp add: AcquireStream_def do1_def mem_exec_def net_exec_def demo_slots_def demo_limiter_def UnixMilli_def
      is_zset_def zset_of_def put_zset_def zput_def zcard_def live_def put_def del_def expiry_of_def Let_def
      expire_at_def to_ms_def)

theorem AcquireStream_cap_witness:
  "fst (AcquireStream demo_limiter mem_exec ''a'' ''m2'' 2 (50 * Millisecond) demo_slots) = Inr True
   \<and> int (card (insert ''m2'' {''m1''})) \<le> (2 :: int)
   \<and> fst (AcquireStream demo_limiter mem_exec ''a'' ''m2'' 1 (50 * Millisecond) demo_slots) = Inr False
   \<and> (1 :: int) < int (card (insert ''m2'' {m. has_slot ''a'' (UnixMilli (50 * Millisecond)) m (id demo_slots)}))"
proof -
  let ?lo = "UnixMilli (50 * Millisecond)"
  have rely: "slot_rely ''a'' ?lo (insert ''m2'' {''m1''}) v v'" if "v' = v" for v v' using that by (simp add: slot_rely_def)
  have held: "\<forall>m \<in> {''m1''}. has_slot ''a'' ?lo m (id demo_slots)"
    by (simp add: has_slot_def demo_slots_def zset_of_def live_def UnixMilli_def)
  have ttl: "Millisecond \<le> streamTTL demo_limiter" by (simp add: demo_limiter_def)
  have still: "valkey mem_exec id (\<lambda>v v'. v' = v)"
    by (rule valkey_mono [OF mem.valkey_axioms]) simp
  have st: "\<forall>v v'. v' = v \<longrightarrow> steady {concKey ''a''} v v'" by (simp add: steady_def)
  note granted = AcquireStream_cap [OF still rely held ttl demo_acquire]
  note refused = AcquireStream_cap [OF still rely held ttl demo_refused]
  show ?thesis using granted refused st unfolding demo_acquire demo_refused by simp
qed

subsection \<open>Rate windows\<close>

text \<open>A sequence of calls for one scope and address, at the given times.\<close>

fun allow_all ::
  "'s client \<Rightarrow> string \<Rightarrow> string \<Rightarrow> int \<Rightarrow> duration \<Rightarrow> int list \<Rightarrow> 's \<Rightarrow> (verr + bool \<times> duration) list \<times> 's" where
  "allow_all ex scope ip limit window [] s = ([], s)"
| "allow_all ex scope ip limit window (t # ts) s =
     (let (r, s1) = Allow ex scope ip limit window t s;
          (rs, s2) = allow_all ex scope ip limit window ts s1
      in (r # rs, s2))"

definition admitted :: "verr + bool \<times> duration \<Rightarrow> bool" where
  "admitted r \<longleftrightarrow> (\<exists>d. r = Inr (True, d))"

abbreviation allow_key :: "string \<Rightarrow> string \<Rightarrow> duration \<Rightarrow> int \<Rightarrow> vkey" where
  "allow_key scope ip window now \<equiv> rlKey scope ip (Truncate now window)"

lemma Allow_result:
  assumes "valkey ex view R" "Allow ex scope ip limit window now s = (Inr (b, d), s')"
  obtains v1 v2 v3 where "R (view s) v1" "cmd_sem (INCR (allow_key scope ip window now)) v1
      = (RInt (counter v1 (allow_key scope ip window now) + 1), v2)"
    "b \<longleftrightarrow> counter v1 (allow_key scope ip window now) + 1 \<le> limit" "R v2 v3"
    "view s' = snd (cmd_sem (EXPIRE_NX (allow_key scope ip window now) (window * 2)) v3)"
    "d = (if b then 0 else Truncate now window + window - now)"
proof -
  let ?k = "allow_key scope ip window now"
  obtain c rs where e: "ex [INCR ?k, EXPIRE_NX ?k (window * 2)] s = (Inr (RInt c # rs), s')"
    and b: "(b, d) = (if c > limit then (False, Truncate now window + window - now) else (True, 0))"
    using assms(2) by (auto simp: Allow_def Let_def split: prod.splits sum.splits list.splits reply.splits)
  from valkey.exec_ok [OF assms(1) e] obtain v1 v2 v3 r where v: "R (view s) v1" "cmd_sem (INCR ?k) v1 = (RInt c, v2)"
      "R v2 v3" "cmd_sem (EXPIRE_NX ?k (window * 2)) v3 = (r, view s')"
    by (auto simp: runs_Cons_iff runs_Nil_iff simp del: cmd_sem.simps)
  moreover have "c = counter v1 ?k + 1" using INCRBY_counter(1) [OF v(2)] by simp
  ultimately show thesis using that [of v1 v2 v3] b by (auto simp del: cmd_sem.simps split: if_splits)
qed

text \<open>What a call that ended in an error may have done to the counter: incremented it, or nothing.\<close>

lemma Allow_counter_mono:
  assumes "valkey ex view (counting {k})" "k = allow_key scope ip window now" "Second \<le> window"
    and "Allow ex scope ip limit window now s = (r, s')"
  shows "counter (view s) k \<le> counter (view s') k"
proof -
  let ?cs = "[INCR k, EXPIRE_NX k (window * 2)]"
  obtain r0 where "ex ?cs s = (r0, s')"
    using assms(2,4) by (auto simp: Allow_def Let_def split: prod.splits sum.splits list.splits reply.splits)
  then obtain n rs where run: "runs (counting {k}) (take n ?cs) (view s) rs (view s')"
    using valkey.exec_ok [OF assms(1)] valkey.exec_fail [OF assms(1)]
    by (cases r0) (metis, metis order_refl take_all_iff)
  have step: "counter v k \<le> counter (snd (cmd_sem c v)) k" if "c \<in> set ?cs" for c v
  proof -
    have "counter v k \<le> counter (snd (cmd_sem (INCR k) v)) k"
      using INCRBY_counter(2) [of k 1 v] by (cases "is_err (fst (cmd_sem (INCR k) v))")
        (auto split: option.splits if_splits)
    moreover have "0 < to_sec_ms (window * 2)" using assms(3) by (simp add: to_sec_ms_def)
    ultimately show ?thesis using that counter_EXPIRE_NX [of "window * 2" k v k] by auto
  qed
  show ?thesis
    by (rule runs_preserves [OF run, where P = "\<lambda>v. counter (view s) k \<le> counter v k"])
      (use step in \<open>auto simp: counting_def dest!: in_set_takeD intro: order_trans\<close>)
qed
lemma Allow_admitted_counter:
  assumes "valkey ex view (counting {k})" "k = allow_key scope ip window now" "Second \<le> window"
    and "Allow ex scope ip limit window now s = (Inr (True, d), s')"
  shows "counter (view s) k + 1 \<le> limit" "counter (view s) k + 1 \<le> counter (view s') k"
proof -
  obtain v1 v2 v3 where v: "counting {k} (view s) v1" "cmd_sem (INCR k) v1 = (RInt (counter v1 k + 1), v2)"
    "counter v1 k + 1 \<le> limit" "counting {k} v2 v3" "view s' = snd (cmd_sem (EXPIRE_NX k (window * 2)) v3)"
    using Allow_result [OF assms(1,4)] assms(2) by metis
  have "counter v2 k = counter v1 k + 1" using INCRBY_counter(2) [OF v(2)] by simp
  moreover have "counter (view s') k = counter v3 k"
    using v(5) counter_EXPIRE_NX [of "window * 2" k v3 k] assms(3) by (simp add: to_sec_ms_def)
  ultimately show "counter (view s) k + 1 \<le> limit" "counter (view s) k + 1 \<le> counter (view s') k"
    using v by (auto simp: counting_def)
qed

text \<open>
  C6. A rate window admits at most its limit: over any sequence of calls in one window, with any
  number of other replicas counting in the same window meanwhile and Valkey errors in between,
  at most \<open>limit\<close> minus what was already counted are admitted.
\<close>

theorem Allow_at_most_limit:
  assumes "valkey ex view (counting {rlKey scope ip w})" "Second \<le> window"
    and "\<forall>t \<in> set ts. Truncate t window = w"
    and "allow_all ex scope ip limit window ts s = (rs, s')"
  shows "int (length (filter admitted rs)) \<le> max 0 (limit - counter (view s) (rlKey scope ip w))"
  using assms(3,4)
proof (induction ts arbitrary: s rs)
  case (Cons t ts)
  let ?k = "rlKey scope ip w"
  obtain r s1 rs1 where r: "Allow ex scope ip limit window t s = (r, s1)"
    and rs: "allow_all ex scope ip limit window ts s1 = (rs1, s')" "rs = r # rs1"
    using Cons.prems(2) by (auto split: prod.splits)
  have k: "?k = allow_key scope ip window t" using Cons.prems(1) by simp
  have ih: "int (length (filter admitted rs1)) \<le> max 0 (limit - counter (view s1) ?k)"
    using Cons.IH [OF _ rs(1)] Cons.prems(1) by simp
  show ?case
  proof (cases "admitted r")
    case True
    then obtain d where "r = Inr (True, d)" by (auto simp: admitted_def)
    then show ?thesis
      using Allow_admitted_counter [OF assms(1) k assms(2)] r ih rs(2) True by fastforce
  next
    case False
    then show ?thesis using Allow_counter_mono [OF assms(1) k assms(2) r] ih rs(2) by auto
  qed
qed simp

lemma Truncate_minute: "Truncate 5000000000 Minute = 0" "Truncate 9000000000 Minute = 0"
  by (simp_all add: Truncate_def zero_time_def)

lemma demo_allow:
  "allow_all mem_exec ''conn'' ''ip'' 1 Minute [5 * Second, 9 * Second] \<lparr>clock = 0, keyspace = Map.empty\<rparr>
   = ([Inr (True, 0), Inr (False, 51 * Second)],
      \<lparr>clock = 0, keyspace = [rlKey ''conn'' ''ip'' 0 \<mapsto> (VStr (itoa 2), Some 120000)]\<rparr>)"
  by (simp add: Allow_def Truncate_minute mem_exec_def net_exec_def is_str_def str_of_def live_def put_def
      expiry_of_def incr_sem_def to_sec_ms_def expire_at_def Let_def)

theorem Allow_at_most_limit_witness:
  "int (length (filter admitted [Inr (True, 0), Inr (False, 51 * Second)]))
   \<le> max 0 (1 - counter \<lparr>clock = 0, keyspace = Map.empty\<rparr> (rlKey ''conn'' ''ip'' 0))"
  using Allow_at_most_limit [OF mem_counting _ _ demo_allow, of 0] Truncate_minute by simp

text \<open>
  The read-only pre-check agrees with the limiter: when nobody else counts in between, \<open>Over\<close>
  reports "over" exactly when the next \<open>Allow\<close> in the same window refuses, and it changes
  nothing itself.
\<close>

lemma Over_agrees_with_Allow:
  assumes "valkey ex view (steady {rlKey scope ip (Truncate now window)})" "0 < limit"
    and "Over ex scope ip limit window now s = (Inr (over, d), s1)"
    and "Allow ex scope ip limit window now s1 = (Inr (ok, d'), s2)"
  shows "(over \<longleftrightarrow> \<not> ok) \<and> d = d' \<and> steady {rlKey scope ip (Truncate now window)} (view s) (view s1)"
proof -
  let ?k = "allow_key scope ip window now"
  obtain r where g: "do1 ex (GET ?k) s = (Inr r, s1)"
    using assms(3) by (auto simp: Over_def Let_def split: prod.splits sum.splits reply.splits option.splits)
  then obtain v where v: "steady {?k} (view s) v" "cmd_sem (GET ?k) v = (r, view s1)" "\<not> is_err r"
    by (rule valkey.do1_ok [OF assms(1)])
  then have r: "view s1 = v" "r = (case str_of v ?k of None \<Rightarrow> RNil | Some x \<Rightarrow> RStr x)"
    by (auto split: if_splits)
  have o: "(over, d) = (if counter v ?k \<ge> limit then (True, Truncate now window + window - now) else (False, 0))"
    using assms(2,3) r(2) by (auto simp: Over_def Let_def g counter_def split: option.splits)
  obtain v1 where "steady {?k} (view s1) v1" "ok \<longleftrightarrow> counter v1 ?k + 1 \<le> limit"
    "d' = (if ok then 0 else Truncate now window + window - now)"
    by (rule Allow_result [OF assms(1,4)])
  moreover from this(1) have "counter v1 ?k = counter v ?k"
    using r(1) by (auto simp: steady_def intro: counter_cong)
  ultimately show ?thesis using o v(1) r(1) by (auto split: if_splits)
qed

lemma demo_over:
  "Over mem_exec ''conn'' ''ip'' 1 Minute (9 * Second)
     \<lparr>clock = 0, keyspace = [rlKey ''conn'' ''ip'' 0 \<mapsto> (VStr (itoa 1), Some 120000)]\<rparr>
   = (Inr (True, 51 * Second), \<lparr>clock = 0, keyspace = [rlKey ''conn'' ''ip'' 0 \<mapsto> (VStr (itoa 1), Some 120000)]\<rparr>)"
  "Allow mem_exec ''conn'' ''ip'' 1 Minute (9 * Second)
     \<lparr>clock = 0, keyspace = [rlKey ''conn'' ''ip'' 0 \<mapsto> (VStr (itoa 1), Some 120000)]\<rparr>
   = (Inr (False, 51 * Second), \<lparr>clock = 0, keyspace = [rlKey ''conn'' ''ip'' 0 \<mapsto> (VStr (itoa 2), Some 120000)]\<rparr>)"
  by (simp_all add: Over_def Allow_def Truncate_minute mem_exec_def net_exec_def do1_def is_str_def str_of_def
      live_def put_def expiry_of_def incr_sem_def to_sec_ms_def expire_at_def Let_def)

lemma Over_agrees_with_Allow_witness:
  "fst (Over mem_exec ''conn'' ''ip'' 1 Minute (9 * Second)
     \<lparr>clock = 0, keyspace = [rlKey ''conn'' ''ip'' 0 \<mapsto> (VStr (itoa 1), Some 120000)]\<rparr>) = Inr (True, 51 * Second)
   \<and> fst (Allow mem_exec ''conn'' ''ip'' 1 Minute (9 * Second)
     \<lparr>clock = 0, keyspace = [rlKey ''conn'' ''ip'' 0 \<mapsto> (VStr (itoa 1), Some 120000)]\<rparr>) = Inr (False, 51 * Second)
   \<and> (True \<longleftrightarrow> \<not> False)"
  using Over_agrees_with_Allow [OF mem_steady _ demo_over] demo_over by simp

subsection \<open>Byte accounting\<close>

lemma go_div_nonneg [simp]: "0 \<le> a \<Longrightarrow> go_div a b = a div b"
  by (simp add: go_div_def)

lemma reset_pos:
  assumes "0 \<le> now"
  shows "0 < secReset now" "0 < dayReset now" "0 < weekReset now"
  using assms pos_mod_bound [of Second now] pos_mod_bound [of "86400 * Second" now]
    pos_mod_bound [of "7 * 86400 * Second" now] div_mult_mod_eq [of now Second]
    div_mult_mod_eq [of now "86400 * Second"] div_mult_mod_eq [of now "7 * 86400 * Second"]
  by (simp_all add: secReset_def dayReset_def weekReset_def Unix_def zdiv_zmult2_eq [symmetric])

lemma secReset_le: "secReset now \<le> Second"
  using pos_mod_sign [of Second now] div_mult_mod_eq [of now Second]
  by (simp add: secReset_def Unix_def)

lemma resets_roll:
  assumes "0 \<le> now" "0 \<le> t"
  shows "secReset now \<le> t \<Longrightarrow> Unix now < Unix (now + t)"
    "dayReset now \<le> t \<Longrightarrow> go_div (Unix now) 86400 < go_div (Unix (now + t)) 86400"
    "weekReset now \<le> t \<Longrightarrow> go_div (go_div (Unix now) 86400) 7 < go_div (go_div (Unix (now + t)) 86400) 7"
proof -
  have roll: "(now div d + 1) * d - now \<le> t \<Longrightarrow> now div d < (now + t) div d" if "0 < d" for d
  proof -
    assume "(now div d + 1) * d - now \<le> t"
    then have "(now div d + 1) * d \<le> now + t" by simp
    then have "now div d + 1 \<le> (now + t) div d" using that by (metis nonzero_mult_div_cancel_right order_less_irrefl zdiv_mono1)
    then show ?thesis by simp
  qed
  show "secReset now \<le> t \<Longrightarrow> Unix now < Unix (now + t)"
    "dayReset now \<le> t \<Longrightarrow> go_div (Unix now) 86400 < go_div (Unix (now + t)) 86400"
    "weekReset now \<le> t \<Longrightarrow> go_div (go_div (Unix now) 86400) 7 < go_div (go_div (Unix (now + t)) 86400) 7"
    using roll [of Second] roll [of "86400 * Second"] roll [of "7 * 86400 * Second"] assms
    by (simp_all add: secReset_def dayReset_def weekReset_def Unix_def zdiv_zmult2_eq [symmetric])
qed
text \<open>The contract of the pacing decision, by the action it returns.\<close>

definition decision_ok ::
  "Limiter \<Rightarrow> int \<Rightarrow> int \<Rightarrow> int \<Rightarrow> int \<Rightarrow> int \<Rightarrow> ChargeAction \<times> duration \<times> string \<Rightarrow> bool" where
  "decision_ok l now b p d w dec =
     (let fits = b \<le> bwRate l \<and> (pktCap l \<le> 0 \<or> p \<le> pktCap l) in
      case dec of
        (ChargeProceed, wait, win) \<Rightarrow> fits \<and> d \<le> dayCap l \<and> w \<le> weekCap l
      | (ChargeWait, wait, win) \<Rightarrow>
          \<not> (fits \<and> d \<le> dayCap l \<and> w \<le> weekCap l) \<and> 0 < wait \<and> wait \<le> maxPacingWait
          \<and> (fits \<or> Unix now < Unix (now + wait))
          \<and> (d \<le> dayCap l \<or> go_div (Unix now) 86400 < go_div (Unix (now + wait)) 86400)
          \<and> (w \<le> weekCap l \<or> go_div (go_div (Unix now) 86400) 7 < go_div (go_div (Unix (now + wait)) 86400) 7)
      | (ChargeKill, wait, win) \<Rightarrow>
          win = ''week'' \<and> weekCap l < w \<and> maxPacingWait < weekReset now
          \<or> win = ''day'' \<and> dayCap l < d \<and> maxPacingWait < dayReset now
            \<and> (w \<le> weekCap l \<or> weekReset now \<le> maxPacingWait))"

lemma charge_decide_ok:
  assumes "0 \<le> now"
  shows "decision_ok l now b p d w (charge_decide l now b p d w)"
proof -
  define overSec where "overSec \<longleftrightarrow> \<not> (b \<le> bwRate l \<and> (pktCap l \<le> 0 \<or> p \<le> pktCap l))"
  define m where "m = max (if overSec then secReset now else 0)
    (max (if dayCap l < d then dayReset now else 0) (if weekCap l < w then weekReset now else 0))"
  note pos = reset_pos [OF assms]
  have dec: "charge_decide l now b p d w =
    (if weekCap l < w \<and> maxPacingWait < weekReset now then (ChargeKill, 0, ''week'')
     else if dayCap l < d \<and> maxPacingWait < dayReset now then (ChargeKill, 0, ''day'')
     else if 0 < m then (ChargeWait, m, []) else (ChargeProceed, 0, []))"
    using pos by (auto simp: charge_decide_def Let_def m_def overSec_def max_def)
  have sec: "secReset now \<le> maxPacingWait" using secReset_le [of now] by (simp add: maxPacingWait_def)
  have m_ge: "overSec \<Longrightarrow> secReset now \<le> m" "dayCap l < d \<Longrightarrow> dayReset now \<le> m"
    "weekCap l < w \<Longrightarrow> weekReset now \<le> m" by (simp_all add: m_def)
  have m_pos: "0 < m \<longleftrightarrow> overSec \<or> dayCap l < d \<or> weekCap l < w" using pos by (auto simp: m_def max_def)
  consider (week) "weekCap l < w" "maxPacingWait < weekReset now"
    | (day) "\<not> (weekCap l < w \<and> maxPacingWait < weekReset now)" "dayCap l < d" "maxPacingWait < dayReset now"
    | (near) "\<not> (weekCap l < w \<and> maxPacingWait < weekReset now)" "\<not> (dayCap l < d \<and> maxPacingWait < dayReset now)"
    by blast
  then show ?thesis
  proof cases
    case near
    then have le: "m \<le> maxPacingWait" using sec by (auto simp: m_def maxPacingWait_def)
    show ?thesis
    proof (cases "0 < m")
      case True
      note roll = resets_roll [OF assms, of m]
      have "overSec \<longrightarrow> Unix now < Unix (now + m)"
        "dayCap l < d \<longrightarrow> go_div (Unix now) 86400 < go_div (Unix (now + m)) 86400"
        "weekCap l < w \<longrightarrow> go_div (go_div (Unix now) 86400) 7 < go_div (go_div (Unix (now + m)) 86400) 7"
        using roll m_ge True by simp_all
      then show ?thesis using near True le m_pos unfolding dec overSec_def decision_ok_def Let_def by auto
    next
      case False
      then show ?thesis using near m_pos unfolding dec overSec_def decision_ok_def Let_def by auto
    qed
  qed (auto simp: dec decision_ok_def)
qed
lemma charge_keys_distinct:
  "dayKey n dir a \<noteq> weekKey n dir b" "weekKey n dir b \<noteq> dayKey n dir a"
  "dayKey n dir a \<noteq> bwKey n' dir' b" "weekKey n dir a \<noteq> bwKey n' dir' b"
  "dayKey n dir a \<noteq> pktKey n' dir' b" "weekKey n dir a \<noteq> pktKey n' dir' b"
  "dayKey n dir a \<noteq> concKey n'" "weekKey n dir a \<noteq> concKey n'"
  "bwKey n dir a \<noteq> pktKey n' dir' b" "bwKey n dir a \<noteq> concKey n'" "pktKey n dir a \<noteq> concKey n'"
  by (simp_all add: dayKey_def weekKey_def bwKey_def pktKey_def concKey_def)

declare charge_keys_distinct [simp] charge_keys_distinct [symmetric, simp]

text \<open>
  The value \<open>c\<close> that an increment of \<open>k\<close> by \<open>n\<close> returned, between the states \<open>v\<close> and \<open>v'\<close>: the
  count before plus \<open>n\<close>, plus at most what the environment \<open>R\<close> added; exactly that count when
  the environment leaves the key alone.
\<close>

definition counted ::
  "(vstate \<Rightarrow> vstate \<Rightarrow> bool) \<Rightarrow> vstate \<Rightarrow> vstate \<Rightarrow> vkey \<Rightarrow> int \<Rightarrow> int \<Rightarrow> bool" where
  "counted R v v' k n c \<longleftrightarrow>
     counter v k + n \<le> c \<and> c \<le> counter v' k
     \<and> ((\<forall>w w'. R w w' \<longrightarrow> steady {k} w w') \<longrightarrow> c = counter v k + n \<and> counter v' k = c)"

lemma runs_counter:
  assumes run: "runs R cs v rs v'"
    and keep: "\<forall>c \<in> set cs. k \<notin> cmd_writes c \<or> (\<exists>d. c = EXPIRE_NX k d \<and> 0 < to_sec_ms d)"
  shows "\<forall>w w'. R w w' \<longrightarrow> counting {k} w w' \<Longrightarrow> counter v k \<le> counter v' k"
    "\<forall>w w'. R w w' \<longrightarrow> steady {k} w w' \<Longrightarrow> counter v' k = counter v k"
proof -
  have cmd: "counter (snd (cmd_sem c w)) k = counter w k" if "c \<in> set cs" for c w
    using keep that counter_cmd_sem [of k c w] counter_EXPIRE_NX by metis
  show "counter v k \<le> counter v' k" if R: "\<forall>w w'. R w w' \<longrightarrow> counting {k} w w'"
  proof (rule runs_preserves [OF run, where P = "\<lambda>w. counter v k \<le> counter w k"])
    fix w w' assume "counter v k \<le> counter w k" "R w w'"
    then show "counter v k \<le> counter w' k" using R [rule_format, of w w'] by (simp add: counting_def)
  qed (simp_all add: cmd)
  show "counter v' k = counter v k" if R: "\<forall>w w'. R w w' \<longrightarrow> steady {k} w w'"
  proof (rule runs_preserves [OF run, where P = "\<lambda>w. counter w k = counter v k"])
    fix w w' assume "counter w k = counter v k" "R w w'"
    then show "counter w' k = counter v k"
      using R [rule_format, of w w'] counter_cong [of w' k w] by (simp add: steady_def)
  qed (simp_all add: cmd)
qed

lemma counted_reply:
  assumes "runs R (xs @ INCRBY k n # ys) v rs v'" "\<forall>r \<in> set rs. \<not> is_err r"
    and keep: "\<forall>c \<in> set (xs @ ys). k \<notin> cmd_writes c \<or> (\<exists>d. c = EXPIRE_NX k d \<and> 0 < to_sec_ms d)"
    and R: "\<forall>w w'. R w w' \<longrightarrow> counting {k} w w'"
  shows "\<exists>c. rs ! length xs = RInt c \<and> counted R v v' k n c"
proof -
  obtain rs1 v1 v2 r v3 rs2 where r1: "runs R xs v rs1 v1" and r2: "R v1 v2"
    and i: "cmd_sem (INCRBY k n) v2 = (r, v3)" "\<not> is_err r" and r3: "runs R ys v3 rs2 v'"
    and rs: "rs = rs1 @ r # rs2"
    using assms(1,2) by (auto simp: runs_append runs_Cons_iff simp del: cmd_sem.simps)
  have k1: "\<forall>c \<in> set xs. k \<notin> cmd_writes c \<or> (\<exists>d. c = EXPIRE_NX k d \<and> 0 < to_sec_ms d)"
    and k3: "\<forall>c \<in> set ys. k \<notin> cmd_writes c \<or> (\<exists>d. c = EXPIRE_NX k d \<and> 0 < to_sec_ms d)"
    using keep by auto
  have r: "rs ! length xs = RInt (counter v2 k + n)" "counter v3 k = counter v2 k + n"
    using INCRBY_counter(1,2) [OF i] runs_length [OF r1] rs by (auto simp: nth_append)
  have "counter v1 k \<le> counter v2 k" using R [rule_format, OF r2] by (simp add: counting_def)
  moreover have "counter v2 k = counter v1 k" if st: "\<forall>w w'. R w w' \<longrightarrow> steady {k} w w'"
    using st [rule_format, OF r2] counter_cong [of v2 k v1] by (simp add: steady_def)
  moreover note runs_counter(1) [OF r1 k1 R] runs_counter(1) [OF r3 k3 R] runs_counter(2) [OF r1 k1] runs_counter(2) [OF r3 k3]
  ultimately have "counted R v v' k n (counter v2 k + n)"
    unfolding counted_def using r(2) by simp
  then show ?thesis using r(1) by blast
qed

lemma Charge_run:
  assumes "valkey ex view R" "Charge l ex name member dir nr now s = ((dec, None), s')"
  obtains b p d w rs where "dec = charge_decide l now b p d w"
    "runs R (charge_cmds l name member dir nr now) (view s) (RInt b # RInt p # RInt d # RInt w # rs) (view s')"
    "\<forall>r \<in> set (RInt b # RInt p # RInt d # RInt w # rs). \<not> is_err r"
proof -
  obtain b p d w rs where "ex (charge_cmds l name member dir nr now) s = (Inr (RInt b # RInt p # RInt d # RInt w # rs), s')"
    and "dec = charge_decide l now b p d w"
    using assms(2) by (auto simp: Charge_def split: prod.splits sum.splits list.splits reply.splits)
  then show thesis using that valkey.exec_ok [OF assms(1)] by blast
qed

lemma charge_ttls: "0 < to_sec_ms bwWindowTTL" "0 < to_sec_ms trafDayTTL" "0 < to_sec_ms trafWeekTTL"
  by (simp_all add: to_sec_ms_def bwWindowTTL_def trafDayTTL_def trafWeekTTL_def)

text \<open>What each of the four replies of the pipeline counts.\<close>

lemma charge_replies:
  assumes run: "runs R (charge_cmds l name member dir nr now) v (RInt b # RInt p # RInt d # RInt w # rs) v'"
      "\<forall>r \<in> set (RInt b # RInt p # RInt d # RInt w # rs). \<not> is_err r"
  shows "\<forall>w w'. R w w' \<longrightarrow> counting {bwKey name dir (Unix now)} w w' \<Longrightarrow> counted R v v' (bwKey name dir (Unix now)) nr b"
    "\<forall>w w'. R w w' \<longrightarrow> counting {pktKey name dir (Unix now)} w w' \<Longrightarrow> counted R v v' (pktKey name dir (Unix now)) 1 p"
    "\<forall>w w'. R w w' \<longrightarrow> counting {dayKey name dir (Unix now)} w w' \<Longrightarrow> counted R v v' (dayKey name dir (Unix now)) nr d"
    "\<forall>w w'. R w w' \<longrightarrow> counting {weekKey name dir (Unix now)} w w' \<Longrightarrow> counted R v v' (weekKey name dir (Unix now)) nr w"
proof -
  let ?bk = "bwKey name dir (Unix now)" and ?pk = "pktKey name dir (Unix now)"
  let ?dk = "dayKey name dir (Unix now)" and ?wk = "weekKey name dir (Unix now)"
  define rest where "rest = [EXPIRE_NX ?bk bwWindowTTL, EXPIRE_NX ?pk bwWindowTTL,
       EXPIRE_NX ?dk trafDayTTL, EXPIRE_NX ?wk trafWeekTTL,
       ZADDXX (concKey name) member (UnixMilli (now + streamTTL l)), PEXPIRE (concKey name) (streamTTL l)]"
  have cs: "charge_cmds l name member dir nr now = [] @ INCRBY ?bk nr # INCR ?pk # INCRBY ?dk nr # INCRBY ?wk nr # rest"
    "charge_cmds l name member dir nr now = [INCRBY ?bk nr] @ INCRBY ?pk 1 # INCRBY ?dk nr # INCRBY ?wk nr # rest"
    "charge_cmds l name member dir nr now = [INCRBY ?bk nr, INCR ?pk] @ INCRBY ?dk nr # INCRBY ?wk nr # rest"
    "charge_cmds l name member dir nr now = [INCRBY ?bk nr, INCR ?pk, INCRBY ?dk nr] @ INCRBY ?wk nr # rest"
    by (simp_all add: charge_cmds_def chargeKeys_def rest_def)
  show "counted R v v' ?bk nr b" if "\<forall>w w'. R w w' \<longrightarrow> counting {?bk} w w'"
    using counted_reply [OF run(1) [unfolded cs(1)] run(2) _ that] by (auto simp: rest_def charge_ttls)
  show "counted R v v' ?pk 1 p" if "\<forall>w w'. R w w' \<longrightarrow> counting {?pk} w w'"
    using counted_reply [OF run(1) [unfolded cs(2)] run(2) _ that] by (auto simp: rest_def charge_ttls)
  show "counted R v v' ?dk nr d" if "\<forall>w w'. R w w' \<longrightarrow> counting {?dk} w w'"
    using counted_reply [OF run(1) [unfolded cs(3)] run(2) _ that] by (auto simp: rest_def charge_ttls)
  show "counted R v v' ?wk nr w" if "\<forall>w w'. R w w' \<longrightarrow> counting {?wk} w w'"
    using counted_reply [OF run(1) [unfolded cs(4)] run(2) _ that] by (auto simp: rest_def charge_ttls)
qed

lemma Charge_counted:
  assumes "valkey ex view R" "Charge l ex name member dir nr now s = ((dec, None), s')"
    and "\<forall>w w'. R w w' \<longrightarrow> counting {dayKey name dir (Unix now), weekKey name dir (Unix now)} w w'"
  obtains b p d w where "dec = charge_decide l now b p d w"
    "counted R (view s) (view s') (dayKey name dir (Unix now)) nr d"
    "counted R (view s) (view s') (weekKey name dir (Unix now)) nr w"
    "\<forall>w w'. R w w' \<longrightarrow> counting {bwKey name dir (Unix now), pktKey name dir (Unix now)} w w' \<Longrightarrow>
       counted R (view s) (view s') (bwKey name dir (Unix now)) nr b
       \<and> counted R (view s) (view s') (pktKey name dir (Unix now)) 1 p"
proof -
  obtain b p d w rs where dec: "dec = charge_decide l now b p d w"
    and run: "runs R (charge_cmds l name member dir nr now) (view s) (RInt b # RInt p # RInt d # RInt w # rs) (view s')"
      "\<forall>r \<in> set (RInt b # RInt p # RInt d # RInt w # rs). \<not> is_err r"
    by (rule Charge_run [OF assms(1,2)])
  have R: "\<forall>w w'. R w w' \<longrightarrow> counting {dayKey name dir (Unix now)} w w'"
    "\<forall>w w'. R w w' \<longrightarrow> counting {weekKey name dir (Unix now)} w w'"
    using assms(3) unfolding counting_def by blast+
  show thesis
  proof (rule that [OF dec charge_replies(3) [OF run R(1)] charge_replies(4) [OF run R(2)]])
    assume "\<forall>w w'. R w w' \<longrightarrow> counting {bwKey name dir (Unix now), pktKey name dir (Unix now)} w w'"
    then have R': "\<forall>w w'. R w w' \<longrightarrow> counting {bwKey name dir (Unix now)} w w'"
      "\<forall>w w'. R w w' \<longrightarrow> counting {pktKey name dir (Unix now)} w w'"
      unfolding counting_def by blast+
    show "counted R (view s) (view s') (bwKey name dir (Unix now)) nr b
       \<and> counted R (view s) (view s') (pktKey name dir (Unix now)) 1 p"
      using charge_replies(1) [OF run R'(1)] charge_replies(2) [OF run R'(2)] by blast
  qed
qed

text \<open>
  C7. The pacing decision, completely, on the counters it keeps: every \<open>Charge\<close> that reached Valkey
  counts its bytes into the second, day and week counters and one packet into the packet counter
  of its name and direction, and decides on the four values so reached (with what other replicas
  counted meanwhile, and exactly the old count plus its own when they counted nothing).
  \<open>proceed\<close> means no window is over its cap; \<open>wait\<close> means some window is, the wait is positive
  and at most five seconds, and after it every window that was over has rolled to the next one;
  \<open>kill\<close> means a day or week window is over and still has more than five seconds to run (the
  week is named first).
\<close>

theorem Charge_decision:
  assumes "valkey ex view R" "0 \<le> now"
    and "\<forall>v v'. R v v' \<longrightarrow> counting {bwKey name dir (Unix now), pktKey name dir (Unix now),
           dayKey name dir (Unix now), weekKey name dir (Unix now)} v v'"
    and "Charge l ex name member dir nr now s = ((dec, None), s')"
  shows "\<exists>b p d w. decision_ok l now b p d w dec
    \<and> counted R (view s) (view s') (bwKey name dir (Unix now)) nr b
    \<and> counted R (view s) (view s') (pktKey name dir (Unix now)) 1 p
    \<and> counted R (view s) (view s') (dayKey name dir (Unix now)) nr d
    \<and> counted R (view s) (view s') (weekKey name dir (Unix now)) nr w"
proof -
  have R: "\<forall>w w'. R w w' \<longrightarrow> counting {dayKey name dir (Unix now), weekKey name dir (Unix now)} w w'"
    "\<forall>w w'. R w w' \<longrightarrow> counting {bwKey name dir (Unix now), pktKey name dir (Unix now)} w w'"
    using assms(3) unfolding counting_def by blast+
  obtain b p d w where dec: "dec = charge_decide l now b p d w" and
    "counted R (view s) (view s') (dayKey name dir (Unix now)) nr d"
    "counted R (view s) (view s') (weekKey name dir (Unix now)) nr w"
    "counted R (view s) (view s') (bwKey name dir (Unix now)) nr b"
    "counted R (view s) (view s') (pktKey name dir (Unix now)) 1 p"
    using Charge_counted [OF assms(1,4) R(1)] R(2) by metis
  then show ?thesis using charge_decide_ok [OF assms(2), of l b p d w] by blast
qed

text \<open>
  C8. What \<open>Charge\<close> lets through stays within the day and week caps, and what it kills is refused
  at admission: with other replicas counting at the same time, \<open>proceed\<close> implies that the bytes
  counted before plus these fit under both caps, and a \<open>kill\<close> names the day or the week; after a
  kill for the day every \<open>TrafficExhausted\<close> check in the same day reports the day as exhausted,
  and after a kill for the week every check in the same week, on whatever day, reports the week.
\<close>

theorem Charge_kill_refused_at_admission:
  assumes "valkey ex view (counting {dayKey name dir (Unix now), weekKey name dir (Unix now)})" "0 \<le> now"
    and "dir = ''in'' \<or> dir = ''out''"
    and "Charge l ex name member dir nr now s = (((act, wait, win), None), s1)"
    and "TrafficExhausted l ex name now' s1 = (Inr (dayOver, weekOver), s2)"
  shows "case act of
      ChargeProceed \<Rightarrow> counter (view s) (dayKey name dir (Unix now)) + nr \<le> dayCap l
        \<and> counter (view s) (weekKey name dir (Unix now)) + nr \<le> weekCap l
    | ChargeWait \<Rightarrow> 0 < wait \<and> wait \<le> maxPacingWait
    | ChargeKill \<Rightarrow>
        win = ''day'' \<and> (go_div (Unix now') 86400 = go_div (Unix now) 86400 \<longrightarrow> dayOver)
        \<or> win = ''week'' \<and> (go_div (go_div (Unix now') 86400) 7 = go_div (go_div (Unix now) 86400) 7 \<longrightarrow> weekOver)"
proof -
  let ?dk = "dayKey name dir (Unix now)" and ?wk = "weekKey name dir (Unix now)"
  obtain b p d w where dec: "(act, wait, win) = charge_decide l now b p d w"
    and "counted (counting {?dk, ?wk}) (view s) (view s1) ?dk nr d" "counted (counting {?dk, ?wk}) (view s) (view s1) ?wk nr w"
    by (rule Charge_counted [OF assms(1,4)]) simp
  then have c: "counter (view s) ?dk + nr \<le> d" "d \<le> counter (view s1) ?dk"
      "counter (view s) ?wk + nr \<le> w" "w \<le> counter (view s1) ?wk"
    by (auto simp: counted_def)
  obtain r where g: "do1 ex (MGET [dayKey name ''in'' (Unix now'), dayKey name ''out'' (Unix now'),
      weekKey name ''in'' (Unix now'), weekKey name ''out'' (Unix now')]) s1 = (Inr r, s2)"
    using assms(5) by (auto simp: TrafficExhausted_def Let_def split: prod.splits sum.splits reply.splits list.splits)
  obtain v where v: "counting {?dk, ?wk} (view s1) v" and "cmd_sem (MGET [dayKey name ''in'' (Unix now'), dayKey name ''out'' (Unix now'),
      weekKey name ''in'' (Unix now'), weekKey name ''out'' (Unix now')]) v = (r, view s2)"
    by (rule valkey.do1_ok [OF assms(1) g])
  then have over: "dayOver \<longleftrightarrow> counter v (dayKey name ''in'' (Unix now')) \<ge> dayCap l \<or> counter v (dayKey name ''out'' (Unix now')) \<ge> dayCap l"
    "weekOver \<longleftrightarrow> counter v (weekKey name ''in'' (Unix now')) \<ge> weekCap l \<or> counter v (weekKey name ''out'' (Unix now')) \<ge> weekCap l"
    using assms(5) by (auto simp: TrafficExhausted_def Let_def g atoiCap_def counter_def)
  have "d \<le> counter v ?dk" "w \<le> counter v ?wk" using c v by (auto simp: counting_def)
  then have "dayCap l < d \<Longrightarrow> go_div (Unix now') 86400 = go_div (Unix now) 86400 \<Longrightarrow> dayOver"
    "weekCap l < w \<Longrightarrow> go_div (go_div (Unix now') 86400) 7 = go_div (go_div (Unix now) 86400) 7 \<Longrightarrow> weekOver"
    using over assms(3) by (auto simp: dayKey_def weekKey_def)
  then show ?thesis
    using charge_decide_ok [OF assms(2), of l b p d w] c unfolding dec [symmetric] decision_ok_def Let_def
    by (auto split: ChargeAction.splits)
qed

definition demo_empty :: vstate where
  "demo_empty = \<lparr>clock = 0, keyspace = Map.empty\<rparr>"

definition demo_charged :: vstate where
  "demo_charged = \<lparr>clock = 0, keyspace =
     [bwKey ''a'' ''in'' 0 \<mapsto> (VStr (itoa 6000), Some 3000), pktKey ''a'' ''in'' 0 \<mapsto> (VStr (itoa 1), Some 3000),
      dayKey ''a'' ''in'' 0 \<mapsto> (VStr (itoa 6000), Some 90000000),
      weekKey ''a'' ''in'' 0 \<mapsto> (VStr (itoa 6000), Some 608400000)]\<rparr>"

lemma demo_charge:
  "Charge demo_limiter mem_exec ''a'' ''m1'' ''in'' 6000 0 demo_empty = (((ChargeKill, 0, ''day''), None), demo_charged)"
proof -
  have t: "to_sec_ms bwWindowTTL = 3000" "to_sec_ms trafDayTTL = 90000000" "to_sec_ms trafWeekTTL = 608400000"
    by (simp_all add: to_sec_ms_def bwWindowTTL_def trafDayTTL_def trafWeekTTL_def)
  have d: "charge_decide demo_limiter 0 6000 1 6000 6000 = (ChargeKill, 0, ''day'')"
    by (simp add: charge_decide_def demo_limiter_def weekReset_def dayReset_def Unix_def maxPacingWait_def)
  have u: "Unix 0 = 0" by (simp add: Unix_def)
  show ?thesis
  by (simp add: Charge_def d u charge_cmds_def chargeKeys_def mem_exec_def net_exec_def is_str_def str_of_def live_def put_def
      expiry_of_def incr_sem_def t expire_at_def Let_def demo_empty_def demo_charged_def is_zset_def zset_of_def fun_upd_twist)
qed

lemma demo_exhausted:
  "TrafficExhausted demo_limiter mem_exec ''a'' Second demo_charged = (Inr (True, False), demo_charged)"
proof -
  have k: "dayKey ''a'' ''in'' 1 = dayKey ''a'' ''in'' 0" "dayKey ''a'' ''out'' 1 = dayKey ''a'' ''out'' 0"
    "weekKey ''a'' ''in'' 1 = weekKey ''a'' ''in'' 0" "weekKey ''a'' ''out'' 1 = weekKey ''a'' ''out'' 0"
    "dayKey ''a'' ''out'' 0 \<noteq> dayKey ''a'' ''in'' 0" "weekKey ''a'' ''out'' 0 \<noteq> weekKey ''a'' ''in'' 0"
    "dayKey ''a'' ''out'' 0 \<noteq> weekKey ''a'' ''in'' 0" "weekKey ''a'' ''out'' 0 \<noteq> dayKey ''a'' ''in'' 0"
    by (simp_all add: dayKey_def weekKey_def)
  have u: "Unix Second = 1" by (simp add: Unix_def)
  show ?thesis
    by (simp add: demo_charged_def TrafficExhausted_def Let_def do1_def mem_exec_def net_exec_def str_of_def live_def k u
        atoiCap_def demo_limiter_def)
qed

theorem Charge_decision_witness:
  "\<exists>b p d w. decision_ok demo_limiter 0 b p d w (ChargeKill, 0, ''day'')
    \<and> counted (=) demo_empty demo_charged (bwKey ''a'' ''in'' 0) 6000 b
    \<and> counted (=) demo_empty demo_charged (pktKey ''a'' ''in'' 0) 1 p
    \<and> counted (=) demo_empty demo_charged (dayKey ''a'' ''in'' 0) 6000 d
    \<and> counted (=) demo_empty demo_charged (weekKey ''a'' ''in'' 0) 6000 w"
  using Charge_decision [OF mem.valkey_axioms _ _ demo_charge] by (simp add: counting_def Unix_def)

text \<open>A kill for the week, of a name whose week counter was almost full, and a check three days later.\<close>

definition demo_week :: vstate where
  "demo_week = \<lparr>clock = 0, keyspace = [weekKey ''a'' ''in'' 0 \<mapsto> (VStr (itoa 15000), None)]\<rparr>"

definition demo_week_over :: vstate where
  "demo_week_over = \<lparr>clock = 0, keyspace =
     [bwKey ''a'' ''in'' 0 \<mapsto> (VStr (itoa 6000), Some 3000), pktKey ''a'' ''in'' 0 \<mapsto> (VStr (itoa 1), Some 3000),
      dayKey ''a'' ''in'' 0 \<mapsto> (VStr (itoa 6000), Some 90000000),
      weekKey ''a'' ''in'' 0 \<mapsto> (VStr (itoa 21000), Some 608400000)]\<rparr>"

lemma demo_charge_week:
  "Charge demo_limiter mem_exec ''a'' ''m1'' ''in'' 6000 0 demo_week = (((ChargeKill, 0, ''week''), None), demo_week_over)"
proof -
  have t: "to_sec_ms bwWindowTTL = 3000" "to_sec_ms trafDayTTL = 90000000" "to_sec_ms trafWeekTTL = 608400000"
    by (simp_all add: to_sec_ms_def bwWindowTTL_def trafDayTTL_def trafWeekTTL_def)
  have d: "charge_decide demo_limiter 0 6000 1 6000 21000 = (ChargeKill, 0, ''week'')"
    by (simp add: charge_decide_def demo_limiter_def weekReset_def dayReset_def Unix_def maxPacingWait_def)
  have u: "Unix 0 = 0" by (simp add: Unix_def)
  show ?thesis
  by (simp add: Charge_def d u charge_cmds_def chargeKeys_def mem_exec_def net_exec_def is_str_def str_of_def live_def put_def
      expiry_of_def incr_sem_def t expire_at_def Let_def demo_week_def demo_week_over_def is_zset_def zset_of_def fun_upd_twist)
qed

lemma itoa_3: "itoa 3 \<noteq> itoa 0"
proof
  assume "itoa 3 = itoa 0"
  moreover have "parse_int (itoa 3) = Some 3" "parse_int (itoa 0) = Some 0"
    by (rule parse_int_itoa; simp)+
  ultimately show False by simp
qed

lemma demo_exhausted_week:
  "TrafficExhausted demo_limiter mem_exec ''a'' (3 * 86400 * Second) demo_week_over = (Inr (False, True), demo_week_over)"
proof -
  have k: "weekKey ''a'' ''in'' 259200 = weekKey ''a'' ''in'' 0" "weekKey ''a'' ''out'' 259200 = weekKey ''a'' ''out'' 0"
    "dayKey ''a'' ''in'' 259200 \<noteq> dayKey ''a'' ''in'' 0" "dayKey ''a'' ''out'' 259200 \<noteq> dayKey ''a'' ''in'' 0"
    "dayKey ''a'' ''out'' 259200 \<noteq> weekKey ''a'' ''in'' 0" "weekKey ''a'' ''out'' 0 \<noteq> weekKey ''a'' ''in'' 0"
    "weekKey ''a'' ''out'' 0 \<noteq> dayKey ''a'' ''in'' 0"
    using itoa_3 by (auto simp: dayKey_def weekKey_def)
  have u: "Unix 259200000000000 = 259200" by (simp add: Unix_def)
  show ?thesis
    by (simp add: demo_week_over_def TrafficExhausted_def Let_def do1_def mem_exec_def net_exec_def str_of_def live_def k u
        atoiCap_def demo_limiter_def)
qed

theorem Charge_kill_refused_at_admission_witness:
  "fst (Charge demo_limiter mem_exec ''a'' ''m1'' ''in'' 6000 0 demo_empty) = ((ChargeKill, 0, ''day''), None)
   \<and> fst (TrafficExhausted demo_limiter mem_exec ''a'' Second demo_charged) = Inr (True, False)
   \<and> fst (Charge demo_limiter mem_exec ''a'' ''m1'' ''in'' 6000 0 demo_week) = ((ChargeKill, 0, ''week''), None)
   \<and> fst (TrafficExhausted demo_limiter mem_exec ''a'' (3 * 86400 * Second) demo_week_over) = Inr (False, True)
   \<and> (''week'' = ''day'' \<and> (go_div (Unix (3 * 86400 * Second)) 86400 = go_div (Unix 0) 86400 \<longrightarrow> False)
      \<or> ''week'' = ''week'' \<and> (go_div (go_div (Unix (3 * 86400 * Second)) 86400) 7 = go_div (go_div (Unix 0) 86400) 7 \<longrightarrow> True))"
  using Charge_kill_refused_at_admission [OF mem_counting _ _ demo_charge demo_exhausted]
    Charge_kill_refused_at_admission [OF mem_counting _ _ demo_charge_week demo_exhausted_week]
    demo_charge demo_exhausted demo_charge_week demo_exhausted_week by simp

text \<open>
  Traffic counters outlive their windows: a successful charge leaves the day and the week
  counter with an expiry no earlier than the end of the window they count, as long as the
  server clock is at most an hour behind and earlier expiries of the keys were as good. So a
  counter never restarts at zero inside its own day or week.
\<close>

lemma Charge_counters_outlive_window:
  assumes "valkey ex view (steady {dayKey name dir (Unix now)})" "valkey ex view (steady {weekKey name dir (Unix now)})"
    and "0 \<le> now" "UnixMilli now - 3600000 \<le> clock (view s)"
    and "\<forall>t. expiry_of (view s) (dayKey name dir (Unix now)) = Some t \<longrightarrow> (Unix now div 86400 + 1) * 86400000 \<le> t"
    and "\<forall>t. expiry_of (view s) (weekKey name dir (Unix now)) = Some t \<longrightarrow> (Unix now div 604800 + 1) * 604800000 \<le> t"
    and "Charge l ex name member dir nr now s = ((dec, None), s')"
  shows "(\<exists>t. expiry_of (view s') (dayKey name dir (Unix now)) = Some t \<and> (Unix now div 86400 + 1) * 86400000 \<le> t)
    \<and> (\<exists>t. expiry_of (view s') (weekKey name dir (Unix now)) = Some t \<and> (Unix now div 604800 + 1) * 604800000 \<le> t)"
proof -
  let ?sec = "Unix now" and ?dk = "dayKey name dir (Unix now)" and ?wk = "weekKey name dir (Unix now)"
  let ?bk = "bwKey name dir (Unix now)" and ?pk = "pktKey name dir (Unix now)"
  obtain rs where e: "ex (charge_cmds l name member dir nr now) s = (Inr rs, s')"
    using assms(7) by (auto simp: Charge_def split: prod.splits sum.splits list.splits reply.splits)
  have cs: "charge_cmds l name member dir nr now =
      [INCRBY ?bk nr, INCR ?pk] @ INCRBY ?dk nr # [INCRBY ?wk nr, EXPIRE_NX ?bk bwWindowTTL, EXPIRE_NX ?pk bwWindowTTL]
      @ EXPIRE_NX ?dk trafDayTTL # [EXPIRE_NX ?wk trafWeekTTL,
       ZADDXX (concKey name) member (UnixMilli (now + streamTTL l)), PEXPIRE (concKey name) (streamTTL l)]"
    "charge_cmds l name member dir nr now =
      [INCRBY ?bk nr, INCR ?pk, INCRBY ?dk nr] @ INCRBY ?wk nr # [EXPIRE_NX ?bk bwWindowTTL, EXPIRE_NX ?pk bwWindowTTL,
       EXPIRE_NX ?dk trafDayTTL] @ EXPIRE_NX ?wk trafWeekTTL # [
       ZADDXX (concKey name) member (UnixMilli (now + streamTTL l)), PEXPIRE (concKey name) (streamTTL l)]"
    by (simp_all add: charge_cmds_def chargeKeys_def)
  have ttl: "to_sec_ms trafDayTTL = 90000000" "to_sec_ms trafWeekTTL = 608400000"
    by (simp_all add: to_sec_ms_def trafDayTTL_def trafWeekTTL_def)
  have "?sec * 1000 \<le> UnixMilli now" using assms(3)
    by (simp add: Unix_def UnixMilli_def)
  moreover have "(?sec div 86400 + 1) * 86400 \<le> ?sec + 86400" "(?sec div 604800 + 1) * 604800 \<le> ?sec + 604800"
    by (simp_all add: minus_mod_eq_div_mult [symmetric])
  ultimately have E: "(?sec div 86400 + 1) * 86400000 \<le> clock (view s) + to_sec_ms trafDayTTL"
    "(?sec div 604800 + 1) * 604800000 \<le> clock (view s) + to_sec_ms trafWeekTTL"
    using assms(4) unfolding ttl by linarith+
  show ?thesis
  proof
    show "\<exists>t. expiry_of (view s') ?dk = Some t \<and> (?sec div 86400 + 1) * 86400000 \<le> t"
      using valkey.exec_ok [OF assms(1) e] unfolding cs(1)
      by (elim conjE counter_ttl [OF _ _ _ assms(5) _ E(1)]) (simp_all add: ttl)
    show "\<exists>t. expiry_of (view s') ?wk = Some t \<and> (?sec div 604800 + 1) * 604800000 \<le> t"
      using valkey.exec_ok [OF assms(2) e] unfolding cs(2)
      by (elim conjE counter_ttl [OF _ _ _ assms(6) _ E(2)]) (simp_all add: ttl)
  qed
qed

lemma Charge_counters_outlive_window_witness:
  "(\<exists>t. expiry_of demo_charged (dayKey ''a'' ''in'' 0) = Some t \<and> 86400000 \<le> t)
   \<and> (\<exists>t. expiry_of demo_charged (weekKey ''a'' ''in'' 0) = Some t \<and> 604800000 \<le> t)"
  using Charge_counters_outlive_window [OF mem_steady mem_steady _ _ _ _ demo_charge]
  by (simp add: Unix_def UnixMilli_def demo_empty_def expiry_of_def live_def)

subsection \<open>Certificate issuance\<close>

lemma steady_do1:
  assumes "valkey ex view (steady K)" "do1 ex c s = (r, s')" "k \<in> K" "k \<notin> cmd_writes c"
  shows "live (view s') k = live (view s) k"
proof (cases r)
  case (Inl e)
  then consider "view s' = view s" | v1 r where "steady K (view s) v1" "cmd_sem c v1 = (r, view s')"
    using valkey.do1_fail [OF assms(1)] assms(2) by blast
  then show ?thesis
    using assms(3) live_cmd_sem [OF assms(4)] by cases (simp, metis snd_conv steady_def)
next
  case (Inr r')
  obtain v1 where "steady K (view s) v1" "cmd_sem c v1 = (r', view s')"
    using valkey.do1_ok [OF assms(1)] assms(2) Inr by metis
  then show ?thesis using assms(3) live_cmd_sem [OF assms(4), of v1] by (metis snd_conv steady_def)
qed

lemma SETNX_live:
  assumes "cmd_sem (SETNX k x d) v = (RBool True, v')" "0 < to_ms d"
  shows "live v k = None" "\<exists>t. live v' k = Some (VStr x, t)"
  using assms by (auto simp: vk_simps ttl_at_def split: if_splits)

lemma IssuanceBegin_Granted:
  assumes "IssuanceBegin ex tok name maxN s = (Inr (Granted t), s2)"
  obtains s1 r where "t = tok" "do1 ex (SETNX (issLockKey name) tok issLockTTL) s = (Inr (RBool True), s1)"
    "do1 ex (GET (issuanceKey name)) s1 = (Inr r, s2)"
    "r = RNil \<and> 0 < maxN \<or> (\<exists>x n. r = RStr x \<and> parse_int x = Some n \<and> n < maxN)"
  using assms
  by (auto simp: IssuanceBegin_def split: prod.splits sum.splits reply.splits bool.splits option.splits if_splits)

lemma releaseIssLock_other:
  assumes "valkey ex view (steady {issLockKey name})" "live (view s) (issLockKey name) = Some (VStr tok, t)"
    and "tok2 \<noteq> tok" "releaseIssLock ex name tok2 s = (r, s')"
  shows "live (view s') (issLockKey name) = live (view s) (issLockKey name)"
proof -
  obtain r1 s1 where g: "do1 ex (GET (issLockKey name)) s = (r1, s1)" by (meson surj_pair)
  have "r1 \<noteq> Inr (RStr tok2)"
  proof
    assume "r1 = Inr (RStr tok2)"
    then obtain v1 where "steady {issLockKey name} (view s) v1"
        "cmd_sem (GET (issLockKey name)) v1 = (RStr tok2, view s1)"
      using valkey.do1_ok [OF assms(1)] g by metis
    then show False using assms(2,3)
      by (auto simp: steady_def str_of_def split: if_splits option.splits)
  qed
  then have "s' = s1" using assms(4) g
    by (auto simp: releaseIssLock_def split: sum.splits reply.splits if_splits)
  then show ?thesis using steady_do1 [OF assms(1) g] by simp
qed

text \<open>
  C12. Issuance is exclusive per name: while a granted order's lock is live and undisturbed, the end
  of some other order does not release it, and every further attempt for that name is turned
  away as "in flight" (or fails on a Valkey error).
\<close>

theorem IssuanceBegin_exclusive:
  assumes "valkey ex view (steady {issLockKey name})" "tok2 \<noteq> tok"
    and "IssuanceBegin ex tok name maxN s = (Inr (Granted t), s1)"
    and "IssuanceEnd ex name tok2 s1 = (r2, s2)"
    and "IssuanceBegin ex tok3 name maxN' s2 = (r3, s3)"
  shows "t = tok \<and> str_of (view s2) (issLockKey name) = Some tok
    \<and> (r3 = Inl ErrIssuanceInFlight \<or> (\<exists>e. r3 = Inl (IssValkey e)))"
proof -
  let ?k = "issLockKey name"
  obtain s0 r where t: "t = tok" and l: "do1 ex (SETNX ?k tok issLockTTL) s = (Inr (RBool True), s0)"
    and g: "do1 ex (GET (issuanceKey name)) s0 = (Inr r, s1)"
    by (rule IssuanceBegin_Granted [OF assms(3)])
  obtain v1 where "cmd_sem (SETNX ?k tok issLockTTL) v1 = (RBool True, view s0)"
    by (rule valkey.do1_ok [OF assms(1) l])
  from SETNX_live(2) [OF this] obtain e where "live (view s0) ?k = Some (VStr tok, e)"
    by (auto simp: to_ms_def issLockTTL_def)
  then have l1: "live (view s1) ?k = Some (VStr tok, e)" using steady_do1 [OF assms(1) g] by simp
  have l2: "live (view s2) ?k = Some (VStr tok, e)"
    using releaseIssLock_other [OF assms(1) l1 assms(2)] assms(4) l1 by (simp add: IssuanceEnd_def)
  obtain r' s' where b: "do1 ex (SETNX ?k tok3 issLockTTL) s2 = (r', s')" by (meson surj_pair)
  have "r' = Inr (RBool False) \<or> (\<exists>e. r' = Inl e)"
  proof (cases r')
    case (Inr x)
    then obtain v where "steady {?k} (view s2) v" "cmd_sem (SETNX ?k tok3 issLockTTL) v = (x, view s')"
      using valkey.do1_ok [OF assms(1)] b by metis
    then show ?thesis using l2 Inr by (auto simp: steady_def)
  qed simp
  then have "r3 = Inl ErrIssuanceInFlight \<or> (\<exists>e. r3 = Inl (IssValkey e))"
    using assms(5) b by (auto simp: IssuanceBegin_def)
  then show ?thesis using t l2 by (simp add: str_of_def)
qed

definition demo_issuing :: vstate where
  "demo_issuing = \<lparr>clock = 0, keyspace = [issLockKey ''a'' \<mapsto> (VStr ''t1'', Some 15000)]\<rparr>"

lemma iss_keys_distinct [simp]: "issuanceKey n \<noteq> issLockKey m" "issLockKey m \<noteq> issuanceKey n"
  by (simp_all add: issuanceKey_def issLockKey_def)

lemma demo_issuance:
  "IssuanceBegin mem_exec ''t1'' ''a'' 1 demo_empty = (Inr (Granted ''t1''), demo_issuing)"
  "IssuanceEnd mem_exec ''a'' ''t2'' demo_issuing = (Inr (), demo_issuing)"
  "IssuanceBegin mem_exec ''t3'' ''a'' 1 demo_issuing = (Inl ErrIssuanceInFlight, demo_issuing)"
  by (simp_all add: IssuanceBegin_def IssuanceEnd_def releaseIssLock_def do1_def mem_exec_def net_exec_def demo_empty_def
      demo_issuing_def live_def is_str_def str_of_def put_def ttl_at_def to_ms_def issLockTTL_def)

theorem IssuanceBegin_exclusive_witness:
  "str_of demo_issuing (issLockKey ''a'') = Some ''t1''
   \<and> fst (IssuanceBegin mem_exec ''t3'' ''a'' 1 demo_issuing) = Inl ErrIssuanceInFlight"
  using IssuanceBegin_exclusive [OF mem_steady _ demo_issuance] demo_issuance(3) by simp

text \<open>
  The weekly issuance cap holds: if the counter is undisturbed between the grant and the
  record (the lock serialises orders of one name), recording the issued certificate leaves the
  counter at most at the cap, whether or not the record call itself reports an error.
\<close>

lemma Issuance_weekly_cap:
  assumes "valkey ex view (steady {issuanceKey name})"
    and "IssuanceBegin ex tok name maxN s = (Inr (Granted t), s1)"
    and "IssuanceRecord ex name s1 = (r, s2)"
  shows "counter (view s1) (issuanceKey name) < maxN \<and> counter (view s2) (issuanceKey name) \<le> maxN"
proof -
  let ?k = "issuanceKey name"
  obtain s0 x where g: "do1 ex (GET ?k) s0 = (Inr x, s1)"
    and x: "x = RNil \<and> 0 < maxN \<or> (\<exists>y n. x = RStr y \<and> parse_int y = Some n \<and> n < maxN)"
    by (rule IssuanceBegin_Granted [OF assms(2)])
  obtain v where v: "cmd_sem (GET ?k) v = (x, view s1)" "\<not> is_err x" by (rule valkey.do1_ok [OF assms(1) g])
  then have lt: "counter (view s1) ?k < maxN"
    using x by (auto simp: counter_def split: if_splits option.splits)
  let ?cs = "[INCR ?k, EXPIRE_NX ?k issWindowTTL]"
  obtain r0 where "ex ?cs s1 = (r0, s2)"
    using assms(3) by (auto simp: IssuanceRecord_def split: prod.splits sum.splits)
  then obtain n rs where run: "runs (steady {?k}) (take n ?cs) (view s1) rs (view s2)"
    using valkey.exec_ok [OF assms(1)] valkey.exec_fail [OF assms(1)]
    by (cases r0) (metis, metis order_refl take_all_iff)
  have incr: "counter (snd (cmd_sem (INCR ?k) w)) ?k \<le> counter w ?k + 1" for w
    using INCRBY_counter(2) [of ?k 1 w] by (cases "is_err (fst (cmd_sem (INCR ?k) w))")
      (auto split: option.splits if_splits)
  have exp: "counter (snd (cmd_sem (EXPIRE_NX ?k issWindowTTL) w)) ?k = counter w ?k" for w
    by (rule counter_EXPIRE_NX) (simp add: to_sec_ms_def issWindowTTL_def)
  have env: "counter w' ?k = counter w ?k" if "steady {?k} w w'" for w w'
    using that by (auto simp: steady_def intro: counter_cong)
  consider "take n ?cs = []" | "take n ?cs = [INCR ?k]" | "take n ?cs = ?cs"
    by (cases n; cases "n - 1") auto
  then have "counter (view s2) ?k \<le> counter (view s1) ?k + 1"
  proof cases
    case 2
    with run obtain v1 r where "steady {?k} (view s1) v1" "cmd_sem (INCR ?k) v1 = (r, view s2)"
      by (auto simp: runs_single simp del: cmd_sem.simps)
    then show ?thesis using env incr [of v1] by simp
  next
    case 3
    with run obtain v1 r1 v2 v3 r2 where "steady {?k} (view s1) v1" "cmd_sem (INCR ?k) v1 = (r1, v2)"
      "steady {?k} v2 v3" "cmd_sem (EXPIRE_NX ?k issWindowTTL) v3 = (r2, view s2)"
      by (auto simp: runs_Cons_iff runs_Nil_iff simp del: cmd_sem.simps)
    then show ?thesis using env incr [of v1] exp [of v3] by (metis snd_conv)
  qed (use run in \<open>auto simp: runs_Nil_iff\<close>)
  then show ?thesis using lt by simp
qed

lemma demo_record:
  "IssuanceRecord mem_exec ''a'' demo_issuing
   = (Inr (), \<lparr>clock = 0, keyspace = [issLockKey ''a'' \<mapsto> (VStr ''t1'', Some 15000),
        issuanceKey ''a'' \<mapsto> (VStr (itoa 1), Some 604800000)]\<rparr>)"
  by (simp add: IssuanceRecord_def mem_exec_def net_exec_def demo_issuing_def live_def is_str_def str_of_def put_def
      incr_sem_def expiry_of_def expire_at_def to_sec_ms_def issWindowTTL_def)

lemma Issuance_weekly_cap_witness:
  "counter demo_issuing (issuanceKey ''a'') < 1
   \<and> counter \<lparr>clock = 0, keyspace = [issLockKey ''a'' \<mapsto> (VStr ''t1'', Some 15000),
        issuanceKey ''a'' \<mapsto> (VStr (itoa 1), Some 604800000)]\<rparr> (issuanceKey ''a'') \<le> 1"
  using Issuance_weekly_cap [OF mem_steady demo_issuance(1) demo_record] by simp

subsection \<open>Waiting for a certificate authority\<close>

text \<open>
  A cooldown is never shortened, even if the old one runs out while it is being renewed: after
  \<open>SetCACooldown\<close> of \<open>d\<close> the authority's key expires no earlier than \<open>d\<close> (rounded up to whole
  seconds) from now and no earlier than it did before.
\<close>

lemma SetCACooldown_never_shortens:
  assumes "valkey ex view (undisturbed {cooldownKey ca})"
    and "SetCACooldown ex ca d s = (Inr (), s')"
    and "\<forall>x t. live (view s) (cooldownKey ca) = Some (x, t) \<longrightarrow> t \<noteq> None"
  shows "\<exists>t. expiry_of (view s') (cooldownKey ca) = Some t
    \<and> clock (view s) + to_ms (cooldown_secs d) \<le> t \<and> d \<le> to_ms (cooldown_secs d) * Millisecond
    \<and> (\<forall>t0. expiry_of (view s) (cooldownKey ca) = Some t0 \<longrightarrow> t0 \<le> t)"
proof -
  let ?k = "cooldownKey ca" and ?d = "cooldown_secs d"
  define D where "D = to_ms ?d"
  define q where "q = max ((d + Second - 1) div Second) 1"
  have q: "?d = q * Second" "1 \<le> q" by (auto simp: q_def cooldown_secs_def max_def)
  then have D: "to_sec_ms ?d = D" "0 < D" "ttl_at v ?d = Some (clock v + D)" for v
    by (auto simp: D_def to_ms_def to_sec_ms_def ttl_at_def)
  have "d \<le> ?d" by (simp add: cooldown_secs_def)
  then have dD: "d \<le> D * Millisecond" using q by (auto simp: D_def to_ms_def)
  obtain v1 r1 v2 v3 r2 where v1: "undisturbed {?k} (view s) v1" and e: "cmd_sem (EXPIRE_GT ?k ?d) v1 = (r1, v2)"
    and v3: "undisturbed {?k} v2 v3" and n: "cmd_sem (SETNX ?k ''1'' ?d) v3 = (r2, view s')"
    using assms(2) valkey.exec_ok [OF assms(1)]
    by (fastforce simp: SetCACooldown_def Let_def runs_Cons_iff runs_Nil_iff simp del: cmd_sem.simps split: prod.splits sum.splits)
  have clk: "clock (view s) \<le> clock v1" "clock v2 = clock v1" "clock v1 \<le> clock v3"
    using v1 v3 e clock_cmd_sem [of "EXPIRE_GT ?k ?d" v1] by (auto simp: undisturbed_def simp del: cmd_sem.simps)
  have gt: "expiry_of v1 ?k = Some t0 \<Longrightarrow> expiry_of v2 ?k = Some (max t0 (clock v1 + D))" for t0
    using e D(1,2) by (auto simp: expiry_of_def live_expire_at split: option.splits if_splits)
  have "view s' = (if live v3 ?k = None then put v3 ?k (VStr ''1'') (Some (clock v3 + D)) else v3)"
    using n D(3) by (auto split: if_splits)
  then have nx: "expiry_of (view s') ?k = (case live v3 ?k of None \<Rightarrow> Some (clock v3 + D) | Some (_, t) \<Rightarrow> t)"
    using D(2) by (auto simp: expiry_of_def live_put split: option.split)
  have later: "live v' ?k = (case live v ?k of Some (x, Some t) \<Rightarrow> if clock v' < t then Some (x, Some t) else None | y \<Rightarrow> y)"
    if "undisturbed {?k} v v'" for v v'
    using that by (intro live_later) (auto simp: undisturbed_def)
  show ?thesis
  proof (cases "expiry_of v1 ?k")
    case (Some t0)
    let ?T = "max t0 (clock v1 + D)"
    obtain x where "live v2 ?k = Some (x, Some ?T)"
      using gt [OF Some] by (auto simp: expiry_of_def split: option.splits)
    then have "expiry_of (view s') ?k = Some (if clock v3 < ?T then ?T else clock v3 + D)"
      using nx later [OF v3] by auto
    moreover have "\<forall>t. expiry_of (view s) ?k = Some t \<longrightarrow> t = t0"
      using Some later [OF v1] by (auto simp: expiry_of_def split: option.splits if_splits)
    ultimately show ?thesis using clk dD D(2) unfolding D_def by auto
  next
    case None
    then have l1: "live v1 ?k = None"
      using later [OF v1] assms(3) by (auto simp: expiry_of_def split: option.splits if_splits)
    then have "live v2 ?k = None" using e by (auto simp: expiry_of_def)
    then have "expiry_of (view s') ?k = Some (clock v3 + D)" using nx later [OF v3] by simp
    moreover have "\<forall>t. expiry_of (view s) ?k = Some t \<longrightarrow> t \<le> clock v1"
      using l1 later [OF v1] by (auto simp: expiry_of_def split: option.splits if_splits)
    ultimately show ?thesis using clk dD D(2) unfolding D_def by fastforce
  qed
qed

lemma demo_cooldown:
  "SetCACooldown net_exec ''ca'' 1500000000 (\<lparr>clock = 0, keyspace = [cooldownKey ''ca'' \<mapsto> (VStr ''1'', Some 5000)]\<rparr>, [Some 7])
   = (Inr (), (\<lparr>clock = 7, keyspace = [cooldownKey ''ca'' \<mapsto> (VStr ''1'', Some 5000)]\<rparr>, []))"
  by (simp add: SetCACooldown_def cooldown_secs_def Let_def net_exec_def expiry_of_def live_def to_sec_ms_def)

lemma SetCACooldown_never_shortens_witness:
  "\<exists>t. expiry_of \<lparr>clock = 7, keyspace = [cooldownKey ''ca'' \<mapsto> (VStr ''1'', Some 5000)]\<rparr> (cooldownKey ''ca'') = Some t
     \<and> 2000 \<le> t \<and> 5000 \<le> t"
  using SetCACooldown_never_shortens [OF net_undisturbed demo_cooldown]
  by (auto simp: expiry_of_def live_def to_ms_def cooldown_secs_def)

end
