(* ===== verification/Wire_Frames.thy ===== *)
theory Wire_Frames
  imports Tunnel_Prelude
begin

text \<open>
  The control-stream codec of \<^verbatim>\<open>src/internal/wire/frame.go\<close> and the frame reader of
  \<^verbatim>\<open>src/internal/phoneconn/stream.go\<close>. A frame is \<open>[type:1][payloadLen:4 BE][payload]\<close>.
  The payload is the JSON text: encoding it (\<^verbatim>\<open>json.Marshal\<close>) is an argument of the model,
  a marshal result that may be an error. Shown: decoding inverts encoding, the decoder
  accepts exactly the images of the encoder, and the streaming reader cuts a byte stream of
  frames at the same places the writer joined them.
\<close>

datatype ControlType = ControlType byte

definition CtrlOpen :: ControlType where "CtrlOpen = ControlType 1"
definition CtrlPing :: ControlType where "CtrlPing = ControlType 2"
definition CtrlPong :: ControlType where "CtrlPong = ControlType 3"
definition CtrlRenewNudge :: ControlType where "CtrlRenewNudge = ControlType 4"
definition CtrlMove :: ControlType where "CtrlMove = ControlType 5"

lemmas ctrl_defs = CtrlOpen_def CtrlPing_def CtrlPong_def CtrlRenewNudge_def CtrlMove_def

fun byte_of_ctrl :: "ControlType \<Rightarrow> byte" where
  "byte_of_ctrl (ControlType b) = b"

definition maxControlPayload :: nat where
  "maxControlPayload = 1048576"

definition ChunkSize :: nat where
  "ChunkSize = 16 * 1024"

datatype wire_err = MarshalFailed string | ErrControlTooLarge | ErrControlMalformed

text \<open>\<^verbatim>\<open>binary.BigEndian.PutUint32\<close> and \<^verbatim>\<open>Uint32\<close>.\<close>

definition put_uint32 :: "32 word \<Rightarrow> bytes" where
  "put_uint32 w = [ucast (drop_bit 24 w), ucast (drop_bit 16 w), ucast (drop_bit 8 w), ucast w]"

definition uint32_be :: "byte \<Rightarrow> byte \<Rightarrow> byte \<Rightarrow> byte \<Rightarrow> 32 word" where
  "uint32_be b0 b1 b2 b3 =
     or (or (push_bit 24 (ucast b0)) (push_bit 16 (ucast b1)))
        (or (push_bit 8 (ucast b2)) (ucast b3))"

text \<open>A \<^verbatim>\<open>nil\<close> payload gives an empty body; otherwise the body is the marshal result.\<close>

definition EncodeControl :: "ControlType \<Rightarrow> (string + bytes) option \<Rightarrow> wire_err + bytes" where
  "EncodeControl t payload =
     (case payload of
        Some (Inl e) \<Rightarrow> Inl (MarshalFailed e)
      | _ \<Rightarrow>
        (let body = (case payload of Some (Inr b) \<Rightarrow> b | _ \<Rightarrow> [])
         in if length body > maxControlPayload then Inl ErrControlTooLarge
            else Inr (byte_of_ctrl t # put_uint32 (word_of_nat (length body)) @ body)))"

fun DecodeControl :: "bytes \<Rightarrow> wire_err + ControlType \<times> bytes" where
  "DecodeControl (t # b0 # b1 # b2 # b3 # rest) =
     (let n = unat (uint32_be b0 b1 b2 b3)
      in if n > maxControlPayload \<or> n \<noteq> length rest then Inl ErrControlMalformed
         else Inr (ControlType t, rest))"
| "DecodeControl _ = Inl ErrControlMalformed"

text \<open>
  The reader works on a byte stream that holds \<open>inp\<close> and then ends or fails:
  \<^verbatim>\<open>io.ReadFull\<close> of \<open>n\<close> bytes takes a prefix of that length, or fails with the stream's
  end condition. \<open>ReadErr\<close> stands for that transport error.
\<close>

datatype read_err = ReadErr | ReadTooLarge

definition ReadFull :: "nat \<Rightarrow> bytes \<Rightarrow> (bytes \<times> bytes) option" where
  "ReadFull n inp = (if n \<le> length inp then Some (take n inp, drop n inp) else None)"

definition readControlFrame :: "bytes \<Rightarrow> read_err + bytes \<times> bytes" where
  "readControlFrame inp =
     (case ReadFull 5 inp of
        Some ([t, b0, b1, b2, b3], rest) \<Rightarrow>
          (let n = unat (uint32_be b0 b1 b2 b3)
           in if n > 1048576 then Inl ReadTooLarge
              else (case ReadFull n rest of
                      None \<Rightarrow> Inl ReadErr
                    | Some (body, rest') \<Rightarrow> Inr ([t, b0, b1, b2, b3] @ body, rest')))
      | _ \<Rightarrow> Inl ReadErr)"

text \<open>
  The read side of a control stream: every frame up to the error that ends it, as the
  loop of \<^verbatim>\<open>readPump\<close> sees them. Each frame takes at least five bytes, so the loop ends.
\<close>

lemma readControlFrame_shorter:
  "readControlFrame inp = Inr (frame, rest) \<Longrightarrow> length rest < length inp"
  by (auto simp: readControlFrame_def ReadFull_def Let_def split: if_splits list.splits)

function read_frames :: "bytes \<Rightarrow> bytes list \<times> read_err" where
  "read_frames inp =
     (case readControlFrame inp of
        Inl e \<Rightarrow> ([], e)
      | Inr (frame, rest) \<Rightarrow> (let (fs, e) = read_frames rest in (frame # fs, e)))"
  by pat_completeness auto
termination
  by (relation "measure length") (auto dest: readControlFrame_shorter)

declare read_frames.simps [simp del]

subsection \<open>Big-endian words\<close>

lemma uint32_be_put_uint32 [wire_simps]:
  "uint32_be (ucast (drop_bit 24 w)) (ucast (drop_bit 16 w)) (ucast (drop_bit 8 w)) (ucast w) = w"
proof (rule bit_word_eqI)
  fix n :: nat
  assume "n < LENGTH(32)"
  then consider "n < 8" | "8 \<le> n" "n < 16" | "16 \<le> n" "n < 24" | "24 \<le> n" "n < 32"
    by fastforce
  then show "bit (uint32_be (ucast (drop_bit 24 w)) (ucast (drop_bit 16 w))
        (ucast (drop_bit 8 w)) (ucast w)) n \<longleftrightarrow> bit w n"
    by cases (auto simp: uint32_be_def bit_simps)
qed

lemma length_put_uint32 [simp]: "length (put_uint32 w) = 4"
  by (simp add: put_uint32_def)

lemma put_uint32_uint32_be [wire_simps]: "put_uint32 (uint32_be b0 b1 b2 b3) = [b0, b1, b2, b3]"
proof -
  have "ucast (drop_bit 24 (uint32_be b0 b1 b2 b3)) = b0"
       "ucast (drop_bit 16 (uint32_be b0 b1 b2 b3)) = b1"
       "ucast (drop_bit 8 (uint32_be b0 b1 b2 b3)) = b2"
       "ucast (uint32_be b0 b1 b2 b3) = b3"
    by (rule bit_word_eqI; auto simp: uint32_be_def bit_simps dest: bit_imp_le_length)+
  then show ?thesis by (simp add: put_uint32_def)
qed

lemma put_uint32_of_unat: "unat w = n \<Longrightarrow> put_uint32 (word_of_nat n) = put_uint32 w"
  by auto

lemma unat_len32 [wire_simps]:
  "n \<le> maxControlPayload \<Longrightarrow> unat (word_of_nat n :: 32 word) = n"
  by (simp add: maxControlPayload_def unat_of_nat)

lemma EncodeControl_body:
  assumes "EncodeControl t payload = Inr frame"
  obtains body where "length body \<le> maxControlPayload"
    and "frame = byte_of_ctrl t # put_uint32 (word_of_nat (length body)) @ body"
    and "body = (case payload of Some (Inr b) \<Rightarrow> b | _ \<Rightarrow> [])"
  using assms by (auto simp: EncodeControl_def Let_def split: option.splits sum.splits if_splits)

lemma readControlFrame_frame:
  assumes "length body \<le> maxControlPayload"
  shows "readControlFrame ((t # put_uint32 (word_of_nat (length body)) @ body) @ more)
         = Inr (t # put_uint32 (word_of_nat (length body)) @ body, more)"
  using assms
  by (simp add: readControlFrame_def ReadFull_def put_uint32_def wire_simps)
    (simp add: maxControlPayload_def Let_def ReadFull_def)

lemma EncodeControl_not_Nil: "EncodeControl t payload = Inr frame \<Longrightarrow> frame \<noteq> []"
  by (elim EncodeControl_body) simp

lemma read_frames_frame:
  assumes "EncodeControl t payload = Inr frame"
  shows "read_frames (frame @ more) = (frame # fst (read_frames more), snd (read_frames more))"
  using assms
  by (elim EncodeControl_body)
    (subst read_frames.simps, simp add: readControlFrame_frame [simplified] split_beta)

subsection \<open>Properties\<close>

text \<open>
  C1. Decoding is exactly the inverse of encoding: \<open>DecodeControl\<close> accepts a byte string with a
  type and a payload if and only if \<open>EncodeControl\<close> of that type and payload produces that very
  byte string. So every frame the writer emits is read back unchanged, and no other byte
  string (short header, wrong length prefix, payload above 1 MiB, trailing bytes) is accepted.
\<close>

theorem DecodeControl_iff_EncodeControl:
  "DecodeControl data = Inr (t, body) \<longleftrightarrow> EncodeControl t (Some (Inr body)) = Inr data"
proof
  assume "DecodeControl data = Inr (t, body)"
  then show "EncodeControl t (Some (Inr body)) = Inr data"
    by (elim DecodeControl.elims)
      (auto simp: EncodeControl_def Let_def not_less put_uint32_of_unat wire_simps
        split: if_splits)
next
  assume "EncodeControl t (Some (Inr body)) = Inr data"
  then show "DecodeControl data = Inr (t, body)"
    by (elim EncodeControl_body, cases t) (simp add: put_uint32_def wire_simps)
qed

text \<open>
  The stream reader cuts frames where the writer joined them: reading a byte stream that is
  a concatenation of encoded frames followed by anything yields exactly those frames first,
  then what the rest of the stream yields by itself. No frame is split, merged or dropped.
\<close>

lemma read_frames_concat:
  assumes "\<forall>f \<in> set frames. \<exists>t payload. EncodeControl t payload = Inr f"
  shows "read_frames (concat frames @ more)
         = (frames @ fst (read_frames more), snd (read_frames more))"
  using assms by (induction frames) (auto simp: read_frames_frame)

lemma read_frames_concat_witness:
  "read_frames (concat [[2, 0, 0, 0, 0], [3, 0, 0, 0, 1, 65]] @ [4, 0])
   = ([[2, 0, 0, 0, 0], [3, 0, 0, 0, 1, 65]], ReadErr)"
proof -
  have "EncodeControl CtrlPing None = Inr [2, 0, 0, 0, 0]"
    "EncodeControl CtrlPong (Some (Inr [65])) = Inr [3, 0, 0, 0, 1, 65]"
    by (simp_all add: EncodeControl_def ctrl_defs maxControlPayload_def put_uint32_def)
  then have "\<forall>f \<in> set [[2, 0, 0, 0, 0], [3, 0, 0, 0, 1, 65]].
      \<exists>t payload. EncodeControl t payload = Inr f"
    by auto
  moreover have "read_frames [4, 0] = ([], ReadErr)"
    by (subst read_frames.simps) (simp add: readControlFrame_def ReadFull_def)
  ultimately show ?thesis
    using read_frames_concat [of "[[2, 0, 0, 0, 0], [3, 0, 0, 0, 1, 65]]" "[4, 0]"] by simp
qed

end
