(* ===== verification/Edge_Splice.thy ===== *)
theory Edge_Splice
  imports Limiter Wire_Frames
begin

text \<open>
  One public connection once it is spliced to its phone (\<^verbatim>\<open>splice\<close>, \<^verbatim>\<open>pacedCopy\<close>,
  \<^verbatim>\<open>parentGone\<close> and \<^verbatim>\<open>idlePoll\<close> of \<^verbatim>\<open>src/internal/edge/bridge.go\<close>). Three goroutines run:
  two copy loops and the policy watcher. The model is a step function over their joint state;
  an event is one pass of one goroutine's loop together with what the outside answered in
  that pass (bytes read, the limiter's verdict, whether the write succeeded, the clock), so a list
  of events is one interleaving.
\<close>

datatype close_reason =
    CloseClientClose | ClosePhoneClose | CloseBanEvict | CloseQuotaExhausted | CloseIdleTimeout
  | CloseMinRate | CloseEvicted | CloseServerShutdown | CloseAdminTerminate | CloseCertExpired
  | CloseError

record edge_policy =
  IdleTimeout :: duration
  MinRate :: int
  MinGrace :: duration

definition rollingWindow :: duration where "rollingWindow = Minute"

definition routeCheckInterval :: duration where "routeCheckInterval = 10 * Second"

definition idlePoll :: "edge_policy \<Rightarrow> duration" where
  "idlePoll p = (if IdleTimeout p > 0 \<and> IdleTimeout p < Second then IdleTimeout p else Second)"

subsection \<open>One direction\<close>

datatype copy_outcome = copySrcEOF | quotaHit | copyWriteErr

text \<open>
  One pass of the copy loop: the bytes \<^verbatim>\<open>src.Read\<close> returned (at most \<^verbatim>\<open>ChunkSize\<close>), the
  answer of \<^verbatim>\<open>Charge\<close>, how \<^verbatim>\<open>dst.Write\<close> ended, the clock after it, and whether the read also
  reported an error. A write took the whole slice (\<open>None\<close>) or failed after some of its bytes
  (\<open>Some n\<close>): an \<^verbatim>\<open>io.Writer\<close> that takes less than the slice returns an error. \<open>forwarded\<close> is
  what the destination received, the bytes of a failed write included; \<open>cnt\<close> is the counter.
\<close>

record copy_pass =
  rd :: bytes
  charged :: "(ChargeAction \<times> duration \<times> string) \<times> verr option"
  wr_fail :: "nat option"
  stamp :: int
  rd_err :: bool

record copy_state =
  forwarded :: bytes
  cnt :: int
  lastAct :: int
  recent :: int
  quota_hits :: "string list"

definition copy_iter :: "copy_pass \<Rightarrow> copy_state \<Rightarrow> copy_state \<times> copy_outcome option" where
  "copy_iter p st =
     (let after_read = (\<lambda>st. (st, if rd_err p then Some copySrcEOF else None)) in
      if rd p = [] then after_read st
      else case charged p of
        ((ChargeKill, _, win), None) \<Rightarrow> (st\<lparr>quota_hits := quota_hits st @ [win]\<rparr>, Some quotaHit)
      | _ \<Rightarrow>
          (case wr_fail p of
            Some n \<Rightarrow> (st\<lparr>forwarded := forwarded st @ take n (rd p)\<rparr>, Some copyWriteErr)
          | None \<Rightarrow> after_read
              (st\<lparr>forwarded := forwarded st @ rd p, cnt := cnt st + int (length (rd p)),
                  lastAct := stamp p, recent := recent st + int (length (rd p))\<rparr>)))"

text \<open>The whole loop over the passes it makes; \<open>None\<close> when it has not finished yet.\<close>

fun pacedCopy :: "copy_pass list \<Rightarrow> copy_state \<Rightarrow> copy_state \<times> copy_outcome option" where
  "pacedCopy [] st = (st, None)"
| "pacedCopy (p # ps) st =
     (case copy_iter p st of
        (st', Some out) \<Rightarrow> (st', Some out)
      | (st', None) \<Rightarrow> pacedCopy ps st')"

subsection \<open>Route liveness\<close>

text \<open>
  \<^verbatim>\<open>parentGone\<close>: the answers of \<^verbatim>\<open>LookupRoute\<close> (an error, or the bound node and connection
  if any) and of \<^verbatim>\<open>LookupNode\<close> for the node the stream was opened on.
\<close>

definition parentGone :: "string \<Rightarrow> 'e + (string \<times> string) option \<Rightarrow> 'e + string option \<Rightarrow> bool" where
  "parentGone connID route node =
     (case route of
        Inl _ \<Rightarrow> False
      | Inr None \<Rightarrow> True
      | Inr (Some (_, cur)) \<Rightarrow>
          if cur = connID then False
          else (case node of Inl _ \<Rightarrow> False | Inr alive \<Rightarrow> alive = None))"

subsection \<open>The policy watcher\<close>

text \<open>The loop that drops the samples older than the window but one.\<close>

fun drop_old :: "int \<Rightarrow> (int \<times> int) list \<Rightarrow> (int \<times> int) list" where
  "drop_old cutoff (a # b # ss) = (if fst b \<le> cutoff then drop_old cutoff (b # ss) else a # b # ss)"
| "drop_old cutoff ss = ss"

record watch_state =
  samples :: "(int \<times> int) list"
  nextRouteCheck :: int

datatype watch_result = Close close_reason "int option" | Keep watch_state int

text \<open>
  One tick at time \<open>now\<close>: \<open>act\<close> is the stream's last activity, \<open>tot\<close> its byte count, \<open>gone\<close>
  what the route check would say. Both results carry the rolling
  byte count the tick stored, if it got that far.
\<close>

definition watch_tick ::
  "edge_policy \<Rightarrow> int \<Rightarrow> int \<Rightarrow> int \<Rightarrow> int \<Rightarrow> bool \<Rightarrow> watch_state \<Rightarrow> watch_result" where
  "watch_tick pol started now act tot gone w =
     (if IdleTimeout pol > 0 \<and> now - act > IdleTimeout pol then Close CloseIdleTimeout None
      else
        let ss = drop_old (now - rollingWindow) (samples w @ [(now, tot)]);
            rolling = tot - snd (hd ss);
            age = now - started
        in if MinRate pol > 0 \<and> age \<ge> rollingWindow \<and> age > MinGrace pol \<and> rolling < MinRate pol
           then Close CloseMinRate (Some rolling)
           else if now \<ge> nextRouteCheck w then
             (if gone then Close ClosePhoneClose (Some rolling)
              else Keep \<lparr>samples = ss, nextRouteCheck = now + routeCheckInterval\<rparr> rolling)
           else Keep (w\<lparr>samples := ss\<rparr>) rolling)"

text \<open>The watcher's loop over the ticks it sees, until it closes the stream.\<close>

fun watch_loop ::
  "edge_policy \<Rightarrow> int \<Rightarrow> (int \<times> int \<times> int \<times> bool) list \<Rightarrow> watch_state \<Rightarrow> int \<Rightarrow> watch_result" where
  "watch_loop pol started [] w rolling = Keep w rolling"
| "watch_loop pol started ((now, act, tot, gone) # ts) w rolling =
     (case watch_tick pol started now act tot gone w of
        Close r ro \<Rightarrow> Close r ro
      | Keep w' ro \<Rightarrow> watch_loop pol started ts w' ro)"

text \<open>The reason given when the stream's context is cancelled, from the flags of the stream.\<close>

definition cancel_reason :: "bool \<Rightarrow> bool \<Rightarrow> bool \<Rightarrow> bool \<Rightarrow> bool \<Rightarrow> close_reason" where
  "cancel_reason banned terminated phoneGone parentErr evicted =
     (if banned then CloseBanEvict
      else if terminated then CloseAdminTerminate
      else if phoneGone \<and> \<not> parentErr then ClosePhoneClose
      else if evicted then CloseEvicted
      else CloseServerShutdown)"

subsection \<open>The three goroutines together\<close>

datatype direction = Upload | Download

record splice_state =
  reason :: "close_reason option"
  closed :: bool
  activity :: int
  recent_bytes :: int
  up :: copy_state
  up_done :: bool
  down :: copy_state
  down_done :: bool
  watch :: watch_state
  watching :: bool

datatype splice_event =
    Copy direction copy_pass
  | CopyPanic direction
  | Tick int bool
  | Cancelled bool bool bool bool bool
  | WatchPanic
  | CascadeClose

definition setReason :: "close_reason \<Rightarrow> splice_state \<Rightarrow> splice_state" where
  "setReason r st = (case reason st of None \<Rightarrow> st\<lparr>reason := Some r\<rparr> | Some _ \<Rightarrow> st)"

definition closeBoth :: "splice_state \<Rightarrow> splice_state" where
  "closeBoth st = st\<lparr>closed := True\<rparr>"

definition outcome_reason :: "direction \<Rightarrow> copy_outcome \<Rightarrow> close_reason" where
  "outcome_reason d out =
     (case out of
        quotaHit \<Rightarrow> CloseQuotaExhausted
      | copySrcEOF \<Rightarrow> (case d of Upload \<Rightarrow> CloseClientClose | Download \<Rightarrow> ClosePhoneClose)
      | copyWriteErr \<Rightarrow> CloseError)"

text \<open>The two copies share the stream's activity stamp and its recent-byte count.\<close>

definition shared :: "splice_state \<Rightarrow> copy_state \<Rightarrow> copy_state" where
  "shared st c = c\<lparr>lastAct := activity st, recent := recent_bytes st\<rparr>"

definition publish :: "copy_state \<Rightarrow> splice_state \<Rightarrow> splice_state" where
  "publish c st = st\<lparr>activity := lastAct c, recent_bytes := recent c\<rparr>"

definition copy_event :: "direction \<Rightarrow> copy_pass \<Rightarrow> splice_state \<Rightarrow> splice_state" where
  "copy_event d p st =
     (case d of
        Upload \<Rightarrow>
          if up_done st then st
          else (case copy_iter p (shared st (up st)) of
                  (c, None) \<Rightarrow> publish c (st\<lparr>up := c\<rparr>)
                | (c, Some out) \<Rightarrow>
                    setReason (outcome_reason d out) (publish c (st\<lparr>up := c, up_done := True\<rparr>)))
      | Download \<Rightarrow>
          if down_done st then st
          else (case copy_iter p (shared st (down st)) of
                  (c, None) \<Rightarrow> publish c (st\<lparr>down := c\<rparr>)
                | (c, Some out) \<Rightarrow>
                    setReason (outcome_reason d out) (publish c (st\<lparr>down := c, down_done := True\<rparr>))))"

definition splice_step :: "edge_policy \<Rightarrow> int \<Rightarrow> splice_event \<Rightarrow> splice_state \<Rightarrow> splice_state" where
  "splice_step pol started ev st =
     (case ev of
        Copy d p \<Rightarrow> copy_event d p st
      | CopyPanic Upload \<Rightarrow>
          if up_done st then st else closeBoth (setReason CloseError (st\<lparr>up_done := True\<rparr>))
      | CopyPanic Download \<Rightarrow>
          if down_done st then st else closeBoth (setReason CloseError (st\<lparr>down_done := True\<rparr>))
      | Tick now gone \<Rightarrow>
          if \<not> watching st then st
          else (case watch_tick pol started now (activity st) (cnt (up st) + cnt (down st)) gone
                       (watch st) of
                  Close r rolling \<Rightarrow>
                    (closeBoth (setReason r st))
                      \<lparr>watching := False, recent_bytes := (case rolling of None \<Rightarrow> recent_bytes st | Some n \<Rightarrow> n)\<rparr>
                | Keep w rolling \<Rightarrow> st\<lparr>watch := w, recent_bytes := rolling\<rparr>)
      | Cancelled banned terminated phoneGone parentErr evicted \<Rightarrow>
          if \<not> watching st then st
          else (closeBoth (setReason (cancel_reason banned terminated phoneGone parentErr evicted) st))
                 \<lparr>watching := False\<rparr>
      | WatchPanic \<Rightarrow>
          if \<not> watching st then st else (closeBoth (setReason CloseError st))\<lparr>watching := False\<rparr>
      | CascadeClose \<Rightarrow> if up_done st \<or> down_done st then closeBoth st else st)"

text \<open>\<^verbatim>\<open>splice\<close> returns when both copies are done: the first reason set, or the default.\<close>

definition splice ::
  "edge_policy \<Rightarrow> int \<Rightarrow> splice_event list \<Rightarrow> splice_state \<Rightarrow> (close_reason \<times> splice_state) option" where
  "splice pol started evs st =
     (let st' = fold (splice_step pol started) evs st in
      if up_done st' \<and> down_done st'
      then Some (case reason st' of None \<Rightarrow> CloseClientClose | Some r \<Rightarrow> r, st')
      else None)"

definition splice_init :: "int \<Rightarrow> int \<Rightarrow> splice_state" where
  "splice_init act now =
     (let c = \<lparr>forwarded = [], cnt = 0, lastAct = act, recent = 0, quota_hits = []\<rparr> in
      \<lparr>reason = None, closed = False, activity = act, recent_bytes = 0, up = c, up_done = False, down = c, down_done = False,
       watch = \<lparr>samples = [], nextRouteCheck = now + routeCheckInterval\<rparr>, watching = True\<rparr>)"

subsection \<open>Properties\<close>

definition quota_kill :: "copy_pass \<Rightarrow> bool" where
  "quota_kill p \<longleftrightarrow> rd p \<noteq> [] \<and> fst (fst (charged p)) = ChargeKill \<and> snd (charged p) = None"

lemma copy_iter_cases:
  assumes "copy_iter p st = (st', out)"
  shows "quota_kill p \<and> out = Some quotaHit \<and> forwarded st' = forwarded st \<and> cnt st' = cnt st
    \<or> \<not> quota_kill p \<and> rd p \<noteq> [] \<and> out = Some copyWriteErr \<and> cnt st' = cnt st
      \<and> (\<exists>n. wr_fail p = Some n \<and> forwarded st' = forwarded st @ take n (rd p))
    \<or> \<not> quota_kill p \<and> (rd p \<noteq> [] \<longrightarrow> wr_fail p = None) \<and> out = (if rd_err p then Some copySrcEOF else None)
      \<and> forwarded st' = forwarded st @ rd p \<and> cnt st' = cnt st + int (length (rd p))"
  using assms
  by (auto simp: copy_iter_def quota_kill_def Let_def split: if_splits prod.splits option.splits ChargeAction.splits)


definition demo_pass :: "bytes \<Rightarrow> ChargeAction \<Rightarrow> bool \<Rightarrow> copy_pass" where
  "demo_pass b a e = \<lparr>rd = b, charged = ((a, 0, ''day''), None), wr_fail = None, stamp = 1, rd_err = e\<rparr>"

definition demo_copy :: copy_state where
  "demo_copy = \<lparr>forwarded = [], cnt = 0, lastAct = 0, recent = 0, quota_hits = []\<rparr>"

definition demo_passes :: "copy_pass list" where
  "demo_passes = [demo_pass [1, 2] ChargeProceed False, (demo_pass [3, 4, 5] ChargeProceed False)\<lparr>wr_fail := Some 2\<rparr>]"


text \<open>What each event must show to make a given reason the stream's close reason.\<close>

definition copy_done :: "direction \<Rightarrow> splice_state \<Rightarrow> bool" where
  "copy_done d st = (case d of Upload \<Rightarrow> up_done st | Download \<Rightarrow> down_done st)"

definition rolling_bytes :: "int \<Rightarrow> splice_state \<Rightarrow> int" where
  "rolling_bytes now st =
     (let tot = cnt (up st) + cnt (down st) in
      tot - snd (hd (drop_old (now - rollingWindow) (samples (watch st) @ [(now, tot)]))))"

fun triggers :: "edge_policy \<Rightarrow> int \<Rightarrow> splice_state \<Rightarrow> splice_event \<Rightarrow> close_reason \<Rightarrow> bool" where
  "triggers pol started st (Copy d p) r \<longleftrightarrow> \<not> copy_done d st \<and>
     (if quota_kill p then r = CloseQuotaExhausted
      else if rd p \<noteq> [] \<and> wr_fail p \<noteq> None then r = CloseError
      else rd_err p \<and> r = (if d = Upload then CloseClientClose else ClosePhoneClose))"
| "triggers pol started st (CopyPanic d) r \<longleftrightarrow> \<not> copy_done d st \<and> r = CloseError"
| "triggers pol started st (Tick now gone) r \<longleftrightarrow> watching st \<and>
     (if 0 < IdleTimeout pol \<and> now - activity st > IdleTimeout pol then r = CloseIdleTimeout
      else if 0 < MinRate pol \<and> now - started \<ge> rollingWindow \<and> now - started > MinGrace pol
        \<and> rolling_bytes now st < MinRate pol then r = CloseMinRate
      else gone \<and> now \<ge> nextRouteCheck (watch st) \<and> r = ClosePhoneClose)"
| "triggers pol started st (Cancelled b t g p e) r \<longleftrightarrow> watching st \<and> r = cancel_reason b t g p e"
| "triggers pol started st WatchPanic r \<longleftrightarrow> watching st \<and> r = CloseError"
| "triggers pol started st CascadeClose r \<longleftrightarrow> False"

lemma copy_iter_outcome:
  assumes "copy_iter p c = (c', out)"
  shows "out = (if quota_kill p then Some quotaHit else if rd p \<noteq> [] \<and> wr_fail p \<noteq> None then Some copyWriteErr
                else if rd_err p then Some copySrcEOF else None)"
  using copy_iter_cases [OF assms] by auto

lemma copy_iter_cnt:
  assumes "copy_iter p c = (c', out)"
  shows "cnt c \<le> int (length (forwarded c)) \<Longrightarrow> cnt c' \<le> int (length (forwarded c'))"
    "wr_fail p = None \<Longrightarrow> cnt c = int (length (forwarded c)) \<Longrightarrow> cnt c' = int (length (forwarded c'))"
  using copy_iter_cases [OF assms] by auto

definition splice_inv :: "splice_state \<Rightarrow> bool" where
  "splice_inv st \<longleftrightarrow>
     cnt (up st) \<le> int (length (forwarded (up st))) \<and> cnt (down st) \<le> int (length (forwarded (down st)))
     \<and> (up_done st \<or> down_done st \<longrightarrow> reason st \<noteq> None)"

text \<open>No write of an event fails.\<close>

definition writes_ok :: "splice_event \<Rightarrow> bool" where
  "writes_ok ev \<longleftrightarrow> (\<forall>d p. ev = Copy d p \<longrightarrow> wr_fail p = None)"

definition exact_count :: "splice_state \<Rightarrow> bool" where
  "exact_count st \<longleftrightarrow>
     cnt (up st) = int (length (forwarded (up st))) \<and> cnt (down st) = int (length (forwarded (down st)))"

lemmas splice_defs = splice_step_def copy_event_def publish_def closeBoth_def setReason_def copy_done_def
  outcome_reason_def

lemma splice_inv_step:
  assumes "splice_inv st"
  shows "splice_inv (splice_step pol started ev st)"
proof (cases ev)
  case (Copy d p)
  obtain u ou where u: "copy_iter p (shared st (up st)) = (u, ou)" by (meson surj_pair)
  obtain v ov where v: "copy_iter p (shared st (down st)) = (v, ov)" by (meson surj_pair)
  show ?thesis using copy_iter_cnt(1) [OF u] copy_iter_cnt(1) [OF v] assms Copy u v
    by (auto simp: splice_inv_def shared_def splice_defs split: direction.split option.split)
qed (use assms in \<open>auto simp: splice_inv_def splice_defs split: option.split direction.split watch_result.split\<close>)

lemma exact_count_step:
  assumes "exact_count st" "writes_ok ev"
  shows "exact_count (splice_step pol started ev st)"
proof (cases ev)
  case (Copy d p)
  obtain u ou where u: "copy_iter p (shared st (up st)) = (u, ou)" by (meson surj_pair)
  obtain v ov where v: "copy_iter p (shared st (down st)) = (v, ov)" by (meson surj_pair)
  have "wr_fail p = None" using assms(2) Copy by (simp add: writes_ok_def)
  then show ?thesis using copy_iter_cnt(2) [OF u] copy_iter_cnt(2) [OF v] assms(1) Copy u v
    by (auto simp: exact_count_def shared_def splice_defs split: direction.split option.split)
qed (use assms in \<open>auto simp: exact_count_def splice_defs split: option.split direction.split watch_result.split\<close>)

lemma exact_count_fold:
  "exact_count st \<Longrightarrow> list_all writes_ok evs \<Longrightarrow> exact_count (fold (splice_step pol started) evs st)"
  by (induction evs arbitrary: st) (auto simp: exact_count_step)

lemma splice_inv_fold: "splice_inv st \<Longrightarrow> splice_inv (fold (splice_step pol started) evs st)"
  by (induction evs arbitrary: st) (auto simp: splice_inv_step)

lemma splice_step_reason:
  assumes "reason st = None"
  shows "reason (splice_step pol started ev st) = Some r \<longleftrightarrow> triggers pol started st ev r"
proof (cases ev)
  case (Copy d p)
  obtain u ou where u: "copy_iter p (shared st (up st)) = (u, ou)" by (meson surj_pair)
  obtain v ov where v: "copy_iter p (shared st (down st)) = (v, ov)" by (meson surj_pair)
  show ?thesis using copy_iter_outcome [OF u] copy_iter_outcome [OF v] assms Copy u v
    by (cases d) (auto simp: splice_defs)
next
  case (Tick now gone)
  then show ?thesis using assms
    by (auto simp: splice_defs watch_tick_def rolling_bytes_def Let_def)
next
  case (CopyPanic d)
  then show ?thesis using assms by (cases d) (auto simp: splice_defs)
qed (use assms in \<open>auto simp: splice_defs\<close>)

lemma splice_step_first: "reason st = Some r \<Longrightarrow> reason (splice_step pol started ev st) = Some r"
  by (auto simp: splice_defs split: splice_event.split direction.split option.split watch_result.split prod.split)

lemma splice_fold_first: "reason st = Some r \<Longrightarrow> reason (fold (splice_step pol started) evs st) = Some r"
  by (induction evs arbitrary: st) (auto simp: splice_step_first)

text \<open>The event that gives the reason, with no event before it that could have given one.\<close>

definition first_trigger ::
  "edge_policy \<Rightarrow> int \<Rightarrow> splice_event list \<Rightarrow> splice_state \<Rightarrow> splice_event list \<Rightarrow> splice_event \<Rightarrow> close_reason \<Rightarrow> bool" where
  "first_trigger pol started evs st pre ev r \<longleftrightarrow>
     (\<exists>post. evs = pre @ ev # post) \<and> triggers pol started (fold (splice_step pol started) pre st) ev r
     \<and> (\<forall>pre' ev' post' r'. pre = pre' @ ev' # post' \<longrightarrow>
          \<not> triggers pol started (fold (splice_step pol started) pre' st) ev' r')"

lemma splice_fold_reason:
  assumes "reason st = None" "reason (fold (splice_step pol started) evs st) = Some r"
  shows "\<exists>pre ev. first_trigger pol started evs st pre ev r"
  using assms
proof (induction evs arbitrary: st)
  case (Cons ev evs)
  show ?case
  proof (cases "reason (splice_step pol started ev st)")
    case None
    then obtain pre e where f: "first_trigger pol started evs (splice_step pol started ev st) pre e r"
      using Cons.IH [OF None] Cons.prems by auto
    have "\<not> triggers pol started st ev r'" for r'
      using splice_step_reason [OF Cons.prems(1), of pol started ev r'] None by simp
    then have "first_trigger pol started (ev # evs) st (ev # pre) e r"
      using f by (auto simp: first_trigger_def Cons_eq_append_conv)
    then show ?thesis by blast
  next
    case (Some r')
    then have "r' = r" using splice_fold_first Cons.prems by fastforce
    then have "first_trigger pol started (ev # evs) st [] ev r"
      using splice_step_reason [OF Cons.prems(1), of pol started ev r] Some by (auto simp: first_trigger_def)
    then show ?thesis by blast
  qed
qed simp

text \<open>
  C14. When \<open>splice\<close> returns, in every interleaving of the two copies and the watcher, the close reason
  is the one of the first event that gives one, and no event before it gave any; nothing that happens
  later changes it. It has the documented cause: a quota kill names the quota, a failed write or a panic
  is an error, an end of stream names the side that closed, and an idle, low-rate, route or cancellation
  close happened under its own condition, in the watcher's order. The byte counts are never above
  the bytes the destinations received, and equal them in each direction when no write failed.
\<close>

theorem splice_close_reason:
  assumes "splice pol started evs (splice_init act now) = Some (r, st)"
  shows "(\<exists>pre ev post. evs = pre @ ev # post
         \<and> triggers pol started (fold (splice_step pol started) pre (splice_init act now)) ev r
         \<and> (\<forall>pre' ev' post' r'. pre = pre' @ ev' # post' \<longrightarrow>
              \<not> triggers pol started (fold (splice_step pol started) pre' (splice_init act now)) ev' r'))
    \<and> cnt (up st) \<le> int (length (forwarded (up st))) \<and> cnt (down st) \<le> int (length (forwarded (down st)))
    \<and> ((\<forall>d p. Copy d p \<in> set evs \<longrightarrow> wr_fail p = None) \<longrightarrow>
         cnt (up st) = int (length (forwarded (up st))) \<and> cnt (down st) = int (length (forwarded (down st))))"
proof -
  let ?st = "fold (splice_step pol started) evs (splice_init act now)"
  have "splice_inv ?st" by (rule splice_inv_fold) (simp add: splice_inv_def splice_init_def Let_def)
  moreover have st: "st = ?st" "up_done st" and r: "r = (case reason ?st of None \<Rightarrow> CloseClientClose | Some r \<Rightarrow> r)"
    using assms by (auto simp: splice_def Let_def split: if_splits)
  ultimately obtain r' where "reason ?st = Some r'" and inv: "splice_inv st" by (auto simp: splice_inv_def)
  then have "reason ?st = Some r" using r by simp
  moreover have init: "reason (splice_init act now) = None" by (simp add: splice_init_def Let_def)
  ultimately obtain pre ev where f: "first_trigger pol started evs (splice_init act now) pre ev r"
    using splice_fold_reason [OF init] by blast
  have "exact_count st" if "\<forall>d p. Copy d p \<in> set evs \<longrightarrow> wr_fail p = None"
    unfolding st(1) by (rule exact_count_fold)
      (use that in \<open>auto simp: exact_count_def splice_init_def Let_def list_all_iff writes_ok_def\<close>)
  then show ?thesis using f inv unfolding first_trigger_def splice_inv_def exact_count_def by blast
qed

definition demo_policy :: edge_policy where
  "demo_policy = \<lparr>IdleTimeout = 300 * Second, MinRate = 0, MinGrace = 0\<rparr>"

definition demo_events :: "splice_event list" where
  "demo_events = [Copy Upload (demo_pass [1, 2] ChargeProceed False), Copy Download (demo_pass [9] ChargeKill False),
     CascadeClose, Copy Upload (demo_pass [] ChargeProceed True)]"

theorem splice_close_reason_witness:
  "\<exists>st. splice demo_policy 0 demo_events (splice_init 0 0) = Some (CloseQuotaExhausted, st)
     \<and> (\<exists>pre ev post. demo_events = pre @ ev # post
         \<and> triggers demo_policy 0 (fold (splice_step demo_policy 0) pre (splice_init 0 0)) ev CloseQuotaExhausted)
     \<and> cnt (up st) = 2 \<and> cnt (up st) = int (length (forwarded (up st)))"
proof -
  obtain r st where s: "splice demo_policy 0 demo_events (splice_init 0 0) = Some (r, st)" "r = CloseQuotaExhausted" "cnt (up st) = 2"
    by (simp add: splice_def demo_events_def demo_pass_def splice_init_def Let_def splice_defs shared_def copy_iter_def)
  have "\<forall>d p. Copy d p \<in> set demo_events \<longrightarrow> wr_fail p = None" by (simp add: demo_events_def demo_pass_def)
  with splice_close_reason [OF s(1)] s show ?thesis by blast
qed

lemma drop_old_append:
  "c \<le> c' \<Longrightarrow> drop_old c' (drop_old c xs @ [s]) = drop_old c' (xs @ [s])"
  by (induction c xs rule: drop_old.induct) auto

lemma drop_old_newest:
  "sorted (map fst ss) \<Longrightarrow> ss \<noteq> [] \<Longrightarrow>
   hd (drop_old c ss) = (case filter (\<lambda>s. fst s \<le> c) ss of [] \<Rightarrow> hd ss | xs \<Rightarrow> last xs)"
proof (induction c ss rule: drop_old.induct)
  case (1 c a b ss)
  show ?case
  proof (cases "fst b \<le> c")
    case True
    then show ?thesis using 1 by (auto split: list.splits)
  next
    case False
    then have "filter (\<lambda>s. fst s \<le> c) (b # ss) = []"
      using 1 by (auto simp: filter_empty_conv)
    then show ?thesis using False by (auto split: list.split)
  qed
qed (auto split: list.splits)

lemma watch_tick_Keep:
  assumes "watch_tick pol started now act tot gone w = Keep w' ro"
  shows "samples w' = drop_old (now - rollingWindow) (samples w @ [(now, tot)])" "ro = tot - snd (hd (samples w'))"
  using assms by (auto simp: watch_tick_def Let_def split: if_splits)

lemma watch_loop_samples:
  assumes "watch_loop pol started ts w ro = Keep w' ro'" "ts \<noteq> []"
    and "sorted (map fst ts)" "samples w = drop_old c hist" "\<forall>t \<in> set ts. c \<le> fst t - rollingWindow"
  shows "samples w' = drop_old (fst (last ts) - rollingWindow) (hist @ map (\<lambda>(now, act, tot, gone). (now, tot)) ts)
    \<and> ro' = fst (snd (snd (last ts))) - snd (hd (samples w'))"
  using assms
proof (induction ts arbitrary: w ro c hist)
  case (Cons t ts)
  obtain now act tot gone where t: "t = (now, act, tot, gone)" by (cases t)
  with Cons.prems obtain w1 r1 where k: "watch_tick pol started now act tot gone w = Keep w1 r1"
    and rest: "watch_loop pol started ts w1 r1 = Keep w' ro'"
    by (auto split: watch_result.splits)
  have s1: "samples w1 = drop_old (now - rollingWindow) (hist @ [(now, tot)])"
    using watch_tick_Keep [OF k] Cons.prems t by (simp add: drop_old_append)
  show ?case
  proof (cases "ts = []")
    case True
    then show ?thesis using rest s1 t watch_tick_Keep [OF k] by auto
  next
    case False
    from Cons.IH [OF rest False _ s1] show ?thesis using Cons.prems t False by auto
  qed
qed simp

text \<open>
  C15. The rolling byte count the watcher maintains by dropping old samples at every tick is the one
  computed from the whole history: the bytes now minus the bytes at the newest tick at or before
  \<open>now - rollingWindow\<close>, or minus the bytes at the very first tick while no tick is that old.
\<close>

theorem watch_loop_rolling:
  assumes "watch_loop pol started ts \<lparr>samples = [], nextRouteCheck = n\<rparr> 0 = Keep w rolling"
    and "ts \<noteq> []" "sorted (map fst ts)" "last ts = (now, act, tot, gone)"
  shows "rolling = tot - (case filter (\<lambda>t. fst t \<le> now - rollingWindow) ts of
      [] \<Rightarrow> fst (snd (snd (hd ts)))
    | old \<Rightarrow> fst (snd (snd (last old))))"
proof -
  let ?f = "\<lambda>(now, act, tot, gone). (now :: int, tot :: int)"
  let ?P = "\<lambda>t. fst t \<le> now - rollingWindow"
  have lo: "\<forall>t \<in> set ts. fst (hd ts) - rollingWindow \<le> fst t - rollingWindow"
    using assms(2,3) by (cases ts) auto
  have f: "filter (\<lambda>s. fst s \<le> now - rollingWindow) (map ?f ts) = map ?f (filter ?P ts)"
    by (induction ts) auto
  have snd: "snd (?f t) = fst (snd (snd t))" for t :: "int \<times> int \<times> int \<times> bool" by (cases t) auto
  have "map fst (map ?f ts) = map fst ts" by (induction ts) auto
  then have "sorted (map fst (map ?f ts))" using assms(3) by (simp only:)
  then have "hd (drop_old (now - rollingWindow) (map ?f ts)) = (case map ?f (filter ?P ts) of [] \<Rightarrow> ?f (hd ts) | xs \<Rightarrow> last xs)"
    using drop_old_newest [of "map ?f ts" "now - rollingWindow"] assms(2) f by (simp add: hd_map split: list.split)
  then have "hd (samples w) = (case map ?f (filter ?P ts) of [] \<Rightarrow> ?f (hd ts) | xs \<Rightarrow> last xs)"
    and "rolling = tot - snd (hd (samples w))"
    using watch_loop_samples [OF assms(1,2,3), of "fst (hd ts) - rollingWindow" "[]"] lo assms
    by (auto split: list.splits)
  then show ?thesis using snd by (auto simp: last_map split: list.splits)
qed
definition demo_ticks :: "(int \<times> int \<times> int \<times> bool) list" where
  "demo_ticks = [(1 * Second, 0, 500, False), (2 * Second, 0, 600, False), (62 * Second, 0, 900, False)]"

theorem watch_loop_rolling_witness:
  "\<exists>w. watch_loop \<lparr>IdleTimeout = 0, MinRate = 0, MinGrace = 0\<rparr> 0 demo_ticks \<lparr>samples = [], nextRouteCheck = 0\<rparr> 0 = Keep w 300"
proof -
  obtain w rolling where w: "watch_loop \<lparr>IdleTimeout = 0, MinRate = 0, MinGrace = 0\<rparr> 0 demo_ticks
      \<lparr>samples = [], nextRouteCheck = 0\<rparr> 0 = Keep w rolling"
    by (simp add: demo_ticks_def watch_tick_def rollingWindow_def routeCheckInterval_def Let_def)
  from watch_loop_rolling [OF this, of "62 * Second" 0 900 False] have "rolling = 300"
    by (simp add: demo_ticks_def rollingWindow_def)
  then show ?thesis using w by blast
qed

text \<open>
  At the first tick at which the low-rate check applies, the oldest sample is the first tick, one poll after the start:
  bytes moved before that tick are not counted although they are within the window. A connection that moved 1000 bytes
  in its first second and none after is closed at age 60 s under a minimum of 500 bytes.
\<close>

lemma min_rate_first_window:
  "watch_loop \<lparr>IdleTimeout = 0, MinRate = 500, MinGrace = 0\<rparr> 0
     [(1 * Second, 0, 1000, False), (60 * Second, 0, 1000, False)] \<lparr>samples = [], nextRouteCheck = 100 * Second\<rparr> 0
   = Close CloseMinRate (Some 0)"
  by (simp add: watch_tick_def rollingWindow_def Let_def)

end
