(* ===== verification/Edge_Streams.thy ===== *)
theory Edge_Streams
  imports Edge_Splice Route_Registry
begin

text \<open>
  The live streams of the public edge and how they are ended from outside: tracking, the choice of an
  eviction victim, saturation eviction, admin and ban eviction, and the retry loop that makes
  room for a new stream (\<^verbatim>\<open>src/internal/edge/bridge.go\<close>). Stream objects are shared between
  their own handler and the evictors, so they live in an explicit store addressed by
  identity; a stream keeps its object after it is untracked.
\<close>

record activeStream =
  as_tunnel :: string
  as_member :: string
  as_connID :: string
  as_nodeID :: string
  as_started :: int
  as_lastAct :: int
  as_recent :: int
  as_evicted :: bool
  as_banned :: bool
  as_terminated :: bool
  as_phoneGone :: bool
  as_cancelled :: bool
  as_released :: bool

record edge_config =
  EnrollHost :: string
  ControlHost :: string
  TunnelDomain :: string
  MaxClients :: int
  ConnRate :: int
  Concurrent :: int
  cfg_policy :: edge_policy
  EvictIdle :: duration
  ProtectRate :: int

text \<open>
  The shared state of an edge: the client count, the store of stream objects, the tracked
  streams in the order a map iteration happens to visit them, the Valkey side, and a record
  of the slot releases issued so far.
\<close>

record 's edge =
  clients :: int
  objs :: "nat \<rightharpoonup> activeStream"
  streams :: "nat list"
  vk :: 's
  slot_releases :: "(string \<times> string) list"

definition slotRetries :: nat where "slotRetries = 5"

definition upd :: "nat \<Rightarrow> (activeStream \<Rightarrow> activeStream) \<Rightarrow> 's edge \<Rightarrow> 's edge" where
  "upd i f st = st\<lparr>objs := (objs st)(i := map_option f (objs st i))\<rparr>"

definition trackStream :: "nat \<Rightarrow> 's edge \<Rightarrow> 's edge" where
  "trackStream i st = st\<lparr>streams := (if i \<in> set (streams st) then streams st else streams st @ [i])\<rparr>"

definition untrackStream :: "nat \<Rightarrow> 's edge \<Rightarrow> 's edge" where
  "untrackStream i st = st\<lparr>streams := removeAll i (streams st)\<rparr>"

text \<open>The release-once closure of a stream.\<close>

definition releaseSlot :: "'s client \<Rightarrow> nat \<Rightarrow> 's edge \<Rightarrow> 's edge" where
  "releaseSlot ex i st =
     (case objs st i of
        None \<Rightarrow> st
      | Some a \<Rightarrow>
          if as_released a then st
          else (upd i (\<lambda>a. a\<lparr>as_released := True\<rparr>) st)
                 \<lparr>vk := snd (ReleaseStream ex (as_tunnel a) (as_member a) (vk st)),
                  slot_releases := slot_releases st @ [(as_tunnel a, as_member a)]\<rparr>)"

subsection \<open>Choosing a victim\<close>

definition evictable :: "edge_config \<Rightarrow> int \<Rightarrow> activeStream \<Rightarrow> bool" where
  "evictable cfg now a \<longleftrightarrow> now - as_lastAct a \<ge> EvictIdle cfg \<or> as_recent a < ProtectRate cfg"

definition least_step ::
  "edge_config \<Rightarrow> int \<Rightarrow> string \<Rightarrow> (nat \<rightharpoonup> activeStream) \<Rightarrow> nat \<Rightarrow> nat option \<times> int \<Rightarrow> nat option \<times> int" where
  "least_step cfg now name os i acc =
     (case os i of
        None \<Rightarrow> acc
      | Some a \<Rightarrow>
          if as_tunnel a \<noteq> name \<or> as_evicted a then acc
          else if \<not> evictable cfg now a then acc
          else if now - as_lastAct a > snd acc then (Some i, now - as_lastAct a)
          else acc)"

definition leastActive :: "edge_config \<Rightarrow> int \<Rightarrow> string \<Rightarrow> 's edge \<Rightarrow> nat option \<times> duration" where
  "leastActive cfg now name st = fold (least_step cfg now name (objs st)) (streams st) (None, -1)"

definition SlotCandidate :: "edge_config \<Rightarrow> int \<Rightarrow> string \<Rightarrow> 's edge \<Rightarrow> duration \<times> bool" where
  "SlotCandidate cfg now name st =
     (case leastActive cfg now name st of (None, _) \<Rightarrow> (0, False) | (Some _, idle) \<Rightarrow> (idle, True))"

text \<open>
  \<^verbatim>\<open>evictLeastActive\<close>: choose, then compare-and-swap the evicted flag, and start over when another
  goroutine was faster. The list holds what other goroutines do between the choice and the swap of
  each round, with the clock of the next round; past its end nobody interferes.
\<close>

definition evict_now :: "'s client \<Rightarrow> nat \<Rightarrow> 's edge \<Rightarrow> 's edge" where
  "evict_now ex i st = releaseSlot ex i (upd i (\<lambda>a. a\<lparr>as_evicted := True, as_cancelled := True\<rparr>) st)"

definition is_evicted :: "nat \<Rightarrow> 's edge \<Rightarrow> bool" where
  "is_evicted i st = (case objs st i of None \<Rightarrow> False | Some a \<Rightarrow> as_evicted a)"

fun evictLeastActive ::
  "edge_config \<Rightarrow> 's client \<Rightarrow> string \<Rightarrow> (('s edge \<Rightarrow> 's edge) \<times> int) list \<Rightarrow> int \<Rightarrow> 's edge \<Rightarrow> bool \<times> 's edge" where
  "evictLeastActive cfg ex name [] now st =
     (case fst (leastActive cfg now name st) of
        None \<Rightarrow> (False, st)
      | Some i \<Rightarrow> (True, evict_now ex i st))"
| "evictLeastActive cfg ex name ((other, now') # env) now st =
     (case fst (leastActive cfg now name st) of
        None \<Rightarrow> (False, st)
      | Some i \<Rightarrow>
          if is_evicted i (other st) then evictLeastActive cfg ex name env now' (other st)
          else (True, evict_now ex i (other st)))"

definition FreeSlot ::
  "edge_config \<Rightarrow> 's client \<Rightarrow> string \<Rightarrow> (('s edge \<Rightarrow> 's edge) \<times> int) list \<Rightarrow> int \<Rightarrow> 's edge \<Rightarrow> bool \<times> 's edge" where
  "FreeSlot cfg ex name env now st = evictLeastActive cfg ex name env now st"

subsection \<open>Eviction by tunnel and by phone connection\<close>

definition victims :: "(activeStream \<Rightarrow> bool) \<Rightarrow> 's edge \<Rightarrow> nat list" where
  "victims P st = filter (\<lambda>i. case objs st i of None \<Rightarrow> False | Some a \<Rightarrow> P a) (streams st)"

definition EvictTunnelStreams :: "string \<Rightarrow> 's edge \<Rightarrow> 's edge" where
  "EvictTunnelStreams name st =
     fold (\<lambda>i. upd i (\<lambda>a. a\<lparr>as_terminated := True, as_cancelled := True\<rparr>))
       (victims (\<lambda>a. as_tunnel a = name) st) st"

text \<open>The wire text of a close reason.\<close>

fun close_string :: "close_reason \<Rightarrow> string" where
  "close_string CloseClientClose = ''client-close''"
| "close_string ClosePhoneClose = ''phone-close''"
| "close_string CloseBanEvict = ''ban-evict''"
| "close_string CloseQuotaExhausted = ''quota-exhausted''"
| "close_string CloseIdleTimeout = ''idle-timeout''"
| "close_string CloseMinRate = ''min-rate''"
| "close_string CloseEvicted = ''evicted''"
| "close_string CloseServerShutdown = ''server-shutdown''"
| "close_string CloseAdminTerminate = ''admin-terminate''"
| "close_string CloseCertExpired = ''cert-expired''"
| "close_string CloseError = ''error''"

definition evict_mark :: "string \<Rightarrow> activeStream \<Rightarrow> activeStream" where
  "evict_mark why a =
     (if why = close_string CloseBanEvict then a\<lparr>as_banned := True\<rparr>
      else if why = close_string CloseAdminTerminate then a\<lparr>as_terminated := True\<rparr>
      else a\<lparr>as_phoneGone := True\<rparr>)\<lparr>as_cancelled := True\<rparr>"

definition EvictConnStreams :: "string \<Rightarrow> string \<Rightarrow> string \<Rightarrow> 's edge \<Rightarrow> bool \<times> 's edge" where
  "EvictConnStreams name connID why st =
     (let vs = victims (\<lambda>a. as_tunnel a = name \<and> as_connID a = connID) st in
      (vs \<noteq> [], fold (\<lambda>i. upd i (evict_mark why)) vs st))"

subsection \<open>Making room\<close>

text \<open>
  One round of the retry loop sees whether the retry budget is spent, what other
  goroutines do during the local eviction, the answer of \<^verbatim>\<open>FreeRemoteSlot\<close> (asked only when no local
  stream could be evicted) and the clocks.
\<close>

record 's retry_round =
  rr_expired :: bool
  rr_env :: "(('s edge \<Rightarrow> 's edge) \<times> int) list"
  rr_now :: int
  free_remote :: "'s edge \<Rightarrow> bool \<times> 's edge"
  rr_lim_now :: int

fun evictAndAcquire ::
  "edge_config \<Rightarrow> Limiter \<Rightarrow> 's client \<Rightarrow> string \<Rightarrow> string \<Rightarrow> 's retry_round list \<Rightarrow> 's edge \<Rightarrow> bool \<times> 's edge" where
  "evictAndAcquire cfg l ex name token [] st = (False, st)"
| "evictAndAcquire cfg l ex name token (r # rs) st =
     (if rr_expired r then (False, st)
      else
        let (local, st1) = evictLeastActive cfg ex name (rr_env r) (rr_now r) st;
            (freed, st2) = (if local then (True, st1) else free_remote r st1)
        in if \<not> freed then (False, st2)
           else case AcquireStream l ex name token (Concurrent cfg) (rr_lim_now r) (vk st2) of
                  (Inl _, s) \<Rightarrow> (True, st2\<lparr>vk := s\<rparr>)
                | (Inr True, s) \<Rightarrow> (True, st2\<lparr>vk := s\<rparr>)
                | (Inr False, s) \<Rightarrow> evictAndAcquire cfg l ex name token rs (st2\<lparr>vk := s\<rparr>))"

subsection \<open>The victim\<close>

text \<open>A stream the tunnel's policy allows to evict at time \<open>now\<close>, and the one to choose.\<close>

definition candidate :: "edge_config \<Rightarrow> int \<Rightarrow> string \<Rightarrow> activeStream \<Rightarrow> bool" where
  "candidate cfg now name a \<longleftrightarrow>
     as_tunnel a = name \<and> \<not> as_evicted a \<and> evictable cfg now a \<and> as_lastAct a \<le> now"

definition victim :: "edge_config \<Rightarrow> int \<Rightarrow> string \<Rightarrow> 's edge \<Rightarrow> nat \<Rightarrow> bool" where
  "victim cfg now name st i \<longleftrightarrow>
     i \<in> set (streams st) \<and> (\<exists>a. objs st i = Some a \<and> candidate cfg now name a
       \<and> (\<forall>j \<in> set (streams st). \<forall>b. objs st j = Some b \<longrightarrow> candidate cfg now name b \<longrightarrow>
            as_lastAct a \<le> as_lastAct b))"

text \<open>One pass of the loop, when the best idle time so far is not below its start value.\<close>

lemma least_step_cases:
  assumes "-1 \<le> d"
  shows "least_step cfg now name os i (v, d) =
    (case os i of
       None \<Rightarrow> (v, d)
     | Some b \<Rightarrow> if candidate cfg now name b \<and> now - as_lastAct b > d then (Some i, now - as_lastAct b) else (v, d))"
  using assms by (auto simp: least_step_def candidate_def split: option.split)

definition best :: "edge_config \<Rightarrow> int \<Rightarrow> string \<Rightarrow> (nat \<rightharpoonup> activeStream) \<Rightarrow> nat set \<Rightarrow> nat option \<Rightarrow> int \<Rightarrow> bool" where
  "best cfg now name os I v d \<longleftrightarrow>
     (\<forall>j \<in> I. \<forall>b. os j = Some b \<longrightarrow> candidate cfg now name b \<longrightarrow> now - as_lastAct b \<le> d)
     \<and> (case v of None \<Rightarrow> d = -1
        | Some i \<Rightarrow> i \<in> I \<and> (\<exists>a. os i = Some a \<and> candidate cfg now name a \<and> d = now - as_lastAct a))"

lemma best_ge: "best cfg now name os I v d \<Longrightarrow> -1 \<le> d"
  by (auto simp: best_def candidate_def split: option.splits)

lemma best_step:
  assumes "best cfg now name os I v d" "least_step cfg now name os i (v, d) = (v', d')"
  shows "best cfg now name os (insert i I) v' d'"
proof (cases "os i")
  case None
  then show ?thesis using assms least_step_cases [OF best_ge [OF assms(1)], of cfg now name os i v]
    by (auto simp: best_def split: option.splits)
next
  case (Some b)
  show ?thesis
  proof (cases "candidate cfg now name b \<and> now - as_lastAct b > d")
    case True
    then have "v' = Some i" "d' = now - as_lastAct b"
      using assms least_step_cases [OF best_ge [OF assms(1)], of cfg now name os i v] Some by auto
    then show ?thesis using True assms(1) Some unfolding best_def by fastforce
  next
    case False
    then have "v' = v" "d' = d"
      using assms least_step_cases [OF best_ge [OF assms(1)], of cfg now name os i v] Some by auto
    then show ?thesis using False assms(1) Some by (auto simp: best_def split: option.splits)
  qed
qed

lemma least_fold:
  "best cfg now name os I v d \<Longrightarrow> fold (least_step cfg now name os) is (v, d) = (v', d')
   \<Longrightarrow> best cfg now name os (I \<union> set is) v' d'"
proof (induction "is" arbitrary: I v d)
  case (Cons i "is")
  obtain v1 d1 where s: "least_step cfg now name os i (v, d) = (v1, d1)" by (meson surj_pair)
  from Cons.IH [OF best_step [OF Cons.prems(1) s]] Cons.prems(2) s show ?case by simp
qed simp

lemma leastActive_victim:
  assumes "leastActive cfg now name st = (v, idle)"
  shows "(v = None \<longleftrightarrow> \<not> (\<exists>i. victim cfg now name st i)) \<and> (\<forall>i. v = Some i \<longrightarrow> victim cfg now name st i)"
proof -
  have "best cfg now name (objs st) {} None (-1)" by (simp add: best_def)
  from least_fold [OF this] assms have b: "best cfg now name (objs st) (set (streams st)) v idle"
    by (simp add: leastActive_def)
  show ?thesis
  proof (cases v)
    case None
    have "\<not> victim cfg now name st i" for i
      using b None unfolding best_def victim_def by (fastforce simp: candidate_def)
    then show ?thesis using None by simp
  next
    case (Some i)
    then have "victim cfg now name st i" using b by (force simp: best_def victim_def)
    then show ?thesis using Some by auto
  qed
qed

lemma victim_not_evicted: "victim cfg now name st i \<Longrightarrow> \<not> is_evicted i st"
  by (auto simp: victim_def candidate_def is_evicted_def)

text \<open>The states the eviction loop chooses in: the start, then after each interference.\<close>

fun rounds :: "(('s edge \<Rightarrow> 's edge) \<times> int) list \<Rightarrow> int \<Rightarrow> 's edge \<Rightarrow> ('s edge \<times> int) list" where
  "rounds [] now st = [(st, now)]"
| "rounds ((f, now') # env) now st = (st, now) # rounds env now' (f st)"

lemma rounds_0: "rounds env now st ! 0 = (st, now)"
  by (induction env now st rule: rounds.induct) auto

text \<open>
  Saturation eviction ends exactly one stream, and only one the policy allows: for any
  interference by other goroutines, when \<open>evictLeastActive\<close> reports success there is a round of its
  loop in which the stream it evicted was, of all tracked and not yet evicted streams of the tunnel
  that are idle for \<open>EvictIdle\<close> or below \<open>ProtectRate\<close>, the one idle the longest, and it was still not evicted
  when the swap happened; when it reports failure, some round saw no such stream and nothing was evicted by it.
\<close>

lemma evictLeastActive_victim:
  assumes "evictLeastActive cfg ex name env now st = (ok, st')"
  shows "\<exists>k \<le> length env. let (s, t) = rounds env now st ! k in
     if ok then (\<exists>i. victim cfg t name s i
       \<and> (let s' = (if k < length env then fst (rounds env now st ! Suc k) else s) in
          \<not> is_evicted i s' \<and> st' = evict_now ex i s'))
     else st' = s \<and> \<not> (\<exists>i. victim cfg t name s i)"
  using assms
proof (induction env arbitrary: now st)
  case Nil
  obtain v d where l: "leastActive cfg now name st = (v, d)" by (meson surj_pair)
  then show ?case using Nil leastActive_victim [OF l] victim_not_evicted
    by (auto split: option.splits; blast)
next
  case (Cons e env)
  obtain f now' where e: "e = (f, now')" by (cases e)
  obtain v d where l: "leastActive cfg now name st = (v, d)" by (meson surj_pair)
  show ?case
  proof (cases "\<exists>i. v = Some i \<and> is_evicted i (f st)")
    case True
    then have "evictLeastActive cfg ex name env now' (f st) = (ok, st')"
      using Cons.prems l e by auto
    from Cons.IH [OF this] obtain k where "k \<le> length env"
      "let (s, t) = rounds env now' (f st) ! k in
       if ok then (\<exists>i. victim cfg t name s i
         \<and> (let s' = (if k < length env then fst (rounds env now' (f st) ! Suc k) else s) in
            \<not> is_evicted i s' \<and> st' = evict_now ex i s'))
       else st' = s \<and> \<not> (\<exists>i. victim cfg t name s i)" by blast
    then show ?thesis by (intro exI [of _ "Suc k"]) (auto simp: e Let_def split: prod.splits)
  next
    case False
    then show ?thesis using Cons.prems l leastActive_victim [OF l]
      by (intro exI [of _ 0]) (auto simp: e rounds_0 split: option.splits)
  qed
qed

definition demo_stream :: "string \<Rightarrow> int \<Rightarrow> int \<Rightarrow> activeStream" where
  "demo_stream member act n = \<lparr>as_tunnel = ''t'', as_member = member, as_connID = ''c'', as_nodeID = ''n'', as_started = 0,
     as_lastAct = act, as_recent = n, as_evicted = False, as_banned = False, as_terminated = False, as_phoneGone = False,
     as_cancelled = False, as_released = False\<rparr>"

definition demo_cfg :: edge_config where
  "demo_cfg = \<lparr>EnrollHost = ''enroll.x'', ControlHost = ''control.x'', TunnelDomain = ''x'', MaxClients = 10, ConnRate = 5,
     Concurrent = 2, cfg_policy = demo_policy, EvictIdle = 60, ProtectRate = 1000\<rparr>"

definition demo_edge :: "vstate edge" where
  "demo_edge = \<lparr>clients = 0, objs = [1 \<mapsto> demo_stream ''a'' 90 5000, 2 \<mapsto> demo_stream ''b'' 10 5000, 3 \<mapsto> demo_stream ''c'' 80 0],
     streams = [1, 2, 3], vk = \<lparr>clock = 0, keyspace = Map.empty\<rparr>, slot_releases = []\<rparr>"

lemma evictLeastActive_victim_witness:
  "victim demo_cfg 100 ''t'' demo_edge 2
   \<and> evictLeastActive demo_cfg mem_exec ''t'' [] 100 demo_edge = (True, evict_now mem_exec 2 demo_edge)"
proof -
  have e: "evictLeastActive demo_cfg mem_exec ''t'' [] 100 demo_edge = (True, evict_now mem_exec 2 demo_edge)"
    by (simp add: leastActive_def demo_edge_def least_step_def demo_stream_def evictable_def demo_cfg_def)
  from evictLeastActive_victim [OF e] obtain i where "victim demo_cfg 100 ''t'' demo_edge i" by auto
  moreover from this have "i = 2"
    by (auto simp: victim_def candidate_def evictable_def demo_edge_def demo_stream_def demo_cfg_def split: if_splits)
  ultimately show ?thesis using e by simp
qed

end
