(* ===== verification/Edge_Tunnel.thy ===== *)
theory Edge_Tunnel
  imports Edge_Streams Client_Hello
begin

text \<open>
  The path of one public connection through the edge: source address, ban, rate and client-count
  checks, the ClientHello peek, the reserved hosts and ACME validation
  (\<^verbatim>\<open>src/internal/edge/accept.go\<close>, \<^verbatim>\<open>edge.go\<close>, \<^verbatim>\<open>acme.go\<close>), and the tunnel path from the
  server name to the spliced stream (\<^verbatim>\<open>handleTunnel\<close> in \<^verbatim>\<open>bridge.go\<close>). The routing table and the limiter are the
  models of their own theories, reached through one Valkey client.
\<close>

subsection \<open>Addresses\<close>

fun last_index :: "char \<Rightarrow> string \<Rightarrow> nat option" where
  "last_index c [] = None"
| "last_index c (x # xs) =
     (case last_index c xs of Some i \<Rightarrow> Some (Suc i) | None \<Rightarrow> if x = c then Some 0 else None)"

fun first_index :: "char \<Rightarrow> string \<Rightarrow> nat option" where
  "first_index c [] = None"
| "first_index c (x # xs) = (if x = c then Some 0 else map_option Suc (first_index c xs))"

text \<open>\<^verbatim>\<open>net.SplitHostPort\<close>; every error is \<open>None\<close>.\<close>

definition SplitHostPort :: "string \<Rightarrow> (string \<times> string) option" where
  "SplitHostPort hp =
     (case last_index CHR '':'' hp of
        None \<Rightarrow> None
      | Some i \<Rightarrow>
          if hd hp = CHR ''['' then
            (case first_index CHR '']'' hp of
               None \<Rightarrow> None
             | Some e \<Rightarrow>
                 if e + 1 \<noteq> i then None
                 else if CHR ''['' \<in> set (drop 1 hp) \<or> CHR '']'' \<in> set (drop (e + 1) hp) then None
                 else Some (take (e - 1) (drop 1 hp), drop (i + 1) hp))
          else if CHR '':'' \<in> set (take i hp) then None
          else if CHR ''['' \<in> set hp \<or> CHR '']'' \<in> set hp then None
          else Some (take i hp, drop (i + 1) hp))"

definition peerAddr :: "string \<Rightarrow> string" where
  "peerAddr remote = (case SplitHostPort remote of None \<Rightarrow> remote | Some (host, _) \<Rightarrow> host)"

text \<open>The port loop stops at the first byte that is not a digit.\<close>

definition port_of :: "string \<Rightarrow> int" where
  "port_of s = int (digits_val (takeWhile is_digit s))"

definition splitAddr :: "string \<Rightarrow> string \<times> int" where
  "splitAddr remote =
     (case SplitHostPort remote of None \<Rightarrow> (remote, 0) | Some (host, port) \<Rightarrow> (host, port_of port))"

definition tunnelName :: "(string \<Rightarrow> string) \<Rightarrow> edge_config \<Rightarrow> string \<Rightarrow> string option" where
  "tunnelName uni cfg sni =
     (let sni = ToLower uni sni; suffix = CHR ''.'' # TunnelDomain cfg in
      if TunnelDomain cfg = [] \<or> \<not> HasSuffix sni suffix then None
      else let name = TrimSuffix sni suffix in
        if name = [] \<or> ContainsByte name CHR ''.'' then None else Some name)"

subsection \<open>What a handler does to the outside\<close>

record PublicEvent =
  pe_Conn :: string
  pe_Tunnel :: string
  pe_Event :: string
  pe_CloseReason :: string
  pe_SrcIP :: string
  pe_SrcPort :: int
  pe_SNI :: string
  pe_ALPN :: string
  pe_TLSVersion :: string
  pe_JA4 :: string
  pe_StartedAt :: int
  pe_EndedAt :: int
  pe_BytesIn :: int
  pe_BytesOut :: int

datatype host = Enroll | Control

datatype effect =
    Reject string string string
  | CloseClient
  | CloseFar
  | OpenFar string string string
  | PublicConnOpen
  | PublicConnClose close_reason
  | StreamOpen
  | StreamClose
  | PutConnLogPublic PublicEvent
  | Push host
  | Admit
  | Release
  | AnswerChallenge string

text \<open>
  What the outside answers to one tunnel connection: whether the node is ready for
  dial-backs, the client's address, the clocks, the minted token, connection id and object identity, the
  outcome of opening the far side over a given node and phone connection, the rounds of the slot
  retry loop, the interleaving of the splice, and what other goroutines do to the edge meanwhile.
\<close>

record 's tunnel_io =
  io_ready :: bool
  io_remote :: string
  t_quota :: int
  t_acquire :: int
  io_token :: string
  io_conn :: string
  io_oid :: nat
  io_open :: "string \<Rightarrow> string \<Rightarrow> 's edge \<Rightarrow> bool \<times> 's edge"
  io_retry :: "nat \<Rightarrow> 's retry_round"
  t_started :: int
  t_act :: int
  t_watch :: int
  io_events :: "splice_event list"
  io_others :: "'s edge \<Rightarrow> 's edge"
  t_ended :: int
  io_logging :: bool

definition refuse :: "string \<Rightarrow> string \<Rightarrow> 's tunnel_io \<Rightarrow> 's edge \<Rightarrow> effect list \<times> 's edge" where
  "refuse why name io st = ([Reject why name (peerAddr (io_remote io)), CloseClient], st)"

definition quota_gate ::
  "Limiter \<Rightarrow> 's client \<Rightarrow> string \<Rightarrow> 's tunnel_io \<Rightarrow> 's edge \<Rightarrow> string option \<times> 's edge" where
  "quota_gate l ex name io st =
     (case TrafficExhausted l ex name (t_quota io) (vk st) of
        (Inl _, s) \<Rightarrow> (None, st\<lparr>vk := s\<rparr>)
      | (Inr (dayOver, weekOver), s) \<Rightarrow>
          (if weekOver then Some ''quota-week'' else if dayOver then Some ''quota-day'' else None,
           st\<lparr>vk := s\<rparr>))"

definition acquire_slot ::
  "edge_config \<Rightarrow> Limiter \<Rightarrow> 's client \<Rightarrow> string \<Rightarrow> 's tunnel_io \<Rightarrow> 's edge \<Rightarrow> bool \<times> 's edge" where
  "acquire_slot cfg l ex name io st =
     (case AcquireStream l ex name (io_token io) (Concurrent cfg) (t_acquire io) (vk st) of
        (Inl _, s) \<Rightarrow> (True, st\<lparr>vk := s\<rparr>)
      | (Inr True, s) \<Rightarrow> (True, st\<lparr>vk := s\<rparr>)
      | (Inr False, s) \<Rightarrow>
          evictAndAcquire cfg l ex name (io_token io) (map (io_retry io) [0..<slotRetries]) (st\<lparr>vk := s\<rparr>))"

text \<open>Open the far side; after a failure one fresh lookup, and one retry if the route has changed.\<close>

definition open_phase ::
  "'s client \<Rightarrow> string \<Rightarrow> string \<Rightarrow> string \<Rightarrow> 's tunnel_io \<Rightarrow> 's edge
   \<Rightarrow> (string \<times> string) option \<times> effect list \<times> 's edge" where
  "open_phase ex name nodeID connID io st =
     (case io_open io nodeID connID st of
        (True, st1) \<Rightarrow> (Some (nodeID, connID), [OpenFar nodeID connID (io_token io)], st1)
      | (False, st1) \<Rightarrow>
          (case LookupRoute ex name (vk st1) of
             (Inr (Some (n2, c2)), s) \<Rightarrow>
               if n2 \<noteq> nodeID \<or> c2 \<noteq> connID then
                 (case io_open io n2 c2 (st1\<lparr>vk := s\<rparr>) of
                    (ok, st2) \<Rightarrow> (if ok then Some (n2, c2) else None,
                                 [OpenFar nodeID connID (io_token io), OpenFar n2 c2 (io_token io)], st2))
               else (None, [OpenFar nodeID connID (io_token io)], st1\<lparr>vk := s\<rparr>)
           | (_, s) \<Rightarrow> (None, [OpenFar nodeID connID (io_token io)], st1\<lparr>vk := s\<rparr>)))"

definition new_stream :: "string \<Rightarrow> string \<times> string \<Rightarrow> 's tunnel_io \<Rightarrow> activeStream" where
  "new_stream name via io =
     \<lparr>as_tunnel = name, as_member = io_token io, as_connID = snd via, as_nodeID = fst via,
      as_started = t_started io, as_lastAct = t_act io, as_recent = 0, as_evicted = False, as_banned = False,
      as_terminated = False, as_phoneGone = False, as_cancelled = False, as_released = False\<rparr>"

definition start_event :: "string \<Rightarrow> ClientHelloInfo \<Rightarrow> 's tunnel_io \<Rightarrow> PublicEvent" where
  "start_event name info io =
     (let (srcIP, srcPort) = splitAddr (io_remote io) in
      \<lparr>pe_Conn = io_conn io, pe_Tunnel = name, pe_Event = ''start'', pe_CloseReason = [], pe_SrcIP = srcIP, pe_SrcPort = srcPort,
       pe_SNI = SNI info, pe_ALPN = ALPN info, pe_TLSVersion = TLSVersion info, pe_JA4 = JA4 info, pe_StartedAt = t_started io,
       pe_EndedAt = 0, pe_BytesIn = 0, pe_BytesOut = 0\<rparr>)"

definition end_event :: "close_reason \<Rightarrow> int \<Rightarrow> int \<Rightarrow> int \<Rightarrow> PublicEvent \<Rightarrow> PublicEvent" where
  "end_event r ended bin bout ev =
     ev\<lparr>pe_Event := ''end'', pe_CloseReason := close_string r, pe_EndedAt := ended, pe_BytesIn := bin, pe_BytesOut := bout\<rparr>"

text \<open>
  The stream from tracking to the deferred clean-up, in the order the deferred calls run: metrics
  and the end event, close the client, untrack, close the far side, release the slot.
  \<open>None\<close> while the splice has not returned.
\<close>

definition stream_phase ::
  "edge_config \<Rightarrow> 's client \<Rightarrow> string \<Rightarrow> string \<times> string \<Rightarrow> ClientHelloInfo \<Rightarrow> 's tunnel_io \<Rightarrow> 's edge
   \<Rightarrow> (effect list \<times> 's edge) option" where
  "stream_phase cfg ex name via info io st =
     (let st1 = trackStream (io_oid io) (st\<lparr>objs := (objs st)(io_oid io \<mapsto> new_stream name via io)\<rparr>);
          ev = start_event name info io
      in case splice (cfg_policy cfg) (t_started io) (io_events io) (splice_init (t_act io) (t_watch io)) of
           None \<Rightarrow> None
         | Some (r, sp) \<Rightarrow>
             Some ([PublicConnOpen, StreamOpen] @ (if io_logging io then [PutConnLogPublic ev] else [])
                   @ [StreamClose, PublicConnClose r]
                   @ (if io_logging io
                      then [PutConnLogPublic (end_event r (t_ended io) (cnt (up sp)) (cnt (down sp)) ev)] else [])
                   @ [CloseClient, CloseFar],
                   releaseSlot ex (io_oid io) (untrackStream (io_oid io) (io_others io st1))))"

definition release_unopened :: "'s client \<Rightarrow> string \<Rightarrow> 's tunnel_io \<Rightarrow> 's edge \<Rightarrow> 's edge" where
  "release_unopened ex name io st =
     st\<lparr>vk := snd (ReleaseStream ex name (io_token io) (vk st)),
        slot_releases := slot_releases st @ [(name, io_token io)]\<rparr>"

definition handleTunnel ::
  "edge_config \<Rightarrow> Limiter \<Rightarrow> 's client \<Rightarrow> (string \<Rightarrow> string) \<Rightarrow> ClientHelloInfo \<Rightarrow> 's tunnel_io \<Rightarrow> 's edge
   \<Rightarrow> (effect list \<times> 's edge) option" where
  "handleTunnel cfg l ex uni info io st =
     (case tunnelName uni cfg (SNI info) of
        None \<Rightarrow> Some (refuse ''no-route'' (SNI info) io st)
      | Some name \<Rightarrow>
          if \<not> io_ready io then Some (refuse ''no-route'' name io st)
          else case LookupRoute ex name (vk st) of
            (Inr (Some (nodeID, connID)), s) \<Rightarrow>
              (case quota_gate l ex name io (st\<lparr>vk := s\<rparr>) of
                 (Some why, st1) \<Rightarrow> Some (refuse why name io st1)
               | (None, st1) \<Rightarrow>
                   (case acquire_slot cfg l ex name io st1 of
                      (False, st2) \<Rightarrow> Some (refuse ''stream-cap'' name io st2)
                    | (True, st2) \<Rightarrow>
                        (case open_phase ex name nodeID connID io st2 of
                           (None, tr, st3) \<Rightarrow>
                             Some (tr @ fst (refuse ''no-route'' name io st3), release_unopened ex name io st3)
                         | (Some via, tr, st3) \<Rightarrow>
                             map_option (\<lambda>(tr', st4). (tr @ tr', st4)) (stream_phase cfg ex name via info io st3))))
          | (_, s) \<Rightarrow> Some (refuse ''no-route'' name io (st\<lparr>vk := s\<rparr>)))"

subsection \<open>The client ceiling\<close>

text \<open>
  \<^verbatim>\<open>admit\<close> adds one to the client count and takes it back when the sum is over the ceiling; each of
  the two updates is atomic by itself.
\<close>

definition admit :: "edge_config \<Rightarrow> 's edge \<Rightarrow> bool \<times> 's edge" where
  "admit cfg st =
     (let n = clients st + 1; st1 = st\<lparr>clients := n\<rparr> in
      if n > MaxClients cfg then (False, st1\<lparr>clients := clients st1 - 1\<rparr>) else (True, st1))"

definition release_client :: "'s edge \<Rightarrow> 's edge" where
  "release_client st = st\<lparr>clients := clients st - 1\<rparr>"

text \<open>A reserved-host connection keeps its place until it is closed, and gives it back once.\<close>

record held_conn =
  held_once :: bool

definition held_Close :: "held_conn \<Rightarrow> 's edge \<Rightarrow> held_conn \<times> 's edge" where
  "held_Close h st = (if held_once h then (h, st) else (h\<lparr>held_once := True\<rparr>, release_client st))"

text \<open>The interleaved view of \<^verbatim>\<open>admit\<close> and \<^verbatim>\<open>release\<close>: every goroutine is outside, has added one and holds the sum it read, or is inside.\<close>

datatype place = Outside | Counted int | Inside

record gate =
  g_count :: int
  g_places :: "nat \<Rightarrow> place"

inductive gate_step :: "int \<Rightarrow> gate \<Rightarrow> gate \<Rightarrow> bool" for maxN :: int where
  gate_add: "g_places g t = Outside \<Longrightarrow>
    gate_step maxN g (g\<lparr>g_count := g_count g + 1, g_places := (g_places g)(t := Counted (g_count g + 1))\<rparr>)"
| gate_enter: "g_places g t = Counted n \<Longrightarrow> \<not> n > maxN \<Longrightarrow>
    gate_step maxN g (g\<lparr>g_places := (g_places g)(t := Inside)\<rparr>)"
| gate_refuse: "g_places g t = Counted n \<Longrightarrow> n > maxN \<Longrightarrow>
    gate_step maxN g (g\<lparr>g_count := g_count g - 1, g_places := (g_places g)(t := Outside)\<rparr>)"
| gate_leave: "g_places g t = Inside \<Longrightarrow>
    gate_step maxN g (g\<lparr>g_count := g_count g - 1, g_places := (g_places g)(t := Outside)\<rparr>)"

definition gate_init :: gate where
  "gate_init = \<lparr>g_count = 0, g_places = (\<lambda>_. Outside)\<rparr>"

subsection \<open>Peeking the ClientHello\<close>

datatype peek_err = PeekDeadline | PeekRead | PeekBad

text \<open>The connection after the peek: the record read, how much of it was replayed, and the bytes still to come.\<close>

record peekConn =
  pk_prefix :: bytes
  pk_off :: nat
  pk_under :: bytes

definition peekClientHello ::
  "(bytes \<Rightarrow> bytes) \<Rightarrow> bool \<Rightarrow> bool \<Rightarrow> bytes \<Rightarrow> peek_err + ClientHelloInfo \<times> peekConn" where
  "peekClientHello sha256 set_ok clear_ok inp =
     (if \<not> set_ok then Inl PeekDeadline
      else
        let res =
          (case ReadFull 5 inp of
             None \<Rightarrow> Inl PeekRead
           | Some (hdr, rest) \<Rightarrow>
               (let recLen = be16 (hdr ! 3) (hdr ! 4) in
                if recLen \<le> 0 \<or> recLen > 16 * 1024 then Inl PeekBad
                else case ReadFull recLen rest of
                  None \<Rightarrow> Inl PeekRead
                | Some (body, rest') \<Rightarrow>
                    (case parseClientHello sha256 (hdr @ body) of
                       None \<Rightarrow> Inl PeekBad
                     | Some info \<Rightarrow> Inr (info, \<lparr>pk_prefix = hdr @ body, pk_off = 0, pk_under = rest'\<rparr>))))
        in if clear_ok then res else Inl PeekDeadline)"

text \<open>\<^verbatim>\<open>peekConn.Read\<close> into a buffer of \<open>n\<close> bytes; the network hands over at most \<open>k\<close> bytes at a time.\<close>

definition peek_Read :: "nat \<Rightarrow> nat \<Rightarrow> peekConn \<Rightarrow> bytes \<times> peekConn" where
  "peek_Read n k c =
     (if pk_off c < length (pk_prefix c)
      then (let b = take n (drop (pk_off c) (pk_prefix c)) in (b, c\<lparr>pk_off := pk_off c + length b\<rparr>))
      else (let b = take (min n k) (pk_under c) in (b, c\<lparr>pk_under := drop (min n k) (pk_under c)\<rparr>)))"

fun peek_reads :: "(nat \<times> nat) list \<Rightarrow> peekConn \<Rightarrow> bytes \<times> peekConn" where
  "peek_reads [] c = ([], c)"
| "peek_reads ((n, k) # rs) c =
     (let (b, c1) = peek_Read n k c; (bs, c2) = peek_reads rs c1 in (b @ bs, c2))"

subsection \<open>Accepting\<close>

datatype accept_result = Accepted | AcceptErr bool bool

text \<open>The next accept-error delay.\<close>

definition next_delay :: "duration \<Rightarrow> duration" where
  "next_delay d = (if d = 0 then 5 * Millisecond else if d * 2 > Second then Second else d * 2)"

text \<open>
  \<^verbatim>\<open>acceptLoop\<close> over the results of \<^verbatim>\<open>Accept\<close>: an error says whether the listener is closed or the
  context done, and whether the context ends during the wait. The result lists the waits and counts
  the connections handed to \<^verbatim>\<open>handleConn\<close>.
\<close>

fun acceptLoop :: "duration \<Rightarrow> accept_result list \<Rightarrow> duration list \<times> nat" where
  "acceptLoop delay [] = ([], 0)"
| "acceptLoop delay (Accepted # rs) = (let (ws, n) = acceptLoop 0 rs in (ws, Suc n))"
| "acceptLoop delay (AcceptErr stop done # rs) =
     (if stop then ([], 0)
      else let d = next_delay delay in
        if done then ([d], 0)
        else let (ws, n) = acceptLoop d rs in (d # ws, n))"

definition connRate ::
  "edge_config \<Rightarrow> 's client \<Rightarrow> string \<Rightarrow> int \<Rightarrow> 's edge \<Rightarrow> bool \<times> 's edge" where
  "connRate cfg ex ip now st =
     (case Allow ex ''conn-rate'' ip (ConnRate cfg) Second now (vk st) of
        (Inl _, s) \<Rightarrow> (True, st\<lparr>vk := s\<rparr>)
      | (Inr (ok, _), s) \<Rightarrow> (ok, st\<lparr>vk := s\<rparr>))"

definition acmeTLS1Protocol :: string where "acmeTLS1Protocol = ''acme-tls/1''"

text \<open>
  \<^verbatim>\<open>serveACMEChallenge\<close>: whether the challenge store has a certificate for the domain, and
  whether the deadline and the handshake succeed.
\<close>

definition serveACMEChallenge ::
  "(string \<Rightarrow> string) \<Rightarrow> (string \<Rightarrow> bool) \<Rightarrow> bool \<Rightarrow> bool \<Rightarrow> ClientHelloInfo \<Rightarrow> string \<Rightarrow> effect list" where
  "serveACMEChallenge uni cert deadline_ok handshake_ok info ip =
     (let domain = ToLower uni (SNI info) in
      (if \<not> cert domain then [Reject ''no-route'' (SNI info) ip]
       else if deadline_ok \<and> handshake_ok then [AnswerChallenge domain] else [])
      @ [CloseClient])"

text \<open>What the outside answers to one accepted connection before it is known to be a tunnel.\<close>

record conn_io =
  t_rate :: int
  set_deadline_ok :: bool
  clear_deadline_ok :: bool
  io_input :: bytes
  challenge_cert :: "string \<Rightarrow> bool"
  challenge_deadline_ok :: bool
  challenge_handshake_ok :: bool

definition handleConn ::
  "edge_config \<Rightarrow> Limiter \<Rightarrow> 's client \<Rightarrow> (string \<Rightarrow> string) \<Rightarrow> (bytes \<Rightarrow> bytes) \<Rightarrow> (string \<Rightarrow> 'ip option) \<Rightarrow> ('ip \<Rightarrow> string)
   \<Rightarrow> ('ip \<Rightarrow> bool) option \<Rightarrow> conn_io \<Rightarrow> 's tunnel_io \<Rightarrow> 's edge \<Rightarrow> (effect list \<times> 's edge) option" where
  "handleConn cfg l ex uni sha256 ParseAddr ipString ban cio io st =
     (let ip = peerAddr (io_remote io) in
      case ParseAddr ip of
        None \<Rightarrow> Some ([CloseClient], st)
      | Some addr \<Rightarrow>
          if (case ban of None \<Rightarrow> False | Some b \<Rightarrow> b addr) then Some ([Reject ''ban'' [] ip, CloseClient], st)
          else case connRate cfg ex (ipString addr) (t_rate cio) st of
            (False, st1) \<Rightarrow> Some ([Reject ''conn-rate'' [] ip, CloseClient], st1)
          | (True, st1) \<Rightarrow>
              (case admit cfg st1 of
                 (False, st2) \<Rightarrow> Some ([Reject ''max-clients'' [] ip, CloseClient], st2)
               | (True, st2) \<Rightarrow>
                   (case peekClientHello sha256 (set_deadline_ok cio) (clear_deadline_ok cio) (io_input cio) of
                      Inl _ \<Rightarrow>
                        Some ([Admit, Reject ''handshake-timeout'' [] ip, CloseClient, Release], release_client st2)
                    | Inr (info, pc) \<Rightarrow>
                        if ALPN info = acmeTLS1Protocol then
                          Some ([Admit] @ serveACMEChallenge uni (challenge_cert cio) (challenge_deadline_ok cio)
                                            (challenge_handshake_ok cio) info ip @ [Release],
                                release_client st2)
                        else if ToLower uni (SNI info) = EnrollHost cfg then Some ([Admit, Push Enroll], st2)
                        else if ToLower uni (SNI info) = ControlHost cfg then Some ([Admit, Push Control], st2)
                        else map_option (\<lambda>(tr, st3). ([Admit] @ tr @ [Release], release_client st3))
                               (handleTunnel cfg l ex uni info io st2))))"

end
