(* ===== verification/Edge_Props.thy ===== *)
theory Edge_Props
  imports Edge_Tunnel
begin

text \<open>
  What the public edge guarantees about one connection and about the resources all connections share: the
  client ceiling under every interleaving, the balance of the open and close events of a
  connection, the slot ledger under interference by evictors, and the replay of the peeked bytes.
\<close>

subsection \<open>The client ceiling\<close>

definition good :: "int \<Rightarrow> place \<Rightarrow> bool" where
  "good maxN p \<longleftrightarrow> p = Inside \<or> (\<exists>n. p = Counted n \<and> n \<le> maxN)"

definition gate_inv :: "int \<Rightarrow> gate \<Rightarrow> bool" where
  "gate_inv maxN g \<longleftrightarrow>
     finite {t. g_places g t \<noteq> Outside} \<and> g_count g = int (card {t. g_places g t \<noteq> Outside})
     \<and> int (card {t. good maxN (g_places g t)}) \<le> maxN"

lemma busy_upd:
  "{t. (f(s := p)) t \<noteq> Outside} = (if p = Outside then {t. f t \<noteq> Outside} - {s} else insert s {t. f t \<noteq> Outside})"
  by auto

lemma good_upd:
  "{t. good maxN ((f(s := p)) t)}
   = (if good maxN p then insert s {t. good maxN (f t)} else {t. good maxN (f t)} - {s})"
  by (auto simp: fun_upd_def)

lemma good_subset: "{t. good maxN (f t)} \<subseteq> {t. f t \<noteq> Outside}"
  by (auto simp: good_def)

lemma gate_step_inv:
  assumes "gate_step maxN g g'" "gate_inv maxN g"
  shows "gate_inv maxN g'"
proof -
  let ?busy = "\<lambda>g. {t. g_places g t \<noteq> Outside}" and ?good = "\<lambda>g. {t. good maxN (g_places g t)}"
  have fin: "finite (?busy g)" "finite (?good g)"
    using assms(2) good_subset finite_subset unfolding gate_inv_def by metis+
  from assms(1) show ?thesis
  proof cases
    case (gate_add t)
    have t: "t \<notin> ?busy g" "t \<notin> ?good g" using gate_add by (auto simp: good_def)
    have "card (?good g) \<le> card (?busy g)" by (rule card_mono [OF fin(1) good_subset])
    then show ?thesis using gate_add t fin assms(2)
      unfolding gate_inv_def by (simp add: busy_upd good_upd del: fun_upd_apply) (auto simp: good_def)
  next
    case (gate_enter t n)
    then have "t \<in> ?busy g" "t \<in> ?good g" by (auto simp: good_def)
    then show ?thesis using gate_enter assms(2) unfolding gate_inv_def
      by (simp add: busy_upd good_upd insert_absorb del: fun_upd_apply) (auto simp: good_def insert_absorb)
  next
    case (gate_refuse t n)
    then have "t \<in> ?busy g" "t \<notin> ?good g" by (auto simp: good_def)
    moreover have "0 < card (?busy g)" using fin(1) calculation card_gt_0_iff by blast
    ultimately show ?thesis using gate_refuse assms(2) fin unfolding gate_inv_def
      by (simp add: busy_upd good_upd del: fun_upd_apply) (auto simp: good_def card_Diff_singleton of_nat_diff)
  next
    case (gate_leave t)
    then have "t \<in> ?busy g" "t \<in> ?good g" by (auto simp: good_def)
    moreover have "0 < card (?busy g)" using fin(1) calculation card_gt_0_iff by blast
    ultimately show ?thesis using gate_leave assms(2) fin unfolding gate_inv_def
      by (simp add: busy_upd good_upd del: fun_upd_apply) (auto simp: good_def card_Diff_singleton of_nat_diff)
  qed
qed

text \<open>
  C19. At no moment are more connections admitted than \<open>MaxClients\<close>, in any interleaving of any number of
  goroutines each adding to the shared counter, reading the sum, and taking it back; and the
  counter is exactly the number of goroutines that have added and not yet taken back.
\<close>

theorem admitted_at_most_max:
  assumes "(gate_step maxN)\<^sup>*\<^sup>* gate_init g" "0 \<le> maxN"
  shows "int (card {t. g_places g t = Inside}) \<le> maxN
    \<and> g_count g = int (card {t. g_places g t \<noteq> Outside})"
proof -
  have init: "gate_inv maxN gate_init" using assms(2) by (simp add: gate_inv_def gate_init_def good_def)
  from assms(1) have inv: "gate_inv maxN g"
    by (induction rule: rtranclp_induct) (auto simp: init intro: gate_step_inv)
  then have "finite {t. good maxN (g_places g t)}"
    using good_subset finite_subset unfolding gate_inv_def by metis
  then have "card {t. g_places g t = Inside} \<le> card {t. good maxN (g_places g t)}"
    by (rule card_mono) (auto simp: good_def)
  then show ?thesis using inv unfolding gate_inv_def by linarith
qed

theorem admitted_at_most_max_witness:
  "int (card {t. g_places (gate_init\<lparr>g_count := 1, g_places := (\<lambda>_. Outside)(7 := Inside)\<rparr>) t = Inside}) \<le> 1"
proof -
  let ?g1 = "gate_init\<lparr>g_count := 1, g_places := (\<lambda>_. Outside)(7 := Counted 1)\<rparr>"
  let ?g2 = "gate_init\<lparr>g_count := 1, g_places := (\<lambda>_. Outside)(7 := Inside)\<rparr>"
  have "gate_step 1 gate_init ?g1" using gate_add [of gate_init 7 1] by (simp add: gate_init_def)
  moreover have "gate_step 1 ?g1 ?g2" using gate_enter [of ?g1 7 1 1] by simp
  ultimately have "(gate_step 1)\<^sup>*\<^sup>* gate_init ?g2" by (meson rtranclp.rtrancl_into_rtrancl rtranclp.rtrancl_refl)
  from admitted_at_most_max [OF this] show ?thesis by simp
qed

subsection \<open>Replay of the peeked bytes\<close>

definition remaining :: "peekConn \<Rightarrow> bytes" where
  "remaining c = drop (pk_off c) (pk_prefix c) @ pk_under c"

lemma take_drop_step: "take n (drop k xs) @ drop (k + min (length xs - k) n) xs = drop k xs"
proof -
  have "drop (min (length xs - k) n) (drop k xs) = drop n (drop k xs)"
    by (cases "n \<le> length xs - k") (auto simp: min_def)
  then show ?thesis by (metis append_take_drop_id drop_drop add.commute)
qed

lemma peek_Read_remaining: "peek_Read n k c = (b, c') \<Longrightarrow> b @ remaining c' = remaining c"
  using take_drop_step [of n "pk_off c" "pk_prefix c"]
  by (auto simp: peek_Read_def remaining_def Let_def split: if_splits simp flip: append_assoc)

lemma peek_reads_remaining: "peek_reads rs c = (b, c') \<Longrightarrow> b @ remaining c' = remaining c"
proof (induction rs c arbitrary: b c' rule: peek_reads.induct)
  case (2 n k rs c)
  obtain b1 c1 where r: "peek_Read n k c = (b1, c1)" by (meson surj_pair)
  obtain b2 c2 where rs: "peek_reads rs c1 = (b2, c2)" by (meson surj_pair)
  from 2(1) [OF r [symmetric] refl rs] 2(2) r rs peek_Read_remaining [OF r] show ?case by auto
qed simp

text \<open>
  Peeking loses nothing: whatever sizes the later reads have, the bytes they return followed by what
  is left are exactly the bytes the client sent, and the peek itself accepts only a record whose
  length field matches the bytes it took.
\<close>

lemma peek_replays:
  assumes "peekClientHello sha256 set_ok clear_ok inp = Inr (info, c)" "peek_reads rs c = (b, c')"
  shows "b @ remaining c' = inp"
proof -
  have "take 5 inp @ take m (drop 5 inp) @ drop (m + 5) inp = inp" for m
    by (metis append_take_drop_id drop_drop)
  then have "remaining c = inp"
    using assms(1)
    by (auto simp: peekClientHello_def ReadFull_def remaining_def Let_def split: if_splits option.splits)
  then show ?thesis using peek_reads_remaining [OF assms(2)] by simp
qed

definition demo_hello_bytes :: bytes where
  "demo_hello_bytes = [0x16, 3, 1, 0, 42, 1, 0, 0, 38, 3, 3,
     0, 0, 0, 0, 0, 0, 0, 0, 0, 0, 0, 0, 0, 0, 0, 0,
     0, 0, 0, 0, 0, 0, 0, 0, 0, 0, 0, 0, 0, 0, 0, 0, 0, 0, 0, 0]"

lemma demo_peek:
  "\<exists>info. peekClientHello (\<lambda>_. []) True True (demo_hello_bytes @ [9, 9])
     = Inr (info, \<lparr>pk_prefix = demo_hello_bytes, pk_off = 0, pk_under = [9, 9]\<rparr>)"
  by (simp add: peekClientHello_def demo_hello_bytes_def ReadFull_def be16_def parseClientHello_def Let_def)


lemma peek_replays_witness:
  "\<exists>info c. peekClientHello (\<lambda>_. []) True True (demo_hello_bytes @ [9, 9]) = Inr (info, c)
     \<and> fst (peek_reads [(40, 0), (40, 0), (5, 1)] c) @ remaining (snd (peek_reads [(40, 0), (40, 0), (5, 1)] c))
       = demo_hello_bytes @ [9, 9]"
proof -
  from demo_peek obtain info c where p: "peekClientHello (\<lambda>_. []) True True (demo_hello_bytes @ [9, 9]) = Inr (info, c)"
    by blast
  from peek_replays [OF this prod.collapse [symmetric]] p show ?thesis by blast
qed

subsection \<open>Open and close events\<close>

fun is_Reject :: "effect \<Rightarrow> bool" where
  "is_Reject (Reject _ _ _) = True"
| "is_Reject _ = False"

fun is_PublicConnClose :: "effect \<Rightarrow> bool" where
  "is_PublicConnClose (PublicConnClose _) = True"
| "is_PublicConnClose _ = False"

fun conn_log :: "effect \<Rightarrow> PublicEvent list" where
  "conn_log (PutConnLogPublic ev) = [ev]"
| "conn_log _ = []"

definition conn_logs :: "effect list \<Rightarrow> PublicEvent list" where
  "conn_logs tr = concat (map conn_log tr)"

definition tally :: "(effect \<Rightarrow> bool) \<Rightarrow> effect list \<Rightarrow> nat" where
  "tally P tr = length (filter P tr)"

lemmas trace_simps = tally_def conn_logs_def refuse_def

definition settled :: "effect list \<Rightarrow> bool" where
  "settled tr \<longleftrightarrow>
     count_list tr CloseClient = 1
     \<and> tally is_Reject tr + count_list tr PublicConnOpen \<le> 1
     \<and> count_list tr StreamOpen = count_list tr PublicConnOpen
     \<and> count_list tr StreamClose = count_list tr PublicConnOpen
     \<and> count_list tr CloseFar = count_list tr PublicConnOpen
     \<and> tally is_PublicConnClose tr = count_list tr PublicConnOpen
     \<and> (conn_logs tr = [] \<or>
        (\<exists>ev r t bin bout. conn_logs tr = [ev, end_event r t bin bout ev] \<and> PublicConnClose r \<in> set tr))"

definition gate_free :: "effect list \<Rightarrow> bool" where
  "gate_free tr \<longleftrightarrow> Admit \<notin> set tr \<and> Release \<notin> set tr \<and> Push Enroll \<notin> set tr \<and> Push Control \<notin> set tr"

lemma open_phase_trace:
  assumes "open_phase ex name nodeID connID io st = (via, tr, st')"
  shows "\<exists>ns. tr = map (\<lambda>(n, c). OpenFar n c (io_token io)) ns"
proof -
  have "tr = [OpenFar nodeID connID (io_token io)]
      \<or> (\<exists>n c. tr = [OpenFar nodeID connID (io_token io), OpenFar n c (io_token io)])"
    using assms unfolding open_phase_def
    by (cases "io_open io nodeID connID st"; cases "LookupRoute ex name (vk (snd (io_open io nodeID connID st)))")
      (auto split: bool.splits sum.splits option.splits if_splits prod.splits)
  then consider "tr = map (\<lambda>(n, c). OpenFar n c (io_token io)) [(nodeID, connID)]"
    | n c where "tr = map (\<lambda>(n, c). OpenFar n c (io_token io)) [(nodeID, connID), (n, c)]" by auto
  then show ?thesis by cases blast+
qed

lemma open_neutral:
  "settled (OpenFar n c t # tr) = settled tr" "gate_free (OpenFar n c t # tr) = gate_free tr"
  by (simp_all add: settled_def gate_free_def trace_simps)

lemma open_trace_neutral:
  "settled (map (\<lambda>(n, c). OpenFar n c t) ns @ tr) = settled tr"
  "gate_free (map (\<lambda>(n, c). OpenFar n c t) ns @ tr) = gate_free tr"
  by (induction ns) (simp_all add: open_neutral split_beta)

lemma refuse_settled: "settled (fst (refuse why name io st))" "gate_free (fst (refuse why name io st))"
  by (simp_all add: settled_def gate_free_def trace_simps)

lemma stream_phase_settled:
  assumes "stream_phase cfg ex name via info io st = Some (tr, st')"
  shows "settled tr \<and> gate_free tr"
  using assms
  by (auto simp: stream_phase_def settled_def gate_free_def trace_simps Let_def split: option.splits prod.splits; blast)

text \<open>The ways through the tunnel path, with the states in between.\<close>

lemma quota_gate_vk: "quota_gate l ex name io st = (why, st') \<Longrightarrow> \<exists>x. st' = st\<lparr>vk := x\<rparr>"
  by (auto simp: quota_gate_def split: prod.splits sum.splits)

lemma handleTunnel_cases:
  assumes "handleTunnel cfg l ex uni info io st = Some (tr, st')"
  obtains (early) why name s where "refuse why name io s = (tr, st')" "s = st \<or> (\<exists>x. s = st\<lparr>vk := x\<rparr>)"
  | (full) name nodeID connID x st2 where "tunnelName uni cfg (SNI info) = Some name" "io_ready io"
      "fst (LookupRoute ex name (vk st)) = Inr (Some (nodeID, connID))"
      "acquire_slot cfg l ex name io (st\<lparr>vk := x\<rparr>) = (False, st2)" "refuse ''stream-cap'' name io st2 = (tr, st')"
  | (unopened) name nodeID connID x st2 tr0 st3
    where "tunnelName uni cfg (SNI info) = Some name" "io_ready io"
      "fst (LookupRoute ex name (vk st)) = Inr (Some (nodeID, connID))"
      "acquire_slot cfg l ex name io (st\<lparr>vk := x\<rparr>) = (True, st2)"
      "open_phase ex name nodeID connID io st2 = (None, tr0, st3)"
      "tr = tr0 @ fst (refuse ''no-route'' name io st3)" "st' = release_unopened ex name io st3"
  | (served) name nodeID connID x st2 via tr0 st3 tr1
    where "tunnelName uni cfg (SNI info) = Some name" "io_ready io"
      "fst (LookupRoute ex name (vk st)) = Inr (Some (nodeID, connID))"
      "acquire_slot cfg l ex name io (st\<lparr>vk := x\<rparr>) = (True, st2)"
      "open_phase ex name nodeID connID io st2 = (Some via, tr0, st3)"
      "stream_phase cfg ex name via info io st3 = Some (tr1, st')" "tr = tr0 @ tr1"
proof (cases "tunnelName uni cfg (SNI info)")
  case None
  then show ?thesis using assms early by (auto simp: handleTunnel_def)
next
  case (Some name)
  show ?thesis
  proof (cases "io_ready io \<and> (\<exists>r. fst (LookupRoute ex name (vk st)) = Inr (Some r))")
    case False
    then show ?thesis using assms early Some
      by (auto simp: handleTunnel_def split: if_splits prod.splits sum.splits option.splits)
  next
    case True
    then obtain nodeID connID s0 where r: "LookupRoute ex name (vk st) = (Inr (Some (nodeID, connID)), s0)"
      by (metis prod.collapse)
    then have r': "fst (LookupRoute ex name (vk st)) = Inr (Some (nodeID, connID))" by simp
    obtain why st1 where q: "quota_gate l ex name io (st\<lparr>vk := s0\<rparr>) = (why, st1)" by (meson surj_pair)
    then obtain x where st1: "st1 = st\<lparr>vk := x\<rparr>" using quota_gate_vk [OF q] by auto
    obtain ok st2 where a: "acquire_slot cfg l ex name io (st\<lparr>vk := x\<rparr>) = (ok, st2)" by (meson surj_pair)
    obtain via tr0 st3 where o: "open_phase ex name nodeID connID io st2 = (via, tr0, st3)" by (metis prod.collapse)
    consider "why \<noteq> None" | "why = None" "\<not> ok" | "why = None" ok "via = None" | v where "why = None" ok "via = Some v"
      by (cases why; cases via) auto
    then show ?thesis
    proof cases
      case 1
      then obtain w where "why = Some w" by auto
      then have "refuse w name io st1 = (tr, st')" using assms Some True r q by (simp add: handleTunnel_def)
      then show ?thesis using early [of w name st1] st1 by blast
    next
      case 2
      then have "refuse ''stream-cap'' name io st2 = (tr, st')"
        using assms True r q st1 a Some by (simp add: handleTunnel_def)
      then show ?thesis using full [OF Some _ r'] True a 2 by simp
    next
      case 3
      then have "tr = tr0 @ fst (refuse ''no-route'' name io st3)" "st' = release_unopened ex name io st3"
        using assms True r q st1 a o Some by (simp_all add: handleTunnel_def)
      then show ?thesis using unopened [OF Some _ r'] True a o 3 by simp
    next
      case 4
      then obtain tr1 where "stream_phase cfg ex name v info io st3 = Some (tr1, st')" "tr = tr0 @ tr1"
        using assms True r q st1 a o Some by (auto simp: handleTunnel_def)
      then show ?thesis using served [OF Some _ r'] True a o 4 by simp
    qed
  qed
qed

lemma handleTunnel_settled:
  assumes "handleTunnel cfg l ex uni info io st = Some (tr, st')"
  shows "settled tr \<and> gate_free tr"
  using assms
proof (cases rule: handleTunnel_cases)
  case (early why name s)
  with refuse_settled [of why name io s] show ?thesis by simp
next
  case (full name nodeID connID x st2)
  with refuse_settled [of "''stream-cap''" name io st2] show ?thesis by simp
next
  case unopened
  with open_phase_trace [OF unopened(5)] refuse_settled show ?thesis by (auto simp: open_trace_neutral)
next
  case served
  with open_phase_trace [OF served(5)] stream_phase_settled [OF served(6)] show ?thesis
    by (auto simp: open_trace_neutral)
qed

lemma connRate_clients: "connRate cfg ex ip now st = (r, st') \<Longrightarrow> clients st' = clients st"
  by (auto simp: connRate_def split: prod.splits sum.splits)

lemma handleConn_cases:
  assumes "handleConn cfg l ex uni sha256 ParseAddr ipString ban cio io st = Some (tr, st')"
  obtains (unreadable) "tr = [CloseClient]" "clients st' = clients st"
  | (rejected) why where "tr = [Reject why [] (peerAddr (io_remote io)), CloseClient]" "clients st' = clients st"
  | (no_hello) "tr = [Admit] @ [Reject ''handshake-timeout'' [] (peerAddr (io_remote io)), CloseClient] @ [Release]"
      "clients st' = clients st"
  | (acme) info where "tr = [Admit] @ serveACMEChallenge uni (challenge_cert cio) (challenge_deadline_ok cio)
            (challenge_handshake_ok cio) info (peerAddr (io_remote io)) @ [Release]" "clients st' = clients st"
  | (reserved) h where "tr = [Admit, Push h]" "clients st' = clients st + 1" "clients st' \<le> MaxClients cfg"
  | (tunnel) info s body s' where "handleTunnel cfg l ex uni info io s = Some (body, s')" "tr = [Admit] @ body @ [Release]"
      "clients s = clients st + 1" "st' = release_client s'"
proof (cases "ParseAddr (peerAddr (io_remote io))")
  case None
  then show ?thesis using assms unreadable by (simp add: handleConn_def)
next
  case (Some addr)
  show ?thesis
  proof (cases "case ban of None \<Rightarrow> False | Some b \<Rightarrow> b addr")
    case True
    then show ?thesis using assms Some rejected by (auto simp: handleConn_def)
  next
    case False
    obtain r st1 where c: "connRate cfg ex (ipString addr) (t_rate cio) st = (r, st1)" by (meson surj_pair)
    obtain a st2 where ad: "admit cfg st1 = (a, st2)" by (meson surj_pair)
    have c1: "clients st1 = clients st" using connRate_clients [OF c] .
    have c2: "clients st2 = clients st + (if a then 1 else 0)" "a \<Longrightarrow> clients st2 \<le> MaxClients cfg"
      using ad c1 by (auto simp: admit_def Let_def split: if_splits)
    show ?thesis
    proof (cases "r \<and> a")
      case no: False
      then show ?thesis using assms Some False c ad c1 c2 rejected by (cases r) (auto simp: handleConn_def)
    next
      case yes: True
      show ?thesis
      proof (cases "peekClientHello sha256 (set_deadline_ok cio) (clear_deadline_ok cio) (io_input cio)")
        case (Inl e)
        then show ?thesis using assms Some False c ad yes c2 no_hello by (auto simp: handleConn_def release_client_def)
      next
        case (Inr p)
        then obtain info pc where p: "peekClientHello sha256 (set_deadline_ok cio) (clear_deadline_ok cio) (io_input cio) = Inr (info, pc)"
          by (cases p) auto
        from yes have r: "r = True" "a = True" by simp_all
        have st2: "clients st2 = clients st + 1" "clients st2 \<le> MaxClients cfg" using c2 r by simp_all
        have rel: "clients (release_client st2) = clients st" using st2 by (simp add: release_client_def)
        show ?thesis using assms Some False c ad r p acme reserved tunnel st2 rel
          by (simp add: handleConn_def split: if_splits) (auto split: option.splits)
      qed
    qed
  qed
qed

text \<open>
  What the rest of the edge does while the connection is handled; the places under the ceiling that other
  connections take and give back meanwhile are theirs, so here they leave the count alone.
\<close>

definition keeps_clients :: "'s tunnel_io \<Rightarrow> bool" where
  "keeps_clients io \<longleftrightarrow>
     (\<forall>st. clients (io_others io st) = clients st) \<and> (\<forall>n c st. clients (snd (io_open io n c st)) = clients st)
     \<and> (\<forall>k st. clients (snd (free_remote (io_retry io k) st)) = clients st)
     \<and> (\<forall>k. \<forall>(f, t) \<in> set (rr_env (io_retry io k)). \<forall>st. clients (f st) = clients st)"

lemma clients_releaseSlot [simp]: "clients (releaseSlot ex i st) = clients st"
  by (simp add: releaseSlot_def upd_def split: option.split)

lemma clients_evict_now [simp]: "clients (evict_now ex i st) = clients st"
  by (simp add: evict_now_def) (simp add: upd_def)

lemma clients_evictLeastActive:
  assumes "\<forall>(f, t) \<in> set env. \<forall>st. clients (f st) = clients st"
  shows "clients (snd (evictLeastActive cfg ex name env now st)) = clients st"
  using assms
  by (induction env arbitrary: now st) (auto split: option.split)

lemma clients_evictAndAcquire:
  assumes "\<forall>r \<in> set rs. (\<forall>(f, t) \<in> set (rr_env r). \<forall>st. clients (f st) = clients st)
      \<and> (\<forall>st. clients (snd (free_remote r st)) = clients st)"
  shows "clients (snd (evictAndAcquire cfg l ex name tok rs st)) = clients st"
  using assms
proof (induction rs arbitrary: st)
  case (Cons r rs)
  obtain lo st1 where e: "evictLeastActive cfg ex name (rr_env r) (rr_now r) st = (lo, st1)" by (meson surj_pair)
  have 1: "clients st1 = clients st"
    using clients_evictLeastActive [of "rr_env r" cfg ex name "rr_now r" st] Cons.prems e by simp
  obtain fr st2 where f: "(if lo then (True, st1) else free_remote r st1) = (fr, st2)" by (meson surj_pair)
  have 2: "clients st2 = clients st"
    using f 1 Cons.prems by (cases lo) (auto, metis snd_conv)
  have ih: "clients (snd (evictAndAcquire cfg l ex name tok rs s)) = clients s" for s
    using Cons.IH Cons.prems by simp
  show ?case unfolding evictAndAcquire.simps e Let_def prod.case f
    using 2 ih by (auto split: prod.split sum.split bool.split)
qed simp

lemma clients_acquire_slot:
  assumes "keeps_clients io" "acquire_slot cfg l ex name io st = (b, st')"
  shows "clients st' = clients st"
proof -
  obtain ac s where a: "AcquireStream l ex name (io_token io) (Concurrent cfg) (t_acquire io) (vk st) = (ac, s)" by (meson surj_pair)
  have "clients (snd (evictAndAcquire cfg l ex name (io_token io) (map (io_retry io) [0..<slotRetries]) (st\<lparr>vk := s\<rparr>)))
      = clients (st\<lparr>vk := s\<rparr>)"
    by (rule clients_evictAndAcquire) (use assms(1) in \<open>auto simp: keeps_clients_def\<close>)
  then show ?thesis using assms(2) a by (cases "ac = Inr False") (auto simp: acquire_slot_def split: sum.splits bool.splits)
qed

lemma clients_open_phase:
  assumes "keeps_clients io" "open_phase ex name nodeID connID io st = (via, tr, st')"
  shows "clients st' = clients st"
proof -
  have op: "io_open io n c s = (b, s') \<Longrightarrow> clients s' = clients s" for n c s b s'
    using assms(1) unfolding keeps_clients_def by (metis snd_conv)
  obtain b st1 where o: "io_open io nodeID connID st = (b, st1)" by (meson surj_pair)
  obtain r s where l: "LookupRoute ex name (vk st1) = (r, s)" by (meson surj_pair)
  consider "st' = st1" | "st' = st1\<lparr>vk := s\<rparr>" | n c b2 where "io_open io n c (st1\<lparr>vk := s\<rparr>) = (b2, st')"
    using assms(2) unfolding open_phase_def o prod.case
    by (cases b; cases r) (auto simp: l split: option.splits if_splits prod.splits)
  then show ?thesis using op [OF o] op by cases auto
qed

lemma clients_stream_phase:
  assumes "keeps_clients io" "stream_phase cfg ex name via info io st = Some (tr, st')"
  shows "clients st' = clients st"
  using assms
  by (auto simp: stream_phase_def Let_def untrackStream_def trackStream_def keeps_clients_def split: option.splits)

lemma clients_handleTunnel:
  assumes "keeps_clients io" "handleTunnel cfg l ex uni info io st = Some (tr, st')"
  shows "clients st' = clients st"
  using assms(2)
proof (cases rule: handleTunnel_cases)
  case (early why name s)
  then show ?thesis by (auto simp: refuse_def)
next
  case (full name nodeID connID x st2)
  then show ?thesis using clients_acquire_slot [OF assms(1) full(4)] by (simp add: refuse_def)
next
  case (unopened name nodeID connID x st2 tr0 st3)
  then show ?thesis
    using clients_acquire_slot [OF assms(1) unopened(4)] clients_open_phase [OF assms(1) unopened(5)]
    by (simp add: release_unopened_def)
next
  case (served name nodeID connID x st2 via tr0 st3 tr1)
  then show ?thesis
    using clients_acquire_slot [OF assms(1) served(4)] clients_open_phase [OF assms(1) served(5)]
      clients_stream_phase [OF assms(1) served(6)] by simp
qed

text \<open>Closing a handed-over connection any number of times.\<close>

definition close_held :: "nat \<Rightarrow> 's edge \<Rightarrow> 's edge" where
  "close_held n st = snd (((\<lambda>(h, s). held_Close h s) ^^ n) (\<lparr>held_once = False\<rparr>, st))"

lemma close_held_once: "close_held (Suc n) st = release_client st"
proof -
  have "((\<lambda>(h, s). held_Close h s) ^^ Suc n) (\<lparr>held_once = False\<rparr>, st) = (\<lparr>held_once = True\<rparr>, release_client st)"
    by (induction n) (simp_all add: held_Close_def)
  then show ?thesis by (simp add: close_held_def)
qed

text \<open>
  C18. Every connection the edge handles ends cleanly, and the count of clients is back where it was. A
  connection for a reserved host is handed over together with its place under the client ceiling: the
  count is one higher, not above the ceiling, and closing that connection once or more often brings it
  back. Any other one is closed exactly once, is either rejected once or opened once, and when opened its
  stream, its far side and its metrics are closed once, and its two log events are a start and an
  end of the same connection with the close reason the metrics report; the place it took, if it took
  one, is given back, so the count of clients is what it was.
\<close>

theorem handleConn_accounting:
  assumes "handleConn cfg l ex uni sha256 ParseAddr ipString ban cio io st = Some (tr, st')"
    and "keeps_clients io"
  shows "(\<exists>h. tr = [Admit, Push h]) \<and> clients st' = clients st + 1 \<and> clients st' \<le> MaxClients cfg
      \<and> (\<forall>n. clients (close_held (Suc n) st') = clients st)
    \<or> (\<exists>body. (tr = body \<or> tr = [Admit] @ body @ [Release]) \<and> settled body \<and> gate_free body)
      \<and> clients st' = clients st"
proof -
  have simple: "settled [CloseClient] \<and> gate_free [CloseClient]"
    "settled [Reject a b c, CloseClient] \<and> gate_free [Reject a b c, CloseClient]"
    "settled [AnswerChallenge d, CloseClient] \<and> gate_free [AnswerChallenge d, CloseClient]" for a b c d
    by (simp_all add: settled_def gate_free_def trace_simps)
  have acme_ok: "settled (serveACMEChallenge u c d h info ip) \<and> gate_free (serveACMEChallenge u c d h info ip)" for u c d h info ip
    by (simp add: serveACMEChallenge_def Let_def simple)
  show ?thesis using assms(1)
  proof (cases rule: handleConn_cases)
    case unreadable
    then show ?thesis using simple(1) by blast
  next
    case rejected
    then show ?thesis using simple(2) by blast
  next
    case no_hello
    then show ?thesis using simple(2) by blast
  next
    case acme
    then show ?thesis using acme_ok by blast
  next
    case reserved
    then show ?thesis by (simp add: close_held_once release_client_def)
  next
    case tunnel
    have "clients st' = clients st"
      using clients_handleTunnel [OF assms(2) tunnel(1)] tunnel(3,4) by (simp add: release_client_def)
    then show ?thesis using handleTunnel_settled [OF tunnel(1)] tunnel(2) by blast
  qed
qed

text \<open>A Valkey that never answers, and a connection without a server name.\<close>

definition down_exec :: "'s client" where
  "down_exec cs s = (Inl (VErr ''down''), s)"

definition demo_round :: "vstate retry_round" where
  "demo_round = \<lparr>rr_expired = False, rr_env = [], rr_now = 0, free_remote = Pair False, rr_lim_now = 0\<rparr>"

definition demo_io :: "vstate tunnel_io" where
  "demo_io = \<lparr>io_ready = True, io_remote = ''1.2.3.4:5'', t_quota = 0, t_acquire = 0, io_token = ''tok'', io_conn = ''c1'', io_oid = 9,
     io_open = (\<lambda>_ _. Pair True), io_retry = (\<lambda>_. demo_round), t_started = 0, t_act = 0, t_watch = 0, io_events = demo_events,
     io_others = id, t_ended = 5, io_logging = True\<rparr>"

definition demo_conn :: conn_io where
  "demo_conn = \<lparr>t_rate = 0, set_deadline_ok = True, clear_deadline_ok = True, io_input = demo_hello_bytes,
     challenge_cert = (\<lambda>_. False), challenge_deadline_ok = True, challenge_handshake_ok = True\<rparr>"

definition demo_lim :: Limiter where
  "demo_lim = \<lparr>bwRate = 10, pktCap = 0, dayCap = 100, weekCap = 100, streamTTL = 30 * Second\<rparr>"

lemma peerAddr_demo: "peerAddr ''1.2.3.4:5'' = ''1.2.3.4''"
  by (simp add: peerAddr_def SplitHostPort_def)

lemma demo_peek2:
  "\<exists>pc j. peekClientHello (\<lambda>_. []) True True demo_hello_bytes
     = Inr (\<lparr>SNI = [], ALPN = [], TLSVersion = ''1.2'', JA4 = j\<rparr>, pc)"
  by (simp add: peekClientHello_def demo_hello_bytes_def ReadFull_def be16_def parseClientHello_def Let_def
      finish_hello_def ext_acc0_def pickVersion_def versionString_def u16_def)

theorem handleConn_accounting_witness:
  "\<exists>tr st'. handleConn demo_cfg demo_lim down_exec id (\<lambda>_. []) Some id None demo_conn demo_io demo_edge = Some (tr, st')
     \<and> tr = [Admit] @ [Reject ''no-route'' [] ''1.2.3.4'', CloseClient] @ [Release]
     \<and> settled [Reject ''no-route'' [] ''1.2.3.4'', CloseClient] \<and> clients st' = clients demo_edge"
proof -
  let ?run = "handleConn demo_cfg demo_lim down_exec id (\<lambda>_. []) Some id None demo_conn demo_io demo_edge"
  let ?tr = "[Admit] @ [Reject ''no-route'' [] ''1.2.3.4'', CloseClient] @ [Release]"
  have "\<exists>st'. ?run = Some (?tr, st')"
    using demo_peek2
    by (auto simp: handleConn_def demo_io_def demo_conn_def peerAddr_demo connRate_def Allow_def down_exec_def admit_def
        demo_edge_def demo_cfg_def acmeTLS1Protocol_def ToLower_def is_ascii_def handleTunnel_def tunnelName_def refuse_def HasSuffix_def Let_def)
  then obtain st' where run: "?run = Some (?tr, st')" by blast
  have "keeps_clients demo_io" by (simp add: keeps_clients_def demo_io_def demo_round_def)
  from handleConn_accounting [OF run this]
  have "settled [Reject ''no-route'' [] ''1.2.3.4'', CloseClient] \<and> clients st' = clients demo_edge"
    by (auto simp: Cons_eq_append_conv gate_free_def)
  with run show ?thesis by blast
qed

subsection \<open>The slot ledger\<close>

text \<open>
  The slot of a tunnel and member, seen from the stream object that owns it: released as often as
  the object says, and no other object carries the same tunnel and member.
\<close>

definition slot :: "activeStream \<Rightarrow> (string \<times> string) \<times> bool" where
  "slot a = ((as_tunnel a, as_member a), as_released a)"

definition slots :: "'s edge \<Rightarrow> nat \<rightharpoonup> (string \<times> string) \<times> bool" where
  "slots st k = map_option slot (objs st k)"

definition ledger :: "nat \<Rightarrow> string \<times> string \<Rightarrow> 's edge \<Rightarrow> bool" where
  "ledger i nt st \<longleftrightarrow>
     (case slots st i of
        None \<Rightarrow> count_list (slot_releases st) nt = 0
      | Some (own, released) \<Rightarrow> own = nt \<and> count_list (slot_releases st) nt = (if released then 1 else 0))
     \<and> (\<forall>j. j \<noteq> i \<longrightarrow> map_option fst (slots st j) \<noteq> Some nt)"

lemma slots_None: "slots st i = None \<longleftrightarrow> objs st i = None"
  by (simp add: slots_def)

text \<open>What the rest of the edge may do while a stream runs: keep its ledger and its object.\<close>

locale slot_op =
  fixes op :: "'s edge \<Rightarrow> 's edge" and i :: nat and nt :: "string \<times> string"
  assumes keeps: "ledger i nt st \<Longrightarrow> ledger i nt (op st)"
    and present: "ledger i nt st \<Longrightarrow> objs (op st) i = None \<longleftrightarrow> objs st i = None"
begin

lemma iterate: "ledger i nt st \<Longrightarrow> ledger i nt ((op ^^ n) st) \<and> (objs ((op ^^ n) st) i = None \<longleftrightarrow> objs st i = None)"
  by (induction n) (auto simp: keeps present)

end

lemma slot_op_id: "slot_op id i nt"
  by unfold_locales simp_all

lemma slot_op_comp: "slot_op f i nt \<Longrightarrow> slot_op g i nt \<Longrightarrow> slot_op (\<lambda>st. g (f st)) i nt"
  by (simp add: slot_op_def)

lemma ledger_cong:
  assumes "slots st' = slots st" "slot_releases st' = slot_releases st"
  shows "ledger i nt st' = ledger i nt st"
  unfolding ledger_def assms ..

lemma slots_upd:
  assumes "\<And>a. slot (f a) = slot a"
  shows "slots (upd j f st) = slots st"
proof (rule ext)
  fix k
  show "slots (upd j f st) k = slots st k"
    by (cases "objs st k") (auto simp: slots_def upd_def assms)
qed

lemma slots_fold_upd: "(\<And>a. slot (f a) = slot a) \<Longrightarrow> slots (fold (\<lambda>j. upd j f) js st) = slots st
    \<and> slot_releases (fold (\<lambda>j. upd j f) js st) = slot_releases st"
  by (induction js arbitrary: st) (simp_all add: slots_upd, simp add: upd_def)

lemma slot_op_slots:
  assumes "\<And>st. slots (f st) = slots st" "\<And>st. slot_releases (f st) = slot_releases st"
  shows "slot_op f i nt"
proof
  fix st
  show "ledger i nt st \<Longrightarrow> ledger i nt (f st)" using ledger_cong [OF assms] by blast
  show "objs (f st) i = None \<longleftrightarrow> objs st i = None" using assms(1) [of st] by (metis slots_None)
qed

lemma slots_releaseSlot:
  "slots (releaseSlot ex j st) = (case slots st j of None \<Rightarrow> slots st | Some (s, r) \<Rightarrow> (slots st)(j \<mapsto> (s, True)))"
  "slot_releases (releaseSlot ex j st) =
     slot_releases st @ (case slots st j of Some (s, False) \<Rightarrow> [s] | _ \<Rightarrow> [])"
  by (auto simp: releaseSlot_def slots_def slot_def upd_def split: option.splits)

lemma slot_op_releaseSlot: "slot_op (releaseSlot ex j) i nt"
proof
  fix st :: "'a edge"
  assume led: "ledger i nt st"
  show "ledger i nt (releaseSlot ex j st)"
  proof (cases "slots st j")
    case None
    then have "slots (releaseSlot ex j st) = slots st" "slot_releases (releaseSlot ex j st) = slot_releases st"
      by (simp_all only: slots_releaseSlot option.case append_Nil2)
    then show ?thesis using led ledger_cong by blast
  next
    case (Some p)
    obtain s r where p: "p = (s, r)" by (cases p)
    show ?thesis
    proof (cases "j = i")
      case True
      then show ?thesis using led Some p by (cases r) (simp_all add: ledger_def slots_releaseSlot)
    next
      case False
      then have "s \<noteq> nt" using led Some p unfolding ledger_def by force
      then have c: "count_list (slot_releases (releaseSlot ex j st)) nt = count_list (slot_releases st) nt"
        by (cases r) (simp_all add: slots_releaseSlot Some p)
      have m: "slots (releaseSlot ex j st) i = slots st i"
        "map_option fst (slots (releaseSlot ex j st) k) = map_option fst (slots st k)" for k
        using False by (simp_all add: slots_releaseSlot Some p)
      show ?thesis using led unfolding ledger_def c m .
    qed
  qed
  show "objs (releaseSlot ex j st) i = None \<longleftrightarrow> objs st i = None"
    by (auto simp: releaseSlot_def upd_def split: option.splits)
qed

lemma slot_op_evict_now: "slot_op (evict_now ex j) i nt"
proof -
  have "slot_op (upd j (\<lambda>a. a\<lparr>as_evicted := True, as_cancelled := True\<rparr>)) i nt"
    by (rule slot_op_slots) (simp_all add: slots_upd slot_def, simp add: upd_def)
  from slot_op_comp [OF this slot_op_releaseSlot [of ex j]] show ?thesis
    by (simp add: evict_now_def [abs_def])
qed

lemma slot_op_evictLeastActive:
  assumes "\<forall>(f, t) \<in> set env. slot_op f i nt" "evictLeastActive cfg ex name env now st = (b, st')" "ledger i nt st"
  shows "ledger i nt st' \<and> (objs st' i = None \<longleftrightarrow> objs st i = None)"
  using assms
proof (induction env arbitrary: now st)
  case Nil
  then show ?case using slot_op_evict_now [of ex _ i nt] by (auto simp: slot_op_def split: option.splits)
next
  case (Cons e env)
  obtain f t where e: "e = (f, t)" by (cases e)
  then have f: "ledger i nt (f st)" "objs (f st) i = None \<longleftrightarrow> objs st i = None"
    using Cons.prems by (auto simp: slot_op_def)
  show ?case
  proof (cases "fst (leastActive cfg now name st)")
    case None
    then show ?thesis using Cons.prems e by auto
  next
    case (Some k)
    show ?thesis
    proof (cases "is_evicted k (f st)")
      case True
      then show ?thesis using Cons.IH [of t "f st"] Cons.prems e Some f by auto
    next
      case False
      then have "st' = evict_now ex k (f st)" using Cons.prems e Some by auto
      then show ?thesis using slot_op_evict_now [of ex k i nt] f by (simp add: slot_op_def)
    qed
  qed
qed

interpretation terminate_op: slot_op "EvictTunnelStreams name" i nt for name i nt
  by (rule slot_op_slots)
    (simp_all add: EvictTunnelStreams_def slots_fold_upd slot_def)

interpretation evict_conn_op: slot_op "\<lambda>st. snd (EvictConnStreams name connID why st)" i nt for name connID why i nt
  by (rule slot_op_slots)
    (simp_all add: EvictConnStreams_def Let_def slots_fold_upd slot_def evict_mark_def)

interpretation free_slot_op: slot_op "\<lambda>st. snd (FreeSlot cfg ex name [] now st)" i nt for cfg ex name now i nt
proof
  fix st :: "'a edge"
  assume "ledger i nt st"
  then show "ledger i nt (snd (FreeSlot cfg ex name [] now st))"
    "objs (snd (FreeSlot cfg ex name [] now st)) i = None \<longleftrightarrow> objs st i = None"
    using slot_op_evictLeastActive [of "[]" i nt cfg ex name now st, OF _ prod.collapse [symmetric]]
    by (simp_all add: FreeSlot_def)
qed

text \<open>The environment of one tunnel connection: every operation in it keeps the connection's ledger.\<close>

definition fair_round :: "nat \<Rightarrow> string \<times> string \<Rightarrow> 's retry_round \<Rightarrow> bool" where
  "fair_round i nt r \<longleftrightarrow> (\<forall>(f, t) \<in> set (rr_env r). slot_op f i nt) \<and> slot_op (\<lambda>st. snd (free_remote r st)) i nt"

definition fair_env :: "string \<Rightarrow> 's tunnel_io \<Rightarrow> bool" where
  "fair_env name io \<longleftrightarrow>
     (let i = io_oid io; nt = (name, io_token io) in
      slot_op (io_others io) i nt \<and> (\<forall>n c. slot_op (\<lambda>st. snd (io_open io n c st)) i nt)
      \<and> (\<forall>k. fair_round i nt (io_retry io k)))"

lemma evictAndAcquire_ledger:
  assumes "\<forall>r \<in> set rs. fair_round i nt r" "evictAndAcquire cfg l ex name tok rs st = (b, st')" "ledger i nt st"
  shows "ledger i nt st' \<and> (objs st' i = None \<longleftrightarrow> objs st i = None)"
  using assms
proof (induction rs arbitrary: st)
  case (Cons r rs)
  obtain lo st1 where e: "evictLeastActive cfg ex name (rr_env r) (rr_now r) st = (lo, st1)" by (meson surj_pair)
  have 1: "ledger i nt st1" "objs st1 i = None \<longleftrightarrow> objs st i = None"
    using slot_op_evictLeastActive [OF _ e Cons.prems(3)] Cons.prems(1) by (auto simp: fair_round_def)
  obtain fr st2 where f: "(if lo then (True, st1) else free_remote r st1) = (fr, st2)" by (meson surj_pair)
  have 2: "ledger i nt st2" "objs st2 i = None \<longleftrightarrow> objs st i = None"
    using f 1 Cons.prems(1) by (auto simp: fair_round_def slot_op_def split: if_splits)
  obtain ac s where a: "AcquireStream l ex name tok (Concurrent cfg) (rr_lim_now r) (vk st2) = (ac, s)" by (meson surj_pair)
  have 3: "ledger i nt (st2\<lparr>vk := s\<rparr>)" "objs (st2\<lparr>vk := s\<rparr>) i = None \<longleftrightarrow> objs st i = None"
    using 2 ledger_cong [of "st2\<lparr>vk := s\<rparr>" st2] by (simp_all add: slots_def [abs_def])
  have run: "evictAndAcquire cfg l ex name tok (r # rs) st =
      (if rr_expired r then (False, st) else if \<not> fr then (False, st2)
       else if ac = Inr False then evictAndAcquire cfg l ex name tok rs (st2\<lparr>vk := s\<rparr>) else (True, st2\<lparr>vk := s\<rparr>))"
    unfolding evictAndAcquire.simps e Let_def prod.case f a by (cases ac) (auto split: bool.split)
  show ?case
  proof (cases "rr_expired r \<or> \<not> fr \<or> ac \<noteq> Inr False")
    case True
    then have "st' \<in> {st, st2, st2\<lparr>vk := s\<rparr>}"
      using Cons.prems(2) unfolding run by (auto split: if_splits)
    then show ?thesis using Cons.prems(3) 2 3 by auto
  next
    case False
    then have "evictAndAcquire cfg l ex name tok rs (st2\<lparr>vk := s\<rparr>) = (b, st')"
      using Cons.prems(2) unfolding run by simp
    from Cons.IH [OF _ this 3(1)] Cons.prems(1) 3(2) show ?thesis by simp
  qed
qed simp

lemma acquire_slot_ledger:
  assumes "fair_env name io" "acquire_slot cfg l ex name io st = (b, st')"
    and "ledger (io_oid io) (name, io_token io) st"
  shows "ledger (io_oid io) (name, io_token io) st' \<and> (objs st' (io_oid io) = None \<longleftrightarrow> objs st (io_oid io) = None)"
proof -
  obtain ac s where a: "AcquireStream l ex name (io_token io) (Concurrent cfg) (t_acquire io) (vk st) = (ac, s)" by (meson surj_pair)
  have led: "ledger (io_oid io) (name, io_token io) (st\<lparr>vk := s\<rparr>)"
    using assms(3) ledger_cong [of "st\<lparr>vk := s\<rparr>" st] by (simp add: slots_def [abs_def])
  have fair: "\<forall>r \<in> set (map (io_retry io) [0..<slotRetries]). fair_round (io_oid io) (name, io_token io) r"
    using assms(1) by (auto simp: fair_env_def Let_def)
  show ?thesis
  proof (cases "ac = Inr False")
    case True
    with evictAndAcquire_ledger [OF fair _ led] assms(2) a show ?thesis by (auto simp: acquire_slot_def)
  next
    case False
    then have "st' = st\<lparr>vk := s\<rparr>" using assms(2) a by (auto simp: acquire_slot_def split: sum.splits bool.splits)
    then show ?thesis using led by simp
  qed
qed

lemma open_phase_ledger:
  fixes st :: "'s edge"
  assumes "fair_env name io" "open_phase ex name nodeID connID io st = (via, tr, st')"
    and "ledger (io_oid io) (name, io_token io) st"
  shows "ledger (io_oid io) (name, io_token io) st' \<and> (objs st' (io_oid io) = None \<longleftrightarrow> objs st (io_oid io) = None)"
proof -
  let ?i = "io_oid io" and ?nt = "(name, io_token io)"
  have fair: "slot_op (\<lambda>st. snd (io_open io n c st)) ?i ?nt" for n c
    using assms(1) by (simp add: fair_env_def Let_def)
  have op: "ledger ?i ?nt s' \<and> (objs s' ?i = None \<longleftrightarrow> objs s ?i = None)"
    if "io_open io n c s = (b, s')" "ledger ?i ?nt s" for n c b s s'
    using slot_op.keeps [OF fair that(2), of n c] slot_op.present [OF fair that(2), of n c] that(1) by simp
  have vk: "ledger ?i ?nt (s\<lparr>vk := x\<rparr>) = ledger ?i ?nt s" for s :: "'s edge" and x
    by (rule ledger_cong) (simp_all add: slots_def [abs_def])
  obtain b st1 where o: "io_open io nodeID connID st = (b, st1)" by (meson surj_pair)
  obtain r s where l: "LookupRoute ex name (vk st1) = (r, s)" by (meson surj_pair)
  have 1: "ledger ?i ?nt (st1\<lparr>vk := s\<rparr>)" "objs st1 ?i = None \<longleftrightarrow> objs st ?i = None"
    using op [OF o assms(3)] vk by simp_all
  consider "st' = st1" | "st' = st1\<lparr>vk := s\<rparr>" | n c b2 where "io_open io n c (st1\<lparr>vk := s\<rparr>) = (b2, st')"
    using assms(2) unfolding open_phase_def o prod.case
    by (cases b; cases r) (auto simp: l split: option.splits if_splits prod.splits)
  then show ?thesis
  proof cases
    case 3
    from op [OF this 1(1)] 1(2) show ?thesis by simp
  qed (use 1 vk in simp_all)
qed

lemma open_phase_opens: "open_phase ex name nodeID connID io st = (via, tr, st') \<Longrightarrow> OpenFar nodeID connID (io_token io) \<in> set tr"
  by (auto simp: open_phase_def split: bool.splits sum.splits option.splits if_splits prod.splits)

lemma stream_phase_ledger:
  assumes "fair_env name io" "stream_phase cfg ex name via info io st = Some (tr, st')"
    and "ledger (io_oid io) (name, io_token io) st" "objs st (io_oid io) = None"
  shows "count_list (slot_releases st') (name, io_token io) = 1"
proof -
  let ?i = "io_oid io" and ?nt = "(name, io_token io)"
  let ?st1 = "trackStream ?i (st\<lparr>objs := (objs st)(?i \<mapsto> new_stream name via io)\<rparr>)"
  let ?st2 = "untrackStream ?i (io_others io ?st1)"
  have s1: "slots ?st1 = (slots st)(?i \<mapsto> (?nt, False))" "slot_releases ?st1 = slot_releases st"
    by (auto simp: trackStream_def slots_def slot_def new_stream_def)
  have "slots st ?i = None" using assms(4) by (simp add: slots_None)
  then have "ledger ?i ?nt ?st1" using assms(3) unfolding ledger_def s1 by simp
  moreover have oth: "slot_op (io_others io) ?i ?nt" using assms(1) by (simp add: fair_env_def Let_def)
  ultimately have 2: "ledger ?i ?nt (io_others io ?st1)" "objs (io_others io ?st1) ?i \<noteq> None"
    by (auto simp: slot_op_def trackStream_def)
  have 3: "ledger ?i ?nt ?st2" "slots ?st2 ?i \<noteq> None"
    using 2 ledger_cong [of ?st2 "io_others io ?st1"] by (simp_all add: untrackStream_def slots_def [abs_def])
  obtain s r where "slots ?st2 ?i = Some (s, r)" using 3(2) by (metis not_None_eq prod.collapse)
  then have "slots (releaseSlot ex ?i ?st2) ?i = Some (s, True)" by (simp add: slots_releaseSlot)
  moreover have "ledger ?i ?nt (releaseSlot ex ?i ?st2)" by (rule slot_op.keeps [OF slot_op_releaseSlot 3(1)])
  moreover have "st' = releaseSlot ex ?i ?st2"
    using assms(2) by (auto simp: stream_phase_def Let_def split: option.splits)
  ultimately show ?thesis by (auto simp: ledger_def)
qed

text \<open>
  C17. A tunnel connection gives its concurrency slot back exactly once. Whatever the other connections, the
  evictors, the admin and the ban reload do meanwhile (each of which may release the slot of a victim), when
  \<open>handleTunnel\<close> returns its slot has been released once if it was taken (that is, if the far side
  was ever asked for) and never if it was not.
\<close>

theorem handleTunnel_slot_once:
  fixes st :: "'s edge"
  assumes "handleTunnel cfg l ex uni info io st = Some (tr, st')"
    and "tunnelName uni cfg (SNI info) = Some name" "fair_env name io"
    and "ledger (io_oid io) (name, io_token io) st" "objs st (io_oid io) = None"
  shows "count_list (slot_releases st') (name, io_token io)
    = (if \<exists>n c. OpenFar n c (io_token io) \<in> set tr then 1 else 0)"
proof -
  let ?i = "io_oid io" and ?nt = "(name, io_token io)"
  have vk: "ledger ?i ?nt (st\<lparr>vk := x\<rparr>)" "objs (st\<lparr>vk := x\<rparr>) ?i = None" for x
    using assms(4,5) ledger_cong [of "st\<lparr>vk := x\<rparr>" st] by (simp_all add: slots_def [abs_def])
  have none: "count_list (slot_releases s) ?nt = 0" if "ledger ?i ?nt s" "objs s ?i = None" for s :: "'s edge"
    using that by (simp add: ledger_def slots_def)
  have quiet_refusal: "OpenFar n c t \<notin> set tr \<and> slot_releases st' = slot_releases s" if "refuse why nm io s = (tr, st')" for why nm s n c t
    using that by (auto simp: refuse_def)
  from assms(1) show ?thesis
  proof (cases rule: handleTunnel_cases)
    case (early why nm s)
    then have "slot_releases s = slot_releases st" by auto
    then show ?thesis using quiet_refusal [OF early(1)] none [OF assms(4,5)] by simp
  next
    case (full nm nodeID connID x st2)
    then have "nm = name" using assms(2) by simp
    then show ?thesis
      using quiet_refusal [OF full(5)] acquire_slot_ledger [OF assms(3) full(4) [unfolded \<open>nm = name\<close>] vk(1)] vk(2) none [of st2] by simp
  next
    case (unopened nm nodeID connID x st2 tr0 st3)
    then have nm: "nm = name" using assms(2) by simp
    have 2: "ledger ?i ?nt st2" "objs st2 ?i = None"
      using acquire_slot_ledger [OF assms(3) unopened(4) [unfolded nm] vk(1)] vk(2) by simp_all
    have "count_list (slot_releases st3) ?nt = 0"
      using open_phase_ledger [OF assms(3) unopened(5) [unfolded nm] 2(1)] 2(2) none by simp
    then show ?thesis using open_phase_opens [OF unopened(5)] unopened(6,7) nm by (auto simp: release_unopened_def)
  next
    case (served nm nodeID connID x st2 via tr0 st3 tr1)
    then have nm: "nm = name" using assms(2) by simp
    have 2: "ledger ?i ?nt st2" "objs st2 ?i = None"
      using acquire_slot_ledger [OF assms(3) served(4) [unfolded nm] vk(1)] vk(2) by simp_all
    have 3: "ledger ?i ?nt st3" "objs st3 ?i = None"
      using open_phase_ledger [OF assms(3) served(5) [unfolded nm] 2(1)] 2(2) by simp_all
    show ?thesis
      using stream_phase_ledger [OF assms(3) served(6) [unfolded nm] 3] open_phase_opens [OF served(5)] served(7) by auto
  qed
qed

definition demo_routes :: "vstate edge" where
  "demo_routes = demo_edge\<lparr>vk := \<lparr>clock = 0, keyspace = [key ''t'' \<mapsto> (VHash [''node'' \<mapsto> ''n1'', ''connID'' \<mapsto> ''p1''], None)]\<rparr>\<rparr>"

definition demo_info :: ClientHelloInfo where
  "demo_info = \<lparr>SNI = ''T.x'', ALPN = [], TLSVersion = [], JA4 = []\<rparr>"

lemma demo_tunnel_run:
  "case map_option fst (handleTunnel demo_cfg demo_lim mem_exec id demo_info demo_io demo_routes) of
     None \<Rightarrow> False | Some tr \<Rightarrow> OpenFar ''n1'' ''p1'' ''tok'' \<in> set tr \<and> PublicConnClose CloseQuotaExhausted \<in> set tr"
  by code_simp

theorem handleTunnel_slot_once_witness:
  "\<exists>tr st'. handleTunnel demo_cfg demo_lim mem_exec id demo_info demo_io demo_routes = Some (tr, st')
     \<and> OpenFar ''n1'' ''p1'' ''tok'' \<in> set tr \<and> count_list (slot_releases st') (''t'', ''tok'') = 1"
proof -
  obtain tr st' where run: "handleTunnel demo_cfg demo_lim mem_exec id demo_info demo_io demo_routes = Some (tr, st')"
    and o: "OpenFar ''n1'' ''p1'' ''tok'' \<in> set tr"
    using demo_tunnel_run by (auto split: option.splits)
  have name: "tunnelName id demo_cfg (SNI demo_info) = Some ''t''" by code_simp
  have pair: "slot_op (\<lambda>st. snd (Pair b st)) i nt" for b :: bool and i nt
    using slot_op_id [of i nt] by (simp add: id_def)
  have fair: "fair_env ''t'' demo_io"
    using pair by (simp add: fair_env_def demo_io_def fair_round_def demo_round_def slot_op_id id_def [symmetric])
  have led: "ledger (io_oid demo_io) (''t'', io_token demo_io) demo_routes" "objs demo_routes (io_oid demo_io) = None"
    by (simp_all add: ledger_def slots_def demo_routes_def demo_edge_def demo_io_def slot_def demo_stream_def)
  have tok: "io_token demo_io = ''tok''" by (simp add: demo_io_def)
  from handleTunnel_slot_once [OF run name fair led] have "count_list (slot_releases st') (''t'', ''tok'') = 1"
    using o by (auto simp: tok split: if_splits)
  then show ?thesis using run o by blast
qed

text \<open>
  A server name selects a tunnel exactly when, in lower case, it is one non-empty label
  without dots followed by a dot and the configured tunnel domain; the tunnel is that label.
\<close>

lemma tunnelName_iff:
  "tunnelName uni cfg sni = Some name \<longleftrightarrow>
     TunnelDomain cfg \<noteq> [] \<and> name \<noteq> [] \<and> CHR ''.'' \<notin> set name
     \<and> ToLower uni sni = name @ CHR ''.'' # TunnelDomain cfg"
  by (auto simp: tunnelName_def Let_def HasSuffix_iff ContainsByte_def split: if_splits)

end
