(* ===== verification/Dial_Backs.thy ===== *)
theory Dial_Backs
  imports Tunnel_Prelude
begin

text \<open>
  The rendezvous between a public connection waiting for its phone and the data connection
  the phone dials back with (\<^verbatim>\<open>src/internal/phoneconn/dialback.go\<close>). Each operation under
  the mutex is one function; \<^verbatim>\<open>Await\<close> is a sequence of such steps, and the step relation
  interleaves any number of waiters with any number of deliveries.
\<close>

record 'c dialWaiter =
  dw_tunnel :: string
  dw_conn :: "'c option"

text \<open>Where a waiter is: asking for the OPEN, in the select, leaving with its result before and after it unregistered, and returned.\<close>

datatype 'c await_phase =
  Opening | Selecting | Leaving "'c option" | Draining "'c option" | Returned "'c option"

record 'c dialbacks =
  waiting :: "string \<rightharpoonup> nat"
  waiters :: "nat \<rightharpoonup> 'c dialWaiter"
  tokens :: "nat \<Rightarrow> string"
  phases :: "nat \<Rightarrow> 'c await_phase"
  closed_conns :: "'c list"

definition NewDialBacks :: "'c dialbacks" where
  "NewDialBacks = \<lparr>waiting = Map.empty, waiters = Map.empty, tokens = (\<lambda>_. []), phases = (\<lambda>_. Opening), closed_conns = []\<rparr>"

subsection \<open>Operations\<close>

text \<open>The head of \<^verbatim>\<open>Await\<close>: register the waiter, or fail because the token is taken.\<close>

definition await_register :: "nat \<Rightarrow> string \<Rightarrow> string \<Rightarrow> 'c dialbacks \<Rightarrow> bool \<times> 'c dialbacks" where
  "await_register w tok tunnel d =
     (case waiting d tok of
        Some _ \<Rightarrow> (False, d)
      | None \<Rightarrow> (True, d\<lparr>waiting := (waiting d)(tok \<mapsto> w),
                         waiters := (waiters d)(w \<mapsto> \<lparr>dw_tunnel = tunnel, dw_conn = None\<rparr>),
                         tokens := (tokens d)(w := tok), phases := (phases d)(w := Opening)\<rparr>))"

text \<open>The end of \<^verbatim>\<open>Await\<close>, deferred: forget the token if it is still this waiter's, then close a connection nobody took.\<close>

definition abandon_forget :: "string \<Rightarrow> nat \<Rightarrow> 'c dialbacks \<Rightarrow> 'c dialbacks" where
  "abandon_forget tok w d = (if waiting d tok = Some w then d\<lparr>waiting := (waiting d)(tok := None)\<rparr> else d)"

definition take_conn :: "nat \<Rightarrow> 'c dialbacks \<Rightarrow> 'c option \<times> 'c dialbacks" where
  "take_conn w d =
     (case waiters d w of
        None \<Rightarrow> (None, d)
      | Some x \<Rightarrow> (dw_conn x, d\<lparr>waiters := (waiters d)(w \<mapsto> x\<lparr>dw_conn := None\<rparr>)\<rparr>))"

definition abandon_drain :: "nat \<Rightarrow> 'c dialbacks \<Rightarrow> 'c dialbacks" where
  "abandon_drain w d =
     (case take_conn w d of
        (None, d') \<Rightarrow> d'
      | (Some c, d') \<Rightarrow> d'\<lparr>closed_conns := closed_conns d' @ [c]\<rparr>)"

definition expects :: "string \<Rightarrow> string \<Rightarrow> 'c dialbacks \<Rightarrow> bool" where
  "expects tok tunnel d =
     (case waiting d tok of
        None \<Rightarrow> False
      | Some w \<Rightarrow> tunnel = [] \<or> (case waiters d w of None \<Rightarrow> False | Some x \<Rightarrow> dw_tunnel x = tunnel))"

datatype 'c deliver_result = Refused | Delivered "'c dialbacks" | Blocked

text \<open>
  \<^verbatim>\<open>deliver\<close> sends on the waiter's channel of capacity one while holding the mutex; \<open>Blocked\<close> is
  the case that the channel is full.
\<close>

definition deliver :: "string \<Rightarrow> string \<Rightarrow> 'c \<Rightarrow> 'c dialbacks \<Rightarrow> 'c deliver_result" where
  "deliver tok tunnel c d =
     (if \<not> expects tok tunnel d then Refused
      else case waiting d tok of
        None \<Rightarrow> Refused
      | Some w \<Rightarrow>
          (case waiters d w of
             None \<Rightarrow> Refused
           | Some x \<Rightarrow>
               (case dw_conn x of
                  Some _ \<Rightarrow> Blocked
                | None \<Rightarrow> Delivered (d\<lparr>waiting := (waiting d)(tok := None),
                                      waiters := (waiters d)(w \<mapsto> x\<lparr>dw_conn := Some c\<rparr>)\<rparr>))))"

definition close_conn :: "'c \<Rightarrow> 'c dialbacks \<Rightarrow> 'c dialbacks" where
  "close_conn c d = d\<lparr>closed_conns := closed_conns d @ [c]\<rparr>"

definition goto :: "nat \<Rightarrow> 'c await_phase \<Rightarrow> 'c dialbacks \<Rightarrow> 'c dialbacks" where
  "goto w p d = d\<lparr>phases := (phases d)(w := p)\<rparr>"

subsection \<open>Interleavings\<close>

text \<open>Where a connection is: closed, in a waiter's channel, or the result a waiter leaves with.\<close>

datatype conn_place = Closed | InChannel nat | Result nat

fun phase_conn :: "'c await_phase \<Rightarrow> 'c option" where
  "phase_conn Opening = None"
| "phase_conn Selecting = None"
| "phase_conn (Leaving r) = r"
| "phase_conn (Draining r) = r"
| "phase_conn (Returned r) = r"

definition chan :: "'c dialbacks \<Rightarrow> nat \<Rightarrow> 'c option" where
  "chan d w = (case waiters d w of None \<Rightarrow> None | Some x \<Rightarrow> dw_conn x)"

fun located :: "'c dialbacks \<Rightarrow> 'c \<Rightarrow> conn_place \<Rightarrow> bool" where
  "located d c Closed \<longleftrightarrow> c \<in> set (closed_conns d)"
| "located d c (InChannel w) \<longleftrightarrow> chan d w = Some c"
| "located d c (Result w) \<longleftrightarrow> phase_conn (phases d w) = Some c"

definition known :: "'c dialbacks \<Rightarrow> 'c set" where
  "known d = {c. \<exists>p. located d c p}"

text \<open>
  A step of any goroutine, labelled with the connection it hands to the table, if it does. \<open>db_recv\<close> and
  \<open>db_ctx\<close> are the two branches of the select: the second may be taken even when a connection has arrived.
  \<open>db_refuse\<close> is a delivery nobody waits for, whose caller closes the connection.
\<close>

inductive db_step :: "'c option \<Rightarrow> 'c dialbacks \<Rightarrow> 'c dialbacks \<Rightarrow> bool" where
  db_register: "waiters d w = None \<Longrightarrow> await_register w tok tunnel d = (True, d') \<Longrightarrow> db_step None d d'"
| db_opened: "waiters d w \<noteq> None \<Longrightarrow> phases d w = Opening \<Longrightarrow> db_step None d (goto w Selecting d)"
| db_open_failed: "waiters d w \<noteq> None \<Longrightarrow> phases d w = Opening \<Longrightarrow> db_step None d (goto w (Leaving None) d)"
| db_recv: "phases d w = Selecting \<Longrightarrow> take_conn w d = (Some c, d') \<Longrightarrow> db_step None d (goto w (Leaving (Some c)) d')"
| db_ctx: "waiters d w \<noteq> None \<Longrightarrow> phases d w = Selecting \<Longrightarrow> db_step None d (goto w (Leaving None) d)"
| db_forget: "phases d w = Leaving r \<Longrightarrow> db_step None d (goto w (Draining r) (abandon_forget (tokens d w) w d))"
| db_drain: "phases d w = Draining r \<Longrightarrow> db_step None d (goto w (Returned r) (abandon_drain w d))"
| db_deliver: "deliver tok tunnel c d = Delivered d' \<Longrightarrow> db_step (Some c) d d'"
| db_refuse: "deliver tok tunnel c d = Refused \<Longrightarrow> db_step (Some c) d (close_conn c d)"

inductive_cases db_stepE: "db_step l d d'"

text \<open>A run of the table with the connections handed to it so far, each of them handed over once.\<close>

inductive db_run :: "'c list \<Rightarrow> 'c dialbacks \<Rightarrow> bool" where
  db_new: "db_run [] NewDialBacks"
| db_internal: "db_run h d \<Longrightarrow> db_step None d d' \<Longrightarrow> db_run h d'"
| db_offer: "db_run h d \<Longrightarrow> c \<notin> set h \<Longrightarrow> db_step (Some c) d d' \<Longrightarrow> db_run (h @ [c]) d'"

subsection \<open>The invariant\<close>

definition result :: "'c dialbacks \<Rightarrow> nat \<Rightarrow> 'c option" where
  "result d w = phase_conn (phases d w)"

text \<open>No connection is in two places: on the list of closed ones, in the channels, in the results.\<close>

definition unique_places :: "'c list \<Rightarrow> (nat \<Rightarrow> 'c option) \<Rightarrow> (nat \<Rightarrow> 'c option) \<Rightarrow> bool" where
  "unique_places cl ch rs \<longleftrightarrow> distinct cl
     \<and> (\<forall>w c. ch w = Some c \<longrightarrow> c \<notin> set cl \<and> (\<forall>v. ch v = Some c \<longrightarrow> v = w) \<and> (\<forall>v. rs v \<noteq> Some c))
     \<and> (\<forall>w c. rs w = Some c \<longrightarrow> c \<notin> set cl \<and> (\<forall>v. rs v = Some c \<longrightarrow> v = w))"

lemma unique_take:
  "unique_places cl ch rs \<Longrightarrow> ch w = Some c \<Longrightarrow> rs w = None
   \<Longrightarrow> unique_places cl (ch(w := None)) (rs(w := Some c))"
  unfolding unique_places_def by (auto split: if_splits)

lemma unique_clear: "unique_places cl ch rs \<Longrightarrow> unique_places cl (ch(w := None)) rs"
  unfolding unique_places_def by (auto split: if_splits)

lemma unique_close: "unique_places cl ch rs \<Longrightarrow> ch w = Some c \<Longrightarrow> unique_places (cl @ [c]) (ch(w := None)) rs"
  unfolding unique_places_def by (auto split: if_splits)

lemma unique_new:
  assumes "unique_places cl ch rs" "c \<notin> set cl" "\<forall>v. ch v \<noteq> Some c" "\<forall>v. rs v \<noteq> Some c"
  shows "unique_places (cl @ [c]) ch rs" "ch w = None \<Longrightarrow> unique_places cl (ch(w := Some c)) rs"
  using assms unfolding unique_places_def by (auto split: if_splits)

text \<open>All connections that are somewhere.\<close>

definition places :: "'c list \<Rightarrow> (nat \<Rightarrow> 'c option) \<Rightarrow> (nat \<Rightarrow> 'c option) \<Rightarrow> 'c set" where
  "places cl ch rs = set cl \<union> {c. \<exists>w. ch w = Some c} \<union> {c. \<exists>w. rs w = Some c}"

lemma places_take: "ch w = Some c \<Longrightarrow> rs w = None \<Longrightarrow> places cl (ch(w := None)) (rs(w := Some c)) = places cl ch rs"
  unfolding places_def by (auto split: if_splits) (metis option.distinct(1) option.inject)+

lemma places_close: "ch w = Some c \<Longrightarrow> places (cl @ [c]) (ch(w := None)) rs = places cl ch rs"
  unfolding places_def by (auto split: if_splits) (metis option.inject)+

lemma places_new:
  "places (cl @ [c]) ch rs = insert c (places cl ch rs)"
  "ch w = None \<Longrightarrow> places cl (ch(w := Some c)) rs = insert c (places cl ch rs)"
  unfolding places_def by (auto split: if_splits) (metis option.distinct(1))+

definition registered :: "'c await_phase \<Rightarrow> bool" where
  "registered p \<longleftrightarrow> (\<forall>r. p \<noteq> Draining r \<and> p \<noteq> Returned r)"

definition db_inv :: "'c dialbacks \<Rightarrow> bool" where
  "db_inv d \<longleftrightarrow>
     (\<forall>tok w. waiting d tok = Some w \<longrightarrow>
        waiters d w \<noteq> None \<and> chan d w = None \<and> tokens d w = tok \<and> registered (phases d w))
     \<and> (\<forall>w. waiters d w = None \<longrightarrow> phases d w = Opening)
     \<and> (\<forall>w r. phases d w = Returned r \<longrightarrow> chan d w = None)
     \<and> unique_places (closed_conns d) (chan d) (result d)"

text \<open>The parts of the state after each operation.\<close>

lemma await_register_simps:
  assumes "await_register w tok tunnel d = (True, d')"
  shows "waiting d tok = None" "waiting d' = (waiting d)(tok \<mapsto> w)" "chan d' = (chan d)(w := None)"
    "waiters d' = (waiters d)(w \<mapsto> \<lparr>dw_tunnel = tunnel, dw_conn = None\<rparr>)"
    "tokens d' = (tokens d)(w := tok)" "phases d' = (phases d)(w := Opening)" "closed_conns d' = closed_conns d"
  using assms by (auto simp: await_register_def chan_def fun_eq_iff split: option.splits)

lemma take_conn_simps:
  assumes "take_conn w d = (r, d')"
  shows "r = chan d w" "chan d' = (chan d)(w := None)" "waiting d' = waiting d" "tokens d' = tokens d"
    "phases d' = phases d" "closed_conns d' = closed_conns d" "waiters d' v = None \<longleftrightarrow> waiters d v = None"
  using assms by (auto simp: take_conn_def chan_def fun_eq_iff split: option.splits if_splits)

lemma abandon_drain_simps:
  "chan (abandon_drain w d) = (chan d)(w := None)" "waiting (abandon_drain w d) = waiting d"
  "tokens (abandon_drain w d) = tokens d" "phases (abandon_drain w d) = phases d"
  "waiters (abandon_drain w d) v = None \<longleftrightarrow> waiters d v = None"
  "closed_conns (abandon_drain w d) = closed_conns d @ (case chan d w of None \<Rightarrow> [] | Some c \<Rightarrow> [c])"
proof -
  obtain r d' where t: "take_conn w d = (r, d')" by (meson surj_pair)
  note s = take_conn_simps [OF t]
  have c: "chan (d'\<lparr>closed_conns := x\<rparr>) = chan d'" for x by (simp add: chan_def [abs_def])
  show "chan (abandon_drain w d) = (chan d)(w := None)" "waiting (abandon_drain w d) = waiting d"
    "tokens (abandon_drain w d) = tokens d" "phases (abandon_drain w d) = phases d"
    "waiters (abandon_drain w d) v = None \<longleftrightarrow> waiters d v = None"
    "closed_conns (abandon_drain w d) = closed_conns d @ (case chan d w of None \<Rightarrow> [] | Some c \<Rightarrow> [c])"
    using s c by (auto simp: abandon_drain_def t split: option.splits)
qed

lemma deliver_simps:
  assumes "deliver tok tunnel c d = Delivered d'"
  shows "\<exists>w. waiting d tok = Some w \<and> chan d' = (chan d)(w := Some c) \<and> waiting d' = (waiting d)(tok := None)
    \<and> tokens d' = tokens d \<and> phases d' = phases d \<and> closed_conns d' = closed_conns d
    \<and> (\<forall>v. waiters d' v = None \<longleftrightarrow> waiters d v = None) \<and> chan d w = None"
  using assms
  by (auto simp: deliver_def chan_def fun_eq_iff split: option.splits if_splits)

lemma goto_simps [simp]:
  "chan (goto w p d) = chan d" "waiting (goto w p d) = waiting d" "waiters (goto w p d) = waiters d"
  "tokens (goto w p d) = tokens d" "phases (goto w p d) = (phases d)(w := p)" "closed_conns (goto w p d) = closed_conns d"
  by (simp_all add: goto_def chan_def [abs_def])

lemma forget_simps [simp]:
  "chan (abandon_forget tok w d) = chan d" "waiters (abandon_forget tok w d) = waiters d"
  "tokens (abandon_forget tok w d) = tokens d" "phases (abandon_forget tok w d) = phases d"
  "closed_conns (abandon_forget tok w d) = closed_conns d"
  "waiting (abandon_forget tok w d) = (if waiting d tok = Some w then (waiting d)(tok := None) else waiting d)"
  by (simp_all add: abandon_forget_def chan_def [abs_def])

lemma close_simps [simp]:
  "chan (close_conn c d) = chan d" "waiters (close_conn c d) = waiters d" "tokens (close_conn c d) = tokens d"
  "phases (close_conn c d) = phases d" "closed_conns (close_conn c d) = closed_conns d @ [c]"
  "waiting (close_conn c d) = waiting d"
  by (simp_all add: close_conn_def chan_def [abs_def])

lemma result_goto: "result (goto w p d) = (result d)(w := phase_conn p)"
  by (rule ext) (simp add: result_def)

lemma known_places: "c \<in> known d \<longleftrightarrow> c \<in> places (closed_conns d) (chan d) (result d)"
proof
  assume "c \<in> known d"
  then obtain p where "located d c p" by (auto simp: known_def)
  then show "c \<in> places (closed_conns d) (chan d) (result d)" by (cases p) (auto simp: places_def result_def)
next
  assume "c \<in> places (closed_conns d) (chan d) (result d)"
  then consider "located d c Closed" | w where "located d c (InChannel w)" | w where "located d c (Result w)"
    by (auto simp: places_def result_def)
  then show "c \<in> known d" unfolding known_def by cases blast+
qed

lemma fresh_places:
  "c \<notin> known d \<Longrightarrow> c \<notin> set (closed_conns d) \<and> (\<forall>v. chan d v \<noteq> Some c) \<and> (\<forall>v. result d v \<noteq> Some c)"
  unfolding known_places by (auto simp: places_def)

lemma db_inv_unique:
  "db_step l d d' \<Longrightarrow> db_inv d \<Longrightarrow> (\<And>c. l = Some c \<Longrightarrow> c \<notin> known d)
   \<Longrightarrow> unique_places (closed_conns d') (chan d') (result d')
     \<and> places (closed_conns d') (chan d') (result d')
       = places (closed_conns d) (chan d) (result d) \<union> set_option l"
proof (induction rule: db_step.induct)
  case (db_register d w tok tunnel d')
  have "result d w = None" using db_register by (simp add: db_inv_def result_def)
  then have "result d' = result d"
    by (auto simp: result_def fun_eq_iff await_register_simps [OF db_register(2)])
  moreover have "unique_places (closed_conns d) ((chan d)(w := None)) (result d)"
    using db_register by (intro unique_clear) (simp add: db_inv_def)
  moreover have "(chan d)(w := None) = chan d" using db_register(1) by (auto simp: chan_def)
  ultimately show ?case by (simp only: await_register_simps [OF db_register(2)] option.set Un_empty_right)
next
  case (db_opened d w)
  then have "result (goto w Selecting d) = result d" by (auto simp: result_goto result_def)
  then show ?case using db_opened by (simp add: db_inv_def)
next
  case (db_open_failed d w)
  then have "result (goto w (Leaving None) d) = result d" by (auto simp: result_goto result_def)
  then show ?case using db_open_failed by (simp add: db_inv_def)
next
  case (db_recv d w c d')
  note t = take_conn_simps [OF db_recv(2)]
  have r: "result d' = result d" by (auto simp: result_def t)
  have "unique_places (closed_conns d) (chan d) (result d)" "chan d w = Some c" "result d w = None"
    using db_recv t(1) by (simp_all add: db_inv_def result_def)
  from unique_take [OF this] places_take [of "chan d" w c "result d" "closed_conns d", OF this(2,3)] show ?case
    by (simp only: goto_simps result_goto phase_conn.simps t(2,6) r option.set Un_empty_right)
next
  case (db_ctx d w)
  then have "result (goto w (Leaving None) d) = result d" by (auto simp: result_goto result_def)
  then show ?case using db_ctx by (simp add: db_inv_def)
next
  case (db_forget d w r)
  then have "result (goto w (Draining r) (abandon_forget (tokens d w) w d)) = result d"
    by (auto simp: result_def)
  then show ?case using db_forget by (simp add: db_inv_def)
next
  case (db_drain d w r)
  then have r: "result (goto w (Returned r) (abandon_drain w d)) = result d"
    by (auto simp: result_def abandon_drain_simps)
  have "unique_places (closed_conns d @ (case chan d w of None \<Rightarrow> [] | Some c \<Rightarrow> [c])) ((chan d)(w := None)) (result d)"
    using db_drain(2) unique_clear [of "closed_conns d"] unique_close [of "closed_conns d"]
    by (cases "chan d w") (simp_all only: db_inv_def option.case append_Nil2)
  moreover have "places (closed_conns d @ (case chan d w of None \<Rightarrow> [] | Some c \<Rightarrow> [c])) ((chan d)(w := None)) (result d)
      = places (closed_conns d) (chan d) (result d)"
    using places_close [of "chan d" w _ "closed_conns d" "result d"] fun_upd_idem [of "chan d" w None]
    by (cases "chan d w") simp_all
  ultimately show ?case by (simp only: goto_simps abandon_drain_simps r option.set Un_empty_right)
next
  case (db_deliver tok tunnel c d d')
  from deliver_simps [OF db_deliver(1)] obtain w where w: "waiting d tok = Some w" "chan d' = (chan d)(w := Some c)"
    "phases d' = phases d" "closed_conns d' = closed_conns d" "chan d w = None" by blast
  have r: "result d' = result d" by (auto simp: result_def w)
  have "c \<notin> known d" using db_deliver(3) by simp
  note fresh = fresh_places [OF this]
  have "unique_places (closed_conns d) ((chan d)(w := Some c)) (result d)"
    by (rule unique_new(2)) (use db_deliver(2) fresh w(5) in \<open>simp_all add: db_inv_def\<close>)
  moreover note places_new(2) [of "chan d" w "closed_conns d" c "result d", OF w(5)]
  ultimately show ?case by (simp only: w r) simp
next
  case (db_refuse tok tunnel c d)
  have "c \<notin> known d" using db_refuse(3) by simp
  note fresh = fresh_places [OF this]
  have r: "result (close_conn c d) = result d" by (auto simp: result_def)
  have "unique_places (closed_conns d @ [c]) (chan d) (result d)"
    by (rule unique_new(1)) (use db_refuse(2) fresh in \<open>simp_all add: db_inv_def\<close>)
  then show ?case using places_new(1) [of "closed_conns d" c "chan d" "result d"] by (simp only: close_simps r) simp
qed

text \<open>The part of the invariant about registered waiters, on the components of the state.\<close>

definition waiting_ok ::
  "(string \<rightharpoonup> nat) \<Rightarrow> (nat \<Rightarrow> bool) \<Rightarrow> (nat \<Rightarrow> 'c option) \<Rightarrow> (nat \<Rightarrow> string) \<Rightarrow> (nat \<Rightarrow> 'c await_phase) \<Rightarrow> bool" where
  "waiting_ok wt kn ch tk ph \<longleftrightarrow>
     (\<forall>tok w. wt tok = Some w \<longrightarrow> kn w \<and> ch w = None \<and> tk w = tok \<and> registered (ph w))
     \<and> (\<forall>w. \<not> kn w \<longrightarrow> ph w = Opening) \<and> (\<forall>w r. ph w = Returned r \<longrightarrow> ch w = None)"

lemma waiting_ok_goto:
  assumes "waiting_ok wt kn ch tk ph" "kn w" "registered p \<or> (\<forall>tok. wt tok \<noteq> Some w)" "\<forall>r. p = Returned r \<longrightarrow> ch w = None"
  shows "waiting_ok wt kn ch tk (ph(w := p))"
  using assms unfolding waiting_ok_def by (metis fun_upd_apply)

lemma waiting_ok_clear: "waiting_ok wt kn ch tk ph \<Longrightarrow> waiting_ok wt kn (ch(w := None)) tk ph"
  unfolding waiting_ok_def by auto

lemma waiting_ok_forget: "waiting_ok wt kn ch tk ph \<Longrightarrow> waiting_ok (wt(tok := None)) kn ch tk ph"
  unfolding waiting_ok_def by auto

lemma waiting_ok_other:
  "waiting_ok wt kn ch tk ph \<Longrightarrow> wt tok = Some w \<Longrightarrow> (wt(tok := None)) t \<noteq> Some w"
  unfolding waiting_ok_def by (metis fun_upd_apply option.distinct(1))

lemma waiting_ok_deliver:
  assumes "waiting_ok wt kn ch tk ph" "wt tok = Some w"
  shows "waiting_ok (wt(tok := None)) kn (ch(w := Some c)) tk ph"
proof -
  have "ph w \<noteq> Returned r" for r using assms unfolding waiting_ok_def registered_def by blast
  then show ?thesis using waiting_ok_forget [OF assms(1), of tok] waiting_ok_other [OF assms]
    unfolding waiting_ok_def by (metis fun_upd_apply)
qed

lemma waiting_ok_register:
  assumes "waiting_ok wt kn ch tk ph" "\<not> kn w"
  shows "waiting_ok (wt(tok \<mapsto> w)) (\<lambda>v. v = w \<or> kn v) (ch(w := None)) (tk(w := tok)) (ph(w := Opening))"
proof -
  have "wt t \<noteq> Some w" for t using assms unfolding waiting_ok_def by blast
  then show ?thesis using assms unfolding waiting_ok_def registered_def by auto
qed

definition wk :: "'c dialbacks \<Rightarrow> nat \<Rightarrow> bool" where
  "wk d w \<longleftrightarrow> waiters d w \<noteq> None"

lemma db_inv_iff:
  "db_inv d \<longleftrightarrow> waiting_ok (waiting d) (wk d) (chan d) (tokens d) (phases d)
     \<and> unique_places (closed_conns d) (chan d) (result d)"
  unfolding db_inv_def waiting_ok_def wk_def by blast

lemma db_inv_rest:
  assumes "db_step l d d'" "db_inv d"
  shows "waiting_ok (waiting d') (wk d') (chan d') (tokens d') (phases d')"
  using assms
proof (induction rule: db_step.induct)
  case (db_register d w tok tunnel d')
  have "wk d' = (\<lambda>v. v = w \<or> wk d v)"
    by (rule ext) (simp add: wk_def await_register_simps [OF db_register(2)])
  moreover have "waiting_ok (waiting d) (wk d) (chan d) (tokens d) (phases d)" "\<not> wk d w"
    using db_register by (auto simp: db_inv_iff wk_def)
  ultimately show ?case using waiting_ok_register by (simp only: await_register_simps [OF db_register(2)])
next
  case (db_opened d w)
  have "wk (goto w Selecting d) = wk d" by (simp add: wk_def [abs_def])
  moreover have "waiting_ok (waiting d) (wk d) (chan d) (tokens d) ((phases d)(w := Selecting))"
    using db_opened by (intro waiting_ok_goto) (auto simp: db_inv_iff wk_def registered_def)
  ultimately show ?case by (simp only: goto_simps)
next
  case (db_open_failed d w)
  have "wk (goto w (Leaving None) d) = wk d" by (simp add: wk_def [abs_def])
  moreover have "waiting_ok (waiting d) (wk d) (chan d) (tokens d) ((phases d)(w := Leaving None))"
    using db_open_failed by (intro waiting_ok_goto) (auto simp: db_inv_iff wk_def registered_def)
  ultimately show ?case by (simp only: goto_simps)
next
  case (db_recv d w c d')
  note t = take_conn_simps [OF db_recv(2)]
  have k: "wk (goto w (Leaving (Some c)) d') = wk d" by (rule ext) (simp only: wk_def goto_simps t)
  have "wk d w" using t(1) by (auto simp: wk_def chan_def split: option.splits)
  then have "waiting_ok (waiting d) (wk d) ((chan d)(w := None)) (tokens d) ((phases d)(w := Leaving (Some c)))"
    using db_recv by (intro waiting_ok_goto waiting_ok_clear) (auto simp: db_inv_iff registered_def)
  then show ?case by (simp only: goto_simps t(2-5) k)
next
  case (db_ctx d w)
  have "wk (goto w (Leaving None) d) = wk d" by (simp add: wk_def [abs_def])
  moreover have "waiting_ok (waiting d) (wk d) (chan d) (tokens d) ((phases d)(w := Leaving None))"
    using db_ctx by (intro waiting_ok_goto) (auto simp: db_inv_iff wk_def registered_def)
  ultimately show ?case by (simp only: goto_simps)
next
  case (db_forget d w r)
  let ?wt = "waiting (abandon_forget (tokens d w) w d)"
  have ok: "waiting_ok (waiting d) (wk d) (chan d) (tokens d) (phases d)" using db_forget by (simp add: db_inv_iff)
  have kw: "wk d w" using ok db_forget(1) unfolding waiting_ok_def by force
  have "waiting_ok ?wt (wk d) (chan d) (tokens d) (phases d)" using ok waiting_ok_forget [OF ok, of "tokens d w"] by simp
  moreover have "?wt t \<noteq> Some w" for t
  proof (cases "waiting d (tokens d w) = Some w")
    case True
    then show ?thesis using waiting_ok_other [OF ok True] by simp
  next
    case False
    then show ?thesis using ok unfolding waiting_ok_def by auto
  qed
  ultimately have "waiting_ok ?wt (wk d) (chan d) (tokens d) ((phases d)(w := Draining r))"
    using kw by (intro waiting_ok_goto) auto
  moreover have "wk (goto w (Draining r) (abandon_forget (tokens d w) w d)) = wk d" by (simp add: wk_def [abs_def])
  ultimately show ?case by (simp only: goto_simps forget_simps)
next
  case (db_drain d w r)
  have ok: "waiting_ok (waiting d) (wk d) (chan d) (tokens d) (phases d)" using db_drain by (simp add: db_inv_iff)
  have kw: "wk d w" using ok db_drain(1) unfolding waiting_ok_def by force
  have "waiting d t \<noteq> Some w" for t using ok db_drain(1) unfolding waiting_ok_def registered_def by blast
  then have "waiting_ok (waiting d) (wk d) ((chan d)(w := None)) (tokens d) ((phases d)(w := Returned r))"
    using waiting_ok_clear [OF ok] kw by (intro waiting_ok_goto) auto
  moreover have "wk (goto w (Returned r) (abandon_drain w d)) = wk d" by (rule ext) (simp only: wk_def goto_simps abandon_drain_simps)
  ultimately show ?case by (simp only: goto_simps abandon_drain_simps)
next
  case (db_deliver tok tunnel c d d')
  from deliver_simps [OF db_deliver(1)] obtain w where w: "waiting d tok = Some w" "chan d' = (chan d)(w := Some c)"
    "waiting d' = (waiting d)(tok := None)" "tokens d' = tokens d" "phases d' = phases d"
    "\<forall>v. waiters d' v = None \<longleftrightarrow> waiters d v = None" by blast
  have "wk d' = wk d" using w(6) by (intro ext) (simp only: wk_def)
  moreover have "waiting_ok ((waiting d)(tok := None)) (wk d) ((chan d)(w := Some c)) (tokens d) (phases d)"
    using db_deliver w(1) by (intro waiting_ok_deliver) (simp_all add: db_inv_iff)
  ultimately show ?case by (simp only: w(2-5))
next
  case (db_refuse tok tunnel c d)
  have "wk (close_conn c d) = wk d" by (simp add: wk_def [abs_def])
  then show ?case using db_refuse by (simp only: close_simps db_inv_iff)
qed

text \<open>In every run the connections that are somewhere are exactly those handed over.\<close>

lemma db_run_inv: "db_run h d \<Longrightarrow> db_inv d \<and> known d = set h"
proof (induction rule: db_run.induct)
  case db_new
  have "\<not> located NewDialBacks c p" for c :: 'a and p
    by (cases p) (auto simp: chan_def NewDialBacks_def)
  then show ?case by (auto simp: db_inv_def NewDialBacks_def unique_places_def chan_def result_def known_def)
next
  case (db_internal h d d')
  then show ?case using db_inv_unique [OF db_internal(2)] db_inv_rest [OF db_internal(2)]
    unfolding db_inv_iff set_eq_iff known_places by simp
next
  case (db_offer h d c d')
  then have "\<And>c'. Some c = Some c' \<Longrightarrow> c' \<notin> known d" by simp
  then show ?case using db_offer db_inv_unique [OF db_offer(3)] db_inv_rest [OF db_offer(3)]
    unfolding db_inv_iff set_eq_iff known_places by simp
qed

subsection \<open>Properties\<close>

lemma located_unique:
  assumes "db_inv d" "located d c p" "located d c q"
  shows "p = q"
proof -
  have u: "unique_places (closed_conns d) (chan d) (result d)" using assms(1) by (simp add: db_inv_def)
  then have "chan d w = Some c \<Longrightarrow> c \<notin> set (closed_conns d) \<and> (\<forall>v. chan d v = Some c \<longrightarrow> v = w) \<and> (\<forall>v. result d v \<noteq> Some c)"
    "result d w = Some c \<Longrightarrow> c \<notin> set (closed_conns d) \<and> (\<forall>v. result d v = Some c \<longrightarrow> v = w)" for w
    unfolding unique_places_def by blast+
  note this [unfolded result_def]
  then show ?thesis using assms(2,3) by (cases p; cases q) simp_all
qed

text \<open>
  C20. No dial-back is lost, shared or double-delivered, in any interleaving of waiters giving up, phones dialling
  back and connections being taken: a delivery never finds the waiter's channel full (so it never
  blocks while it holds the lock); every connection ever handed to the table is, at every later moment, in exactly one
  place, closed, in the channel of one waiter, or the result of one \<open>Await\<close>, and no other connection is anywhere; and
  once an \<open>Await\<close> has returned, nothing is left in its channel and no token leads to it any more.
\<close>

theorem dialback_conns_accounted:
  assumes "db_run h d"
  shows "deliver tok tunnel c d \<noteq> Blocked
    \<and> (c' \<in> set h \<longrightarrow> (\<exists>!p. located d c' p)) \<and> (c' \<notin> set h \<longrightarrow> (\<forall>p. \<not> located d c' p))
    \<and> distinct (closed_conns d)
    \<and> (phases d w = Returned r \<longrightarrow> chan d w = None \<and> w \<notin> ran (waiting d))"
proof -
  have inv: "db_inv d" and hist: "known d = set h" using db_run_inv [OF assms] by simp_all
  have "deliver tok tunnel c d \<noteq> Blocked"
    using inv unfolding db_inv_def by (auto simp: deliver_def chan_def split: option.splits if_splits)
  moreover have "\<exists>!p. located d c' p" if "c' \<in> set h"
    using that located_unique [OF inv] unfolding hist [symmetric] known_def by blast
  moreover have "\<not> located d c' p" if "c' \<notin> set h" for p
    using that unfolding hist [symmetric] known_def by blast
  moreover have "distinct (closed_conns d)" using inv by (simp add: db_inv_def unique_places_def)
  moreover have "chan d w = None \<and> w \<notin> ran (waiting d)" if "phases d w = Returned r"
    using that inv unfolding db_inv_def registered_def ran_def by blast
  ultimately show ?thesis by blast
qed

text \<open>A waiter gives up after its connection has arrived: the connection ends up closed.\<close>

theorem dialback_conns_accounted_witness:
  "\<exists>d. db_run [7 :: nat] d \<and> phases d 0 = Returned None \<and> (\<exists>!p. located d 7 p) \<and> located d 7 Closed"
proof -
  define d0 where "d0 = (NewDialBacks :: nat dialbacks)"
  define d1 where "d1 = snd (await_register 0 ''tok'' ''t'' d0)"
  define d2 where "d2 = d1\<lparr>waiting := Map.empty, waiters := [0 \<mapsto> \<lparr>dw_tunnel = ''t'', dw_conn = Some 7\<rparr>]\<rparr>"
  define d3 where "d3 = goto 0 (Leaving None) d2"
  define d4 where "d4 = goto 0 (Draining None) (abandon_forget (tokens d3 0) 0 d3)"
  define d5 where "d5 = goto 0 (Returned None) (abandon_drain 0 d4)"
  note defs = d0_def d1_def d2_def d3_def d4_def d5_def NewDialBacks_def await_register_def goto_def abandon_forget_def
    abandon_drain_def take_conn_def
  have "db_step None d0 d1" by (rule db_register [of _ 0 "''tok''" "''t''"]) (simp_all add: defs)
  then have "db_run [] d1" using db_internal [OF db_new] by (simp add: d0_def)
  moreover have "db_step (Some 7) d1 d2"
    by (rule db_deliver [of "''tok''" "''t''"]) (simp add: deliver_def expects_def defs)
  ultimately have "db_run ([] @ [7]) d2" by (intro db_offer) simp_all
  moreover have "db_step None d2 d3" unfolding d3_def by (rule db_open_failed) (simp_all add: defs)
  ultimately have "db_run [7] d3" using db_internal by auto
  moreover have "db_step None d3 d4" unfolding d4_def by (rule db_forget) (simp add: defs)
  ultimately have "db_run [7] d4" by (rule db_internal)
  moreover have "db_step None d4 d5" unfolding d5_def by (rule db_drain) (simp add: defs)
  ultimately have run: "db_run [7] d5" by (rule db_internal)
  have "phases d5 0 = Returned None" "located d5 7 Closed" by (simp_all add: defs)
  moreover have "\<exists>!p. located d5 7 p" using dialback_conns_accounted [OF run, of "[]" "[]" 7 7] by simp
  ultimately show ?thesis using run by blast
qed

text \<open>
  A connection is handed only to the waiter of its own token, and only for its own tunnel: a delivery
  succeeds exactly when the token is waited for and the authenticated tunnel name, if there is one, is the
  waiter's; it then fills that waiter's channel and uses the token up.
\<close>

lemma deliver_matches_waiter:
  assumes "db_run h d"
  shows "(case deliver tok tunnel c d of
      Delivered d' \<Rightarrow> expects tok tunnel d \<and> (\<exists>w x. waiting d tok = Some w \<and> waiters d w = Some x
        \<and> (tunnel = [] \<or> dw_tunnel x = tunnel) \<and> waiters d' = (waiters d)(w \<mapsto> x\<lparr>dw_conn := Some c\<rparr>)
        \<and> waiting d' = (waiting d)(tok := None))
    | Refused \<Rightarrow> \<not> expects tok tunnel d
    | Blocked \<Rightarrow> False)"
proof -
  have inv: "db_inv d" using db_run_inv [OF assms] by simp
  show ?thesis
  proof (cases "waiting d tok")
    case None
    then show ?thesis by (simp add: deliver_def expects_def)
  next
    case (Some w)
    with inv obtain x where "waiters d w = Some x" "dw_conn x = None"
      unfolding db_inv_def chan_def by (metis (no_types, lifting) not_None_eq option.simps(5))
    then show ?thesis using Some by (auto simp: deliver_def expects_def)
  qed
qed

lemma deliver_matches_waiter_witness:
  "deliver ''tok'' ''t'' (7 :: nat) NewDialBacks = Refused \<and> \<not> expects ''tok'' ''t'' (NewDialBacks :: nat dialbacks)"
  using deliver_matches_waiter [OF db_new, of "''tok''" "''t''" 7]
  by (simp add: deliver_def expects_def NewDialBacks_def)

end
