(* ===== verification/Phone_Manager.thy ===== *)
theory Phone_Manager
  imports Route_Registry Wire_Frames "HOL-Library.AList"
begin

text \<open>
  The phones' control connections on one node (\<^verbatim>\<open>src/internal/phoneconn/manager.go\<close>): registration with its route
  bind, supersession, heartbeats and self-heal, the queue of control frames, drain and MOVE, eviction,
  and the teardown that writes the end event. Connection objects are shared between their handler,
  the heartbeat loop and the manager's operations, so they live in a store; the routing
  table is the model of \<open>Route_Registry\<close>.
\<close>

record ConnMeta =
  cm_SNI :: string
  cm_ALPN :: string
  cm_TLSVersion :: string
  cm_JA4 :: string
  cm_SrcIP :: string
  cm_SrcPort :: int

record conn =
  cn_name :: string
  cn_keyFP :: string
  cn_certSerial :: string
  cn_connID :: string
  cn_sessionStart :: int
  cn_meta :: ConnMeta
  cn_notAfter :: int
  cn_send :: "bytes list"
  cn_lastPong :: int
  cn_closed :: bool
  cn_reason :: string
  cn_moveDue :: bool

record mgr_config =
  mc_nodeID :: string
  mc_nodeHost :: string
  mc_nodeStart :: string
  mc_routeTTL :: duration
  mc_logs :: bool

text \<open>The connection-log event of a phone connection.\<close>

record phone_event =
  ev_Event :: string
  ev_Conn :: string
  ev_Tunnel :: string
  ev_NodeHostname :: string
  ev_NodeStart :: string
  ev_TSStart :: int
  ev_TSEnd :: int
  ev_DurationMS :: int
  ev_SrcIP :: string
  ev_SrcPort :: int
  ev_ALPN :: string
  ev_TLSVersion :: string
  ev_TLSFP :: string
  ev_CloseReason :: string
  ev_IdentityCertSerial :: string
  ev_IdentityKeyFP :: string

datatype mgr_effect =
    PhoneConnOpen
  | PhoneConnClose string
  | PutConnLog phone_event
  | PhoneConnClosed string string string

record 's manager =
  m_objs :: "nat \<rightharpoonup> conn"
  m_conns :: "(string \<times> nat) list"
  m_closeAllReason :: string
  m_draining :: bool
  m_moveAddrs :: "string list"
  m_vk :: 's
  m_trace :: "mgr_effect list"

definition sendCap :: nat where "sendCap = 32"

definition updc :: "nat \<Rightarrow> (conn \<Rightarrow> conn) \<Rightarrow> 's manager \<Rightarrow> 's manager" where
  "updc i f m = m\<lparr>m_objs := (m_objs m)(i := map_option f (m_objs m i))\<rparr>"

definition emit :: "mgr_effect \<Rightarrow> 's manager \<Rightarrow> 's manager" where
  "emit e m = m\<lparr>m_trace := m_trace m @ [e]\<rparr>"

subsection \<open>One connection\<close>

definition close1 :: "string \<Rightarrow> conn \<Rightarrow> conn" where
  "close1 reason c = (if cn_closed c then c else c\<lparr>cn_closed := True, cn_reason := reason\<rparr>)"

definition closec :: "string \<Rightarrow> nat \<Rightarrow> 's manager \<Rightarrow> 's manager" where
  "closec reason i = updc i (close1 reason)"

definition isClosed :: "nat \<Rightarrow> 's manager \<Rightarrow> bool" where
  "isClosed i m = (case m_objs m i of None \<Rightarrow> True | Some c \<Rightarrow> cn_closed c)"

definition closeReason :: "conn \<Rightarrow> string" where
  "closeReason c = (if cn_reason c = [] then ''phone-close'' else cn_reason c)"

subsection \<open>Lookups\<close>

definition mlookup :: "string \<Rightarrow> 's manager \<Rightarrow> nat option" where
  "mlookup name m = map_of (m_conns m) name"

definition HasConn :: "string \<Rightarrow> 's manager \<Rightarrow> bool" where
  "HasConn name m = (case mlookup name m of None \<Rightarrow> False | Some i \<Rightarrow> \<not> isClosed i m)"

definition LiveConns :: "'s manager \<Rightarrow> nat" where
  "LiveConns m = length (filter (\<lambda>(_, i). \<not> isClosed i m) (m_conns m))"

definition ConnectedNames :: "'s manager \<Rightarrow> string list" where
  "ConnectedNames m = map fst (filter (\<lambda>(_, i). \<not> isClosed i m) (m_conns m))"

subsection \<open>Events\<close>

text \<open>\<^verbatim>\<open>Duration.Milliseconds\<close> truncates toward zero.\<close>

definition milliseconds :: "duration \<Rightarrow> int" where
  "milliseconds d = (if d < 0 then - ((- d) div Millisecond) else d div Millisecond)"

definition phone_event_of :: "mgr_config \<Rightarrow> conn \<Rightarrow> string \<Rightarrow> string \<Rightarrow> int \<Rightarrow> phone_event" where
  "phone_event_of cfg c event reason now =
     (let ended = event = ''end'' in
      \<lparr>ev_Event = event, ev_Conn = cn_connID c, ev_Tunnel = cn_name c, ev_NodeHostname = mc_nodeHost cfg,
       ev_NodeStart = mc_nodeStart cfg, ev_TSStart = cn_sessionStart c, ev_TSEnd = (if ended then now else 0),
       ev_DurationMS = (if ended then milliseconds (now - cn_sessionStart c) else 0),
       ev_SrcIP = cm_SrcIP (cn_meta c), ev_SrcPort = cm_SrcPort (cn_meta c), ev_ALPN = cm_ALPN (cn_meta c),
       ev_TLSVersion = cm_TLSVersion (cn_meta c), ev_TLSFP = cm_JA4 (cn_meta c),
       ev_CloseReason = (if ended then reason else []),
       ev_IdentityCertSerial = cn_certSerial c, ev_IdentityKeyFP = cn_keyFP c\<rparr>)"

definition writeEvent :: "mgr_config \<Rightarrow> nat \<Rightarrow> string \<Rightarrow> string \<Rightarrow> int \<Rightarrow> 's manager \<Rightarrow> 's manager" where
  "writeEvent cfg i event reason now m =
     (case m_objs m i of
        None \<Rightarrow> m
      | Some c \<Rightarrow> if mc_logs cfg then emit (PutConnLog (phone_event_of cfg c event reason now)) m else m)"

subsection \<open>Registration\<close>

text \<open>
  The bind loop: at most three attempts, a fresh connection id after each collision. \<open>left\<close> counts the
  attempts that remain after this one; lock tokens, cancellations and new ids are given per attempt.
\<close>

fun bind_loop ::
  "mgr_config \<Rightarrow> 's client \<Rightarrow> (nat \<Rightarrow> nat \<Rightarrow> string) \<Rightarrow> (nat \<Rightarrow> nat \<Rightarrow> bool) \<Rightarrow> (nat \<Rightarrow> string) \<Rightarrow> nat \<Rightarrow> nat \<Rightarrow> 's manager
   \<Rightarrow> (rerr + unit) \<times> 's manager" where
  "bind_loop cfg ex mint cancelled remint i left m =
     (case m_objs m i of
        None \<Rightarrow> (Inl bad_reply, m)
      | Some c \<Rightarrow>
          (case BindRoute ex (mint left) (cancelled left) (mc_routeTTL cfg) (cn_name c) (mc_nodeID cfg) (cn_connID c) (m_vk m) of
             (Inr _, s) \<Rightarrow> (Inr (), m\<lparr>m_vk := s\<rparr>)
           | (Inl e, s) \<Rightarrow>
               (case left of
                  0 \<Rightarrow> (Inl e, m\<lparr>m_vk := s\<rparr>)
                | Suc left' \<Rightarrow>
                    if e \<noteq> ErrConnIDCollision then (Inl e, m\<lparr>m_vk := s\<rparr>)
                    else bind_loop cfg ex mint cancelled remint i left'
                           (updc i (\<lambda>c. c\<lparr>cn_connID := remint left\<rparr>) (m\<lparr>m_vk := s\<rparr>)))))"

declare bind_loop.simps [simp del]

definition register ::
  "mgr_config \<Rightarrow> 's client \<Rightarrow> (nat \<Rightarrow> nat \<Rightarrow> string) \<Rightarrow> (nat \<Rightarrow> nat \<Rightarrow> bool) \<Rightarrow> (nat \<Rightarrow> string) \<Rightarrow> nat \<Rightarrow> 's manager
   \<Rightarrow> (rerr + unit) \<times> 's manager" where
  "register cfg ex mint cancelled remint i m =
     (case bind_loop cfg ex mint cancelled remint i 2 m of
        (Inl e, m1) \<Rightarrow> (Inl e, m1)
      | (Inr _, m1) \<Rightarrow>
          (case m_objs m1 i of
             None \<Rightarrow> (Inl bad_reply, m1)
           | Some c \<Rightarrow>
               let m2 = (case mlookup (cn_name c) m1 of None \<Rightarrow> m1 | Some old \<Rightarrow> closec ''phone-close'' old m1);
                   m3 = m2\<lparr>m_conns := AList.update (cn_name c) i (m_conns m2)\<rparr>;
                   m4 = (if m_closeAllReason m3 \<noteq> [] then closec (m_closeAllReason m3) i m3 else m3)
               in (Inr (), writeEvent cfg i ''start'' [] 0 (emit PhoneConnOpen m4))))"

definition drop_own :: "nat \<Rightarrow> string \<Rightarrow> 's manager \<Rightarrow> 's manager" where
  "drop_own i name m =
     (if mlookup name m = Some i then m\<lparr>m_conns := AList.delete name (m_conns m)\<rparr> else m)"

text \<open>The teardown after the heartbeat loop has ended; \<open>mint\<close> and \<open>cancelled\<close> are those of the unbind's lock.\<close>

definition teardown ::
  "mgr_config \<Rightarrow> 's client \<Rightarrow> (nat \<Rightarrow> string) \<Rightarrow> (nat \<Rightarrow> bool) \<Rightarrow> int \<Rightarrow> nat \<Rightarrow> 's manager \<Rightarrow> 's manager" where
  "teardown cfg ex mint cancelled now i m =
     (let m1 = closec ''phone-close'' i m in
      case m_objs m1 i of
        None \<Rightarrow> m1
      | Some c \<Rightarrow>
          let m2 = drop_own i (cn_name c) m1;
              m3 = m2\<lparr>m_vk := snd (Unbind ex mint cancelled (cn_name c) (cn_connID c) (m_vk m2))\<rparr>;
              m4 = writeEvent cfg i ''end'' (closeReason c) now m3
          in emit (PhoneConnClosed (cn_name c) (cn_connID c) (closeReason c)) (emit (PhoneConnClose (closeReason c)) m4))"

definition abandon ::
  "'s client \<Rightarrow> (nat \<Rightarrow> string) \<Rightarrow> (nat \<Rightarrow> bool) \<Rightarrow> nat \<Rightarrow> bool \<Rightarrow> 's manager \<Rightarrow> 's manager" where
  "abandon ex mint cancelled i opened m =
     (let m1 = closec ''error'' i m in
      case m_objs m1 i of
        None \<Rightarrow> m1
      | Some c \<Rightarrow>
          let m2 = drop_own i (cn_name c) m1;
              m3 = m2\<lparr>m_vk := snd (Unbind ex mint cancelled (cn_name c) (cn_connID c) (m_vk m2))\<rparr>
          in if opened then emit (PhoneConnClose ''error'') m3 else m3)"

subsection \<open>Heartbeat\<close>

text \<open>One tick of the loop: the new state and whether the loop goes on.\<close>

definition heartbeat_tick ::
  "mgr_config \<Rightarrow> 's client \<Rightarrow> (nat \<Rightarrow> string) \<Rightarrow> (nat \<Rightarrow> bool) \<Rightarrow> nat \<Rightarrow> 's manager \<Rightarrow> bool \<times> 's manager" where
  "heartbeat_tick cfg ex mint cancelled i m =
     (case m_objs m i of
        None \<Rightarrow> (False, m)
      | Some c \<Rightarrow>
          (case Heartbeat ex (mc_routeTTL cfg) (cn_name c) (cn_connID c) (m_vk m) of
             ((_, Some _), s) \<Rightarrow> (True, m\<lparr>m_vk := s\<rparr>)
           | ((HeartbeatRefreshed, None), s) \<Rightarrow> (True, m\<lparr>m_vk := s\<rparr>)
           | ((HeartbeatNotOwner, None), s) \<Rightarrow>
               (False, if m_draining m then m\<lparr>m_vk := s\<rparr> else closec ''phone-close'' i (m\<lparr>m_vk := s\<rparr>))
           | ((HeartbeatMissing, None), s) \<Rightarrow>
               (True, m\<lparr>m_vk := snd (BindRouteIfAbsentOrOwner ex mint cancelled (mc_routeTTL cfg) (cn_name c)
                                       (mc_nodeID cfg) (cn_connID c) s)\<rparr>)))"

definition heartbeat_interval :: "mgr_config \<Rightarrow> duration" where
  "heartbeat_interval cfg = (let i = mc_routeTTL cfg div 3 in if i \<le> 0 then Second else i)"

subsection \<open>Sending to a phone\<close>

datatype send_result = ErrNoConn | ErrEncode wire_err | Queued | ErrCtx | WouldBlock

text \<open>\<^verbatim>\<open>SendOpen\<close>: the payload is its JSON text; the select has two branches, so \<open>ctx_done\<close> says which one a full or cancelled send takes.\<close>

definition SendOpen ::
  "string \<Rightarrow> string \<Rightarrow> string + bytes \<Rightarrow> bool \<Rightarrow> 's manager \<Rightarrow> send_result \<times> 's manager" where
  "SendOpen name connID payload ctx_done m =
     (case mlookup name m of
        None \<Rightarrow> (ErrNoConn, m)
      | Some i \<Rightarrow>
          (case m_objs m i of
             None \<Rightarrow> (ErrNoConn, m)
           | Some c \<Rightarrow>
               if cn_closed c \<or> cn_connID c \<noteq> connID then (ErrNoConn, m)
               else case EncodeControl CtrlOpen (Some payload) of
                 Inl e \<Rightarrow> (ErrEncode e, m)
               | Inr frame \<Rightarrow>
                   if ctx_done then (ErrCtx, m)
                   else if length (cn_send c) < sendCap
                   then (Queued, updc i (\<lambda>c. c\<lparr>cn_send := cn_send c @ [frame]\<rparr>) m)
                   else (WouldBlock, m)))"

definition SendRenewNudge :: "string \<Rightarrow> string + bytes \<Rightarrow> 's manager \<Rightarrow> bool \<times> 's manager" where
  "SendRenewNudge name payload m =
     (case mlookup name m of
        None \<Rightarrow> (False, m)
      | Some i \<Rightarrow>
          (case m_objs m i of
             None \<Rightarrow> (False, m)
           | Some c \<Rightarrow>
               if cn_closed c then (False, m)
               else case EncodeControl CtrlRenewNudge (Some payload) of
                 Inl e \<Rightarrow> (False, m)
               | Inr frame \<Rightarrow>
                   if length (cn_send c) < sendCap
                   then (True, updc i (\<lambda>c. c\<lparr>cn_send := cn_send c @ [frame]\<rparr>) m)
                   else (False, m)))"

subsection \<open>Drain\<close>

text \<open>The shuffle of the MOVE targets, from the last index down; \<open>rnd i\<close> is the index drawn below \<open>i + 1\<close>, or a failure.\<close>

fun shuffle :: "(nat \<Rightarrow> nat option) \<Rightarrow> nat \<Rightarrow> 'a list \<Rightarrow> 'a list option" where
  "shuffle rnd 0 xs = Some xs"
| "shuffle rnd (Suc i) xs =
     (case rnd (Suc i) of
        None \<Rightarrow> None
      | Some j \<Rightarrow> shuffle rnd i (xs[Suc i := xs ! j, j := xs ! Suc i]))"

datatype move_err = ErrNoMoveTarget | ErrShuffle | ErrMoveEncode wire_err

definition moveFrame ::
  "(nat \<Rightarrow> nat option) \<Rightarrow> (string list \<Rightarrow> string + bytes) \<Rightarrow> 's manager \<Rightarrow> move_err + bytes" where
  "moveFrame rnd marshal m =
     (let addrs = m_moveAddrs m in
      if addrs = [] then Inl ErrNoMoveTarget
      else case shuffle rnd (length addrs - 1) addrs of
        None \<Rightarrow> Inl ErrShuffle
      | Some xs \<Rightarrow>
          (case EncodeControl CtrlMove (Some (marshal xs)) of
             Inl e \<Rightarrow> Inl (ErrMoveEncode e)
           | Inr frame \<Rightarrow> Inr frame))"

definition sendMove ::
  "(nat \<Rightarrow> nat option) \<Rightarrow> (string list \<Rightarrow> string + bytes) \<Rightarrow> nat \<Rightarrow> 's manager \<Rightarrow> 's manager" where
  "sendMove rnd marshal i m =
     (if isClosed i m then m
      else case moveFrame rnd marshal m of
        Inl ErrNoMoveTarget \<Rightarrow> m
      | Inl _ \<Rightarrow> updc i (\<lambda>c. c\<lparr>cn_moveDue := True\<rparr>) m
      | Inr frame \<Rightarrow>
          updc i (\<lambda>c. if length (cn_send c) < sendCap
                      then c\<lparr>cn_send := cn_send c @ [frame], cn_moveDue := False\<rparr>
                      else c\<lparr>cn_moveDue := True\<rparr>) m)"

text \<open>Every target of a loop gets its own random draws.\<close>

definition sendMoves ::
  "(nat \<Rightarrow> nat \<Rightarrow> nat option) \<Rightarrow> (string list \<Rightarrow> string + bytes) \<Rightarrow> nat list \<Rightarrow> 's manager \<Rightarrow> 's manager" where
  "sendMoves rnd marshal is m = fold (\<lambda>i. sendMove (rnd i) marshal i) is m"

definition StartDrain ::
  "(nat \<Rightarrow> nat \<Rightarrow> nat option) \<Rightarrow> (string list \<Rightarrow> string + bytes) \<Rightarrow> string list \<Rightarrow> 's manager \<Rightarrow> 's manager" where
  "StartDrain rnd marshal addrs m =
     (let m1 = m\<lparr>m_moveAddrs := addrs, m_draining := True\<rparr> in
      if addrs = [] then m1 else sendMoves rnd marshal (map snd (m_conns m1)) m1)"

definition moveDue :: "nat \<Rightarrow> 's manager \<Rightarrow> bool" where
  "moveDue i m = (case m_objs m i of None \<Rightarrow> False | Some c \<Rightarrow> cn_moveDue c)"

definition RetryMoves ::
  "(nat \<Rightarrow> nat \<Rightarrow> nat option) \<Rightarrow> (string list \<Rightarrow> string + bytes) \<Rightarrow> 's manager \<Rightarrow> 's manager" where
  "RetryMoves rnd marshal m =
     sendMoves rnd marshal (filter (\<lambda>i. moveDue i m) (map snd (m_conns m))) m"

subsection \<open>Closing\<close>

definition CloseAll :: "string \<Rightarrow> 's manager \<Rightarrow> 's manager" where
  "CloseAll reason m =
     (let m1 = m\<lparr>m_closeAllReason := reason\<rparr> in fold (closec reason) (map snd (m_conns m1)) m1)"

definition EvictBanned :: "(string \<Rightarrow> bool) \<Rightarrow> 's manager \<Rightarrow> 's manager" where
  "EvictBanned match m =
     fold (closec ''ban-evict'')
       (filter (\<lambda>i. case m_objs m i of None \<Rightarrow> False | Some c \<Rightarrow> match (cn_name c)) (map snd (m_conns m))) m"

definition Closem :: "string \<Rightarrow> string \<Rightarrow> 's manager \<Rightarrow> bool \<times> 's manager" where
  "Closem name reason m =
     (case mlookup name m of
        None \<Rightarrow> (False, m)
      | Some i \<Rightarrow> if isClosed i m then (False, m) else (True, closec reason i m))"

subsection \<open>The invariant and what every operation keeps\<close>

text \<open>
  The map of live connections has one entry per name, each entry's object carries that name, and no
  send queue exceeds its capacity.
\<close>

definition mgr_inv :: "'s manager \<Rightarrow> bool" where
  "mgr_inv m \<longleftrightarrow> distinct (map fst (m_conns m))
     \<and> (\<forall>n i. (n, i) \<in> set (m_conns m) \<longrightarrow> map_option cn_name (m_objs m i) = Some n)
     \<and> (\<forall>i c. m_objs m i = Some c \<longrightarrow> length (cn_send c) \<le> sendCap)"

text \<open>A connection only moves forward: its identity is fixed, and once closed its first close reason stays.\<close>

definition conn_le :: "conn \<Rightarrow> conn \<Rightarrow> bool" where
  "conn_le c c' \<longleftrightarrow> cn_name c' = cn_name c \<and> cn_sessionStart c' = cn_sessionStart c
     \<and> (cn_closed c \<longrightarrow> cn_closed c' \<and> cn_reason c' = cn_reason c)"

definition forward :: "'s manager \<Rightarrow> 's manager \<Rightarrow> bool" where
  "forward m m' \<longleftrightarrow> (\<forall>i c. m_objs m i = Some c \<longrightarrow> (\<exists>c'. m_objs m' i = Some c' \<and> conn_le c c'))"

definition keeps :: "'s manager \<Rightarrow> 's manager \<Rightarrow> bool" where
  "keeps m m' \<longleftrightarrow> mgr_inv m \<longrightarrow> mgr_inv m' \<and> forward m m'"

lemma conn_le_refl [simp]: "conn_le c c"
  by (simp add: conn_le_def)

lemma conn_le_trans: "conn_le a b \<Longrightarrow> conn_le b c \<Longrightarrow> conn_le a c"
  by (auto simp: conn_le_def)

lemma forward_trans: "forward a b \<Longrightarrow> forward b c \<Longrightarrow> forward a c"
  unfolding forward_def by (meson conn_le_trans)

lemma keeps_refl [simp]: "keeps m m"
  by (simp add: keeps_def forward_def)

lemma keeps_trans [trans]: "keeps a b \<Longrightarrow> keeps b c \<Longrightarrow> keeps a c"
  unfolding keeps_def by (blast intro: forward_trans)

lemma keeps_fold: "(\<And>x m. x \<in> set xs \<Longrightarrow> keeps m (f x m)) \<Longrightarrow> keeps m (fold f xs m)"
proof (induction xs arbitrary: m)
  case (Cons x xs)
  then show ?case using keeps_trans by (metis fold_simps(2) list.set_intros)
qed simp

definition good_upd :: "(conn \<Rightarrow> conn) \<Rightarrow> bool" where
  "good_upd f \<longleftrightarrow> (\<forall>c. conn_le c (f c) \<and> (length (cn_send c) \<le> sendCap \<longrightarrow> length (cn_send (f c)) \<le> sendCap))"

lemma keeps_updc: "good_upd f \<Longrightarrow> keeps m (updc i f m)"
proof -
  assume f: "good_upd f"
  have "map_option cn_name (m_objs (updc i f m) j) = map_option cn_name (m_objs m j)" for j
    using f by (cases "m_objs m j") (auto simp: updc_def good_upd_def conn_le_def)
  moreover have "length (cn_send c) \<le> sendCap" if "m_objs (updc i f m) j = Some c" "mgr_inv m" for j c
    using that f by (auto simp: updc_def good_upd_def mgr_inv_def split: if_splits)
  moreover have "forward m (updc i f m)" using f by (auto simp: forward_def updc_def good_upd_def)
  ultimately show ?thesis unfolding keeps_def mgr_inv_def by (simp add: updc_def)
qed

lemma keeps_same:
  assumes "m_objs m' = m_objs m" "m_conns m' = m_conns m"
  shows "keeps m m'"
  using assms by (simp add: keeps_def mgr_inv_def forward_def)

lemma keeps_emit [simp]: "keeps m (emit e m)" "keeps m (m\<lparr>m_vk := s\<rparr>)"
  by (rule keeps_same; simp add: emit_def)+

lemma keeps_writeEvent [simp]: "keeps m (writeEvent cfg i ev r now m)"
  by (auto simp: writeEvent_def split: option.split)

lemma good_close [simp]: "good_upd (close1 reason)"
  by (simp add: good_upd_def close1_def conn_le_def)

lemma keeps_closec [simp]: "keeps m (closec reason i m)"
  by (simp add: closec_def keeps_updc)

lemma set_update: "p \<in> set (AList.update k v xs) \<Longrightarrow> p = (k, v) \<or> p \<in> set xs"
  by (induction xs) (auto split: if_splits)

lemma keeps_conns:
  assumes "m_objs m i = Some c" "cn_name c = n"
  shows "keeps m (m\<lparr>m_conns := AList.update n i (m_conns m)\<rparr>)"
  unfolding keeps_def mgr_inv_def forward_def
  using assms by (auto simp: distinct_update dest!: set_update)

lemma keeps_drop_own [simp]: "keeps m (drop_own i n m)"
  unfolding keeps_def drop_own_def mgr_inv_def forward_def
  by (auto simp: AList.delete_eq distinct_map_filter)

lemma keeps_bind_loop: "bind_loop cfg ex mint cancelled remint i left m = (r, m') \<Longrightarrow> keeps m m'"
proof (induction left arbitrary: m)
  case 0
  then show ?case by (subst (asm) bind_loop.simps) (auto split: option.splits prod.splits sum.splits)
next
  case (Suc left)
  let ?f = "\<lambda>c. c\<lparr>cn_connID := remint (Suc left)\<rparr>"
  have "good_upd ?f" by (simp add: good_upd_def conn_le_def)
  then have f: "keeps m (updc i ?f (m\<lparr>m_vk := s\<rparr>))" for s by (rule keeps_trans [OF keeps_emit(2) keeps_updc])
  show ?case
  proof (cases "m_objs m i")
    case None
    then show ?thesis using Suc.prems by (subst (asm) bind_loop.simps) simp
  next
    case (Some c)
    obtain r0 s where b: "BindRoute ex (mint (Suc left)) (cancelled (Suc left)) (mc_routeTTL cfg) (cn_name c)
        (mc_nodeID cfg) (cn_connID c) (m_vk m) = (r0, s)" by (meson surj_pair)
    show ?thesis
    proof (cases "r0 = Inl ErrConnIDCollision")
      case True
      then have "bind_loop cfg ex mint cancelled remint i left (updc i ?f (m\<lparr>m_vk := s\<rparr>)) = (r, m')"
        using Suc.prems Some b by (subst (asm) bind_loop.simps) simp
      from keeps_trans [OF f Suc.IH [OF this]] show ?thesis .
    next
      case False
      then have "m' = m\<lparr>m_vk := s\<rparr>"
        using Suc.prems Some b by (subst (asm) bind_loop.simps) (auto split: sum.splits)
      then show ?thesis by simp
    qed
  qed
qed

lemmas keeps_then = keeps_trans [OF _ keeps_emit(1)] keeps_trans [OF _ keeps_emit(2)]
  keeps_trans [OF _ keeps_writeEvent] keeps_trans [OF _ keeps_drop_own] keeps_trans [OF _ keeps_closec]

text \<open>The contract every operation of the manager meets.\<close>

locale mgr_op =
  fixes op :: "'s manager \<Rightarrow> 's manager"
  assumes op_keeps: "keeps m (op m)"
begin

lemma inv: "mgr_inv m \<Longrightarrow> mgr_inv (op m)"
  using op_keeps by (simp add: keeps_def)

lemma first_reason: "mgr_inv m \<Longrightarrow> m_objs m i = Some c \<Longrightarrow> cn_closed c \<Longrightarrow>
    \<exists>c'. m_objs (op m) i = Some c' \<and> cn_closed c' \<and> cn_reason c' = cn_reason c"
  using op_keeps [of m] unfolding keeps_def forward_def conn_le_def by blast

end

interpretation register_op: mgr_op "\<lambda>m. snd (register cfg ex mint cancelled remint i m)" for cfg ex mint cancelled remint i
proof
  fix m :: "'a manager"
  obtain r m1 where b: "bind_loop cfg ex mint cancelled remint i 2 m = (r, m1)" by (meson surj_pair)
  note k1 = keeps_bind_loop [OF b]
  show "keeps m (snd (register cfg ex mint cancelled remint i m))"
  proof (cases "r = Inr () \<and> m_objs m1 i \<noteq> None")
    case False
    then show ?thesis using b k1 by (cases r) (auto simp: register_def)
  next
    case True
    then obtain c where c: "m_objs m1 i = Some c" by auto
    define m2 where "m2 = (case mlookup (cn_name c) m1 of None \<Rightarrow> m1 | Some old \<Rightarrow> closec ''phone-close'' old m1)"
    define m3 where "m3 = m2\<lparr>m_conns := AList.update (cn_name c) i (m_conns m2)\<rparr>"
    define m4 where "m4 = (if m_closeAllReason m3 \<noteq> [] then closec (m_closeAllReason m3) i m3 else m3)"
    have "keeps m1 m2" by (simp add: m2_def split: option.split)
    moreover have "map_option cn_name (m_objs m2 i) = Some (cn_name c)"
      using c by (simp add: m2_def closec_def updc_def close1_def split: option.split)
    then have "keeps m2 m3" unfolding m3_def by (auto intro: keeps_conns)
    moreover have "keeps m3 m4" by (simp add: m4_def)
    ultimately have "keeps m (writeEvent cfg i ''start'' [] 0 (emit PhoneConnOpen m4))"
      by (intro keeps_trans [OF k1] keeps_trans [OF _ keeps_writeEvent] keeps_trans [OF _ keeps_emit(1)]) (blast intro: keeps_trans)
    moreover have "snd (register cfg ex mint cancelled remint i m) = writeEvent cfg i ''start'' [] 0 (emit PhoneConnOpen m4)"
      using True by (simp add: register_def b c Let_def m4_def m3_def m2_def)
    ultimately show ?thesis by simp
  qed
qed

interpretation teardown_op: mgr_op "teardown cfg ex mint cancelled now i" for cfg ex mint cancelled now i
proof
  fix m :: "'a manager"
  have "keeps m (closec ''phone-close'' i m)" by simp
  then show "keeps m (teardown cfg ex mint cancelled now i m)"
    unfolding teardown_def Let_def
    by (auto split: option.split intro!: keeps_then)
qed

interpretation abandon_op: mgr_op "abandon ex mint cancelled i opened" for ex mint cancelled i opened
proof
  fix m :: "'a manager"
  have "keeps m (closec ''error'' i m)" by simp
  then show "keeps m (abandon ex mint cancelled i opened m)"
    unfolding abandon_def Let_def
    by (auto split: option.split intro!: keeps_then)
qed

interpretation heartbeat_op: mgr_op "\<lambda>m. snd (heartbeat_tick cfg ex mint cancelled i m)" for cfg ex mint cancelled i
proof
  fix m :: "'a manager"
  show "keeps m (snd (heartbeat_tick cfg ex mint cancelled i m))"
    by (auto simp: heartbeat_tick_def split: option.split prod.split HeartbeatResult.split
        intro: keeps_trans [OF keeps_emit(2) keeps_closec])
qed

lemma keeps_push: "keeps m (updc i (\<lambda>c. c\<lparr>cn_send := cn_send c @ [f]\<rparr>) m)" if "m_objs m i = Some c" "length (cn_send c) < sendCap"
proof -
  let ?g = "\<lambda>c. if length (cn_send c) < sendCap then c\<lparr>cn_send := cn_send c @ [f]\<rparr> else c"
  have "good_upd ?g" by (auto simp: good_upd_def conn_le_def)
  moreover have "updc i (\<lambda>c. c\<lparr>cn_send := cn_send c @ [f]\<rparr>) m = updc i ?g m" using that by (simp add: updc_def)
  ultimately show ?thesis by (simp add: keeps_updc)
qed

interpretation send_open_op: mgr_op "\<lambda>m. snd (SendOpen name connID payload ctx_done m)" for name connID payload ctx_done
  by unfold_locales (auto simp: SendOpen_def keeps_push split: option.split sum.split)

interpretation nudge_op: mgr_op "\<lambda>m. snd (SendRenewNudge name payload m)" for name payload
  by unfold_locales (auto simp: SendRenewNudge_def keeps_push split: option.split sum.split)

lemma keeps_sendMove [simp]: "keeps m (sendMove rnd marshal i m)"
proof -
  have "good_upd (\<lambda>c. c\<lparr>cn_moveDue := True\<rparr>)"
    "good_upd (\<lambda>c. if length (cn_send c) < sendCap then c\<lparr>cn_send := cn_send c @ [f], cn_moveDue := False\<rparr>
        else c\<lparr>cn_moveDue := True\<rparr>)" for f
    by (auto simp: good_upd_def conn_le_def)
  then show ?thesis by (auto simp: sendMove_def keeps_updc split: sum.split move_err.split)
qed

lemma keeps_sendMoves [simp]: "keeps m (sendMoves rnd marshal is m)"
  unfolding sendMoves_def by (rule keeps_fold) simp

interpretation drain_op: mgr_op "StartDrain rnd marshal addrs" for rnd marshal addrs
proof
  fix m :: "'a manager"
  have "keeps m (m\<lparr>m_moveAddrs := addrs, m_draining := True\<rparr>)" by (rule keeps_same) simp_all
  then show "keeps m (StartDrain rnd marshal addrs m)"
    by (auto simp: StartDrain_def Let_def intro: keeps_trans)
qed

interpretation retry_op: mgr_op "RetryMoves rnd marshal" for rnd marshal
  by unfold_locales (simp add: RetryMoves_def)

interpretation close_all_op: mgr_op "CloseAll reason" for reason
proof
  fix m :: "'a manager"
  have "keeps m (m\<lparr>m_closeAllReason := reason\<rparr>)" by (rule keeps_same) simp_all
  then show "keeps m (CloseAll reason m)"
    unfolding CloseAll_def Let_def by (rule keeps_trans) (rule keeps_fold, simp)
qed

interpretation evict_op: mgr_op "EvictBanned match" for match
  by unfold_locales (auto simp: EvictBanned_def intro: keeps_fold)

interpretation close_op: mgr_op "\<lambda>m. snd (Closem name reason m)" for name reason
  by unfold_locales (auto simp: Closem_def split: option.split)

subsection \<open>Runs of the manager\<close>

text \<open>
  The steps a node's manager takes: the handlers' accepts, registrations, writer and reader pumps and
  teardowns, the heartbeat loops, and the operations called by the edge, the mesh, the ban watcher and
  the drain.
\<close>

inductive mgr_step :: "mgr_config \<Rightarrow> 's client \<Rightarrow> 's manager \<Rightarrow> 's manager \<Rightarrow> bool" for cfg ex where
  accepted: "m_objs m i = None \<Longrightarrow> cn_send c = [] \<Longrightarrow> \<not> cn_closed c \<Longrightarrow>
     mgr_step cfg ex m (m\<lparr>m_objs := (m_objs m)(i \<mapsto> c)\<rparr>)"
| registered: "mgr_step cfg ex m (snd (register cfg ex mints cancels remint i m))"
| abandoned: "mgr_step cfg ex m (abandon ex mint cancelled i opened m)"
| ended: "mgr_step cfg ex m (teardown cfg ex mint cancelled now i m)"
| ticked: "mgr_step cfg ex m (snd (heartbeat_tick cfg ex mint cancelled i m))"
| written: "mgr_step cfg ex m (updc i (\<lambda>c. c\<lparr>cn_send := tl (cn_send c)\<rparr>) m)"
| ponged: "mgr_step cfg ex m (updc i (\<lambda>c. c\<lparr>cn_lastPong := now\<rparr>) m)"
| closed: "mgr_step cfg ex m (closec reason i m)"
| opened: "mgr_step cfg ex m (snd (SendOpen name connID payload ctx_done m))"
| nudged: "mgr_step cfg ex m (snd (SendRenewNudge name payload m))"
| drained: "mgr_step cfg ex m (StartDrain rnd marshal addrs m)"
| retried: "mgr_step cfg ex m (RetryMoves rnd marshal m)"
| all_closed: "mgr_step cfg ex m (CloseAll reason m)"
| evicted: "mgr_step cfg ex m (EvictBanned match m)"
| name_closed: "mgr_step cfg ex m (snd (Closem name reason m))"
| elsewhere: "mgr_step cfg ex m (m\<lparr>m_vk := s\<rparr>)"

lemma keeps_accepted: "m_objs m i = None \<Longrightarrow> cn_send c = [] \<Longrightarrow> keeps m (m\<lparr>m_objs := (m_objs m)(i \<mapsto> c)\<rparr>)"
  unfolding keeps_def mgr_inv_def forward_def by force

lemma mgr_step_keeps: "mgr_step cfg ex m m' \<Longrightarrow> keeps m m'"
proof (induction rule: mgr_step.induct)
  case (accepted m i c)
  then show ?case by (simp add: keeps_accepted)
next
  case (written m i)
  then show ?case by (intro keeps_updc) (auto simp: good_upd_def conn_le_def)
next
  case (ponged m i now)
  then show ?case by (intro keeps_updc) (simp add: good_upd_def conn_le_def)
qed (simp_all add: register_op.op_keeps abandon_op.op_keeps teardown_op.op_keeps heartbeat_op.op_keeps
    send_open_op.op_keeps nudge_op.op_keeps drain_op.op_keeps retry_op.op_keeps close_all_op.op_keeps
    evict_op.op_keeps close_op.op_keeps)

lemma mgr_steps_keeps: "(mgr_step cfg ex)\<^sup>*\<^sup>* m m' \<Longrightarrow> keeps m m'"
  by (induction rule: rtranclp_induct) (auto dest: mgr_step_keeps intro: keeps_trans)

definition NewManager :: "'s \<Rightarrow> 's manager" where
  "NewManager s = \<lparr>m_objs = (\<lambda>_. None), m_conns = [], m_closeAllReason = [], m_draining = False, m_moveAddrs = [],
     m_vk = s, m_trace = []\<rparr>"

lemma NewManager_inv: "mgr_inv (NewManager s)"
  by (simp add: mgr_inv_def NewManager_def)

lemma mgr_reachable_inv: "(mgr_step cfg ex)\<^sup>*\<^sup>* (NewManager s) m \<Longrightarrow> mgr_inv m"
  by (drule mgr_steps_keeps) (simp add: keeps_def NewManager_inv)

text \<open>
  C21. In every run of a node's manager the live map has at most one connection per tunnel name, every
  entry holds a connection of that name and no connection's send queue exceeds its 32 slots; and once a
  connection of such a run is closed, no later step (a ban eviction, a drain, a supersession, the
  teardown) reopens it or changes the close reason it was given first, so the reason of its end event is
  the one that ended it.
\<close>

theorem manager_runs:
  assumes "(mgr_step cfg ex)\<^sup>*\<^sup>* (NewManager s) m" "(mgr_step cfg ex)\<^sup>*\<^sup>* m m'"
  shows "distinct (map fst (m_conns m))
    \<and> (\<forall>n i. (n, i) \<in> set (m_conns m) \<longrightarrow> (\<exists>c. m_objs m i = Some c \<and> cn_name c = n \<and> length (cn_send c) \<le> sendCap))
    \<and> (\<forall>i c. m_objs m i = Some c \<and> cn_closed c \<longrightarrow>
          (\<exists>c'. m_objs m' i = Some c' \<and> cn_name c' = cn_name c \<and> cn_closed c' \<and> cn_reason c' = cn_reason c))"
proof -
  have inv: "mgr_inv m" by (rule mgr_reachable_inv [OF assms(1)])
  have f: "forward m m'" using mgr_steps_keeps [OF assms(2)] inv by (simp add: keeps_def)
  have "\<exists>c. m_objs m i = Some c \<and> cn_name c = n \<and> length (cn_send c) \<le> sendCap" if "(n, i) \<in> set (m_conns m)" for n i
  proof -
    from inv that have "map_option cn_name (m_objs m i) = Some n" unfolding mgr_inv_def by blast
    then obtain c where c: "m_objs m i = Some c" "cn_name c = n" by auto
    with inv show ?thesis unfolding mgr_inv_def by blast
  qed
  moreover have "\<exists>c'. m_objs m' i = Some c' \<and> cn_name c' = cn_name c \<and> cn_closed c' \<and> cn_reason c' = cn_reason c"
    if "m_objs m i = Some c" "cn_closed c" for i c using f that unfolding forward_def conn_le_def by blast
  moreover have "distinct (map fst (m_conns m))" using inv by (simp add: mgr_inv_def)
  ultimately show ?thesis by blast
qed

definition demo_conn :: "string \<Rightarrow> string \<Rightarrow> conn" where
  "demo_conn name cid = \<lparr>cn_name = name, cn_keyFP = [], cn_certSerial = [], cn_connID = cid, cn_sessionStart = 0,
     cn_meta = \<lparr>cm_SNI = [], cm_ALPN = [], cm_TLSVersion = [], cm_JA4 = [], cm_SrcIP = [], cm_SrcPort = 0\<rparr>,
     cn_notAfter = 0, cn_send = [], cn_lastPong = 0, cn_closed = False, cn_reason = [], cn_moveDue = False\<rparr>"

text \<open>Two phones of the same name, the second superseding the first.\<close>

definition demo_cfg_m :: mgr_config where
  "demo_cfg_m = \<lparr>mc_nodeID = ''n1'', mc_nodeHost = [], mc_nodeStart = [], mc_routeTTL = 30 * Second, mc_logs = True\<rparr>"

definition demo_accept :: "nat \<Rightarrow> string \<Rightarrow> vstate manager \<Rightarrow> vstate manager" where
  "demo_accept i cid m = m\<lparr>m_objs := (m_objs m)(i \<mapsto> demo_conn ''quiet-fox'' cid)\<rparr>"

definition demo_reg :: "nat \<Rightarrow> vstate manager \<Rightarrow> vstate manager" where
  "demo_reg i m = snd (register demo_cfg_m mem_exec (\<lambda>a _. ''tok'') (\<lambda>a _. False) (\<lambda>_. ''c9'') i m)"

definition demo_two :: "vstate manager" where
  "demo_two = demo_reg 1 (demo_accept 1 ''c2'' (demo_reg 0 (demo_accept 0 ''c1'' (NewManager \<lparr>clock = 0, keyspace = Map.empty\<rparr>))))"

lemma demo_two_run: "(mgr_step demo_cfg_m mem_exec)\<^sup>*\<^sup>* (NewManager \<lparr>clock = 0, keyspace = Map.empty\<rparr>) demo_two"
proof -
  have a: "m_objs m i = None \<Longrightarrow> mgr_step demo_cfg_m mem_exec m (demo_accept i cid m)" for m i cid
    unfolding demo_accept_def by (rule mgr_step.accepted) (simp_all add: demo_conn_def)
  have r: "mgr_step demo_cfg_m mem_exec m (demo_reg i m)" for m i
    unfolding demo_reg_def by (rule mgr_step.registered)
  let ?m0 = "NewManager \<lparr>clock = 0, keyspace = Map.empty\<rparr> :: vstate manager"
  have 1: "m_objs ?m0 0 = None" by (simp add: NewManager_def)
  have "Option.is_none (m_objs (demo_reg 0 (demo_accept 0 ''c1'' ?m0)) 1)" by code_simp
  then have 2: "m_objs (demo_reg 0 (demo_accept 0 ''c1'' ?m0)) 1 = None" by (simp add: Option.is_none_def)
  note step = rtranclp.rtrancl_into_rtrancl [where r = "mgr_step demo_cfg_m mem_exec"]
  show ?thesis unfolding demo_two_def by (rule step [OF step [OF step [OF step [OF rtranclp.rtrancl_refl a [OF 1]] r] a [OF 2]] r])
qed

theorem manager_runs_witness:
  "(mgr_step demo_cfg_m mem_exec)\<^sup>*\<^sup>* (NewManager \<lparr>clock = 0, keyspace = Map.empty\<rparr>) demo_two
   \<and> map_option cn_closed (m_objs demo_two 0) = Some True
   \<and> map_option cn_reason (m_objs (EvictBanned (\<lambda>_. True) demo_two) 0) = Some ''phone-close''"
proof -
  have s: "(mgr_step demo_cfg_m mem_exec)\<^sup>*\<^sup>* demo_two (EvictBanned (\<lambda>_. True) demo_two)"
    by (blast intro: mgr_step.evicted)
  have "map_option (\<lambda>c. (cn_closed c, cn_reason c)) (m_objs demo_two 0) = Some (True, ''phone-close'')" by code_simp
  then obtain c where c: "m_objs demo_two 0 = Some c" "cn_closed c" "cn_reason c = ''phone-close''" by auto
  with manager_runs [OF demo_two_run s]
  obtain c' where "m_objs (EvictBanned (\<lambda>_. True) demo_two) 0 = Some c'" "cn_reason c' = ''phone-close''" by metis
  then show ?thesis using demo_two_run c by simp
qed

subsection \<open>Drain\<close>

lemma shuffle_mset:
  assumes "\<And>k j. rnd k = Some j \<Longrightarrow> j \<le> k" "i < length xs" "shuffle rnd i xs = Some ys"
  shows "mset ys = mset xs"
  using assms(2,3)
proof (induction i arbitrary: xs)
  case (Suc i)
  then obtain j where j: "rnd (Suc i) = Some j" "shuffle rnd i (xs[Suc i := xs ! j, j := xs ! Suc i]) = Some ys"
    by (auto split: option.splits)
  have "j < length xs" using assms(1) [OF j(1)] Suc.prems(1) by simp
  then have "mset (xs[Suc i := xs ! j, j := xs ! Suc i]) = mset xs" using Suc.prems(1) by (simp add: mset_swap)
  with Suc.IH [OF _ j(2)] Suc.prems(1) show ?case by simp
qed simp

text \<open>A phone has been told to move: the frame is queued, or it is marked for the next retry.\<close>

definition told :: "(string list \<Rightarrow> string + bytes) \<Rightarrow> string list \<Rightarrow> conn \<Rightarrow> bool" where
  "told marshal addrs c \<longleftrightarrow> (\<exists>xs f. mset xs = mset addrs \<and> EncodeControl CtrlMove (Some (marshal xs)) = Inr f \<and> f \<in> set (cn_send c))"

lemma moveFrame_perm:
  assumes "\<And>k j. rnd k = Some j \<Longrightarrow> j \<le> k" "moveFrame rnd marshal m = Inr f"
  shows "\<exists>xs. mset xs = mset (m_moveAddrs m) \<and> EncodeControl CtrlMove (Some (marshal xs)) = Inr f"
proof -
  have ne: "m_moveAddrs m \<noteq> []" using assms(2) by (auto simp: moveFrame_def)
  then obtain xs where xs: "shuffle rnd (length (m_moveAddrs m) - 1) (m_moveAddrs m) = Some xs"
    "EncodeControl CtrlMove (Some (marshal xs)) = Inr f"
    using assms(2) by (auto simp: moveFrame_def Let_def split: option.splits sum.splits)
  then show ?thesis using shuffle_mset [OF assms(1) _ xs(1)] ne by auto
qed

lemma sendMove_self:
  assumes "\<And>k j. rnd k = Some j \<Longrightarrow> j \<le> k" "m_moveAddrs m \<noteq> []" "m_objs m i = Some c" "\<not> cn_closed c"
  shows "\<exists>c'. m_objs (sendMove rnd marshal i m) i = Some c' \<and> (cn_moveDue c' \<or> told marshal (m_moveAddrs m) c')"
proof (cases "moveFrame rnd marshal m")
  case (Inl e)
  then have "e \<noteq> ErrNoMoveTarget" using assms(2) by (auto simp: moveFrame_def Let_def split: option.splits sum.splits)
  then show ?thesis using Inl assms(3,4) by (cases e) (auto simp: sendMove_def isClosed_def updc_def)
next
  case (Inr f)
  then show ?thesis using moveFrame_perm [OF assms(1) Inr] assms(3,4)
    by (auto simp: sendMove_def isClosed_def updc_def told_def)
qed

lemma sendMove_other: "j \<noteq> i \<Longrightarrow> m_objs (sendMove rnd marshal j m) i = m_objs m i"
  by (auto simp: sendMove_def updc_def split: sum.split move_err.split)

lemma sendMove_addrs [simp]: "m_moveAddrs (sendMove rnd marshal j m) = m_moveAddrs m"
  "m_conns (sendMove rnd marshal j m) = m_conns m"
  by (auto simp: sendMove_def updc_def split: sum.split move_err.split)

lemma sendMoves_notin: "i \<notin> set is \<Longrightarrow> m_objs (sendMoves rnd marshal is m) i = m_objs m i"
  by (induction "is" arbitrary: m) (auto simp: sendMoves_def sendMove_other)

lemma sendMoves_at:
  fixes m :: "'s manager"
  assumes "distinct is" "i \<in> set is"
  shows "\<exists>m1 :: 's manager. m_objs m1 i = m_objs m i \<and> m_moveAddrs m1 = m_moveAddrs m
     \<and> m_objs (sendMoves rnd marshal is m) i = m_objs (sendMove (rnd i) marshal i m1) i"
  using assms
proof (induction "is" arbitrary: m)
  case (Cons j js)
  show ?case
  proof (cases "i = j")
    case True
    then have "m_objs (sendMoves rnd marshal (j # js) m) i = m_objs (sendMove (rnd i) marshal i m) i"
      using Cons.prems sendMoves_notin [of i js rnd marshal "sendMove (rnd i) marshal i m"] by (simp add: sendMoves_def)
    then show ?thesis by blast
  next
    case False
    then show ?thesis using Cons.IH [of "sendMove (rnd j) marshal j m"] Cons.prems
      by (auto simp: sendMoves_def sendMove_other)
  qed
qed simp

lemma mgr_ids_distinct: "mgr_inv m \<Longrightarrow> distinct (map snd (m_conns m))"
proof -
  assume inv: "mgr_inv m"
  have "inj_on snd (set (m_conns m))"
  proof (rule inj_onI)
    fix p q assume a: "p \<in> set (m_conns m)" "q \<in> set (m_conns m)" "snd p = snd q"
    then have "map_option cn_name (m_objs m (snd p)) = Some (fst p)" "map_option cn_name (m_objs m (snd q)) = Some (fst q)"
      using inv unfolding mgr_inv_def by (metis prod.collapse)+
    then show "p = q" using a(3) by (auto simp: prod_eq_iff)
  qed
  then show ?thesis using inv by (simp add: mgr_inv_def distinct_map)
qed

lemma HasConn_obj:
  assumes "mgr_inv m" "(n, i) \<in> set (m_conns m)" "HasConn n m"
  obtains c where "m_objs m i = Some c" "\<not> cn_closed c"
proof -
  have "mlookup n m = Some i" using assms(1,2) by (simp add: mlookup_def mgr_inv_def)
  then show thesis using assms(3) that by (auto simp: HasConn_def isClosed_def split: option.splits)
qed

text \<open>
  Starting a drain reaches every phone: each open connection of the live map ends up either with a
  MOVE frame in its send queue, whose addresses are exactly the given ones in some order, or marked due,
  so that the retry of the drain loop finds it. No connection is skipped because another's queue was full or a random draw failed.
\<close>

lemma StartDrain_tells_every_phone:
  fixes m :: "'s manager"
  assumes "mgr_inv m" "addrs \<noteq> []" "\<And>i k j. rnd i k = Some j \<Longrightarrow> j \<le> k"
    and "(n, i) \<in> set (m_conns m)" "HasConn n m"
  shows "\<exists>c. m_objs (StartDrain rnd marshal addrs m) i = Some c \<and> (cn_moveDue c \<or>
     (\<exists>xs f. mset xs = mset addrs \<and> EncodeControl CtrlMove (Some (marshal xs)) = Inr f \<and> f \<in> set (cn_send c)))"
proof -
  obtain c where c: "m_objs m i = Some c" "\<not> cn_closed c" by (rule HasConn_obj [OF assms(1,4,5)])
  let ?m = "m\<lparr>m_moveAddrs := addrs, m_draining := True\<rparr>"
  have "i \<in> set (map snd (m_conns m))" using assms(4) by force
  then obtain m1 :: "'s manager" where m1: "m_objs m1 i = Some c" "m_moveAddrs m1 = addrs"
    "m_objs (StartDrain rnd marshal addrs m) i = m_objs (sendMove (rnd i) marshal i m1) i"
    using sendMoves_at [OF mgr_ids_distinct [OF assms(1)], of i ?m rnd marshal] c assms(2)
    by (auto simp: StartDrain_def Let_def)
  then show ?thesis using sendMove_self [of "rnd i" m1 i c marshal] assms(2,3) c by (auto simp: told_def)
qed

text \<open>
  C29. A due phone is served as soon as its queue has room: one retry of the drain loop queues the MOVE
  for every open connection that was marked due and has a free slot, and clears the mark, provided the
  random source delivers and the frame can be encoded.
\<close>

theorem RetryMoves_serves_due:
  fixes m :: "'s manager"
  assumes "mgr_inv m" "m_moveAddrs m \<noteq> []" "\<And>i k. \<exists>j \<le> k. rnd i k = Some j"
    and "\<And>xs. mset xs = mset (m_moveAddrs m) \<Longrightarrow> \<exists>f. EncodeControl CtrlMove (Some (marshal xs)) = Inr f"
    and "(n, i) \<in> set (m_conns m)" "m_objs m i = Some c" "cn_moveDue c" "\<not> cn_closed c" "length (cn_send c) < sendCap"
  shows "\<exists>xs f. mset xs = mset (m_moveAddrs m) \<and> EncodeControl CtrlMove (Some (marshal xs)) = Inr f
     \<and> m_objs (RetryMoves rnd marshal m) i = Some (c\<lparr>cn_send := cn_send c @ [f], cn_moveDue := False\<rparr>)"
proof -
  have lt: "rnd a k = Some j \<Longrightarrow> j \<le> k" for a k j using assms(3) [of k a] by auto
  have sh: "shuffle (rnd i) k xs \<noteq> None" for k and xs :: "string list"
  proof (induction k arbitrary: xs)
    case (Suc k)
    obtain j where "rnd i (Suc k) = Some j" using assms(3) by blast
    then show ?case using Suc.IH by simp
  qed simp
  have "i \<in> set (filter (\<lambda>i. moveDue i m) (map snd (m_conns m)))" using assms(5-7) by (force simp: moveDue_def)
  then obtain m1 :: "'s manager" where m1: "m_objs m1 i = Some c" "m_moveAddrs m1 = m_moveAddrs m"
    "m_objs (RetryMoves rnd marshal m) i = m_objs (sendMove (rnd i) marshal i m1) i"
    using sendMoves_at [OF distinct_filter [OF mgr_ids_distinct [OF assms(1)]], of i "\<lambda>i. moveDue i m" m rnd marshal] assms(6)
    by (auto simp: RetryMoves_def)
  obtain xs where xs: "shuffle (rnd i) (length (m_moveAddrs m) - 1) (m_moveAddrs m) = Some xs" using sh by blast
  have p: "mset xs = mset (m_moveAddrs m)" using shuffle_mset [OF lt _ xs] assms(2) by simp
  obtain f where f: "EncodeControl CtrlMove (Some (marshal xs)) = Inr f" using assms(4) [OF p] by blast
  have "moveFrame (rnd i) marshal m1 = Inr f" using m1(2) assms(2) xs f by (simp add: moveFrame_def Let_def)
  then show ?thesis using p f m1 assms(8,9) by (auto simp: sendMove_def isClosed_def updc_def)
qed

definition demo_marshal :: "string list \<Rightarrow> string + bytes" where
  "demo_marshal xs = Inr (map of_char (concat xs))"

definition demo_mgr :: "unit manager" where
  "demo_mgr = (NewManager ())\<lparr>m_objs := [0 \<mapsto> demo_conn ''quiet-fox'' ''c1''], m_conns := [(''quiet-fox'', 0)]\<rparr>"

lemma demo_mgr_inv: "mgr_inv demo_mgr"
  by (auto simp: mgr_inv_def demo_mgr_def NewManager_def demo_conn_def)

lemma StartDrain_tells_every_phone_witness:
  "\<exists>c. m_objs (StartDrain (\<lambda>_ k. Some (k div 2)) demo_marshal [''n1'', ''n2''] demo_mgr) 0 = Some c \<and> (cn_moveDue c \<or>
     (\<exists>xs f. mset xs = mset [''n1'', ''n2''] \<and> EncodeControl CtrlMove (Some (demo_marshal xs)) = Inr f \<and> f \<in> set (cn_send c)))"
proof (rule StartDrain_tells_every_phone [OF demo_mgr_inv])
  show "(''quiet-fox'', 0) \<in> set (m_conns demo_mgr)" by (simp add: demo_mgr_def)
  show "HasConn ''quiet-fox'' demo_mgr" by code_simp
qed auto

lemma mset_concat_length: "mset xs = mset ys \<Longrightarrow> length (concat xs) = length (concat ys)"
  by (simp add: length_concat) (metis mset_map sum_mset_sum_list)

definition demo_due :: "unit manager" where
  "demo_due = demo_mgr\<lparr>m_objs := [0 \<mapsto> (demo_conn ''quiet-fox'' ''c1'')\<lparr>cn_moveDue := True\<rparr>], m_moveAddrs := [''n1'', ''n2'']\<rparr>"

theorem RetryMoves_serves_due_witness:
  "\<exists>xs f. mset xs = mset [''n1'', ''n2''] \<and> EncodeControl CtrlMove (Some (demo_marshal xs)) = Inr f
     \<and> m_objs (RetryMoves (\<lambda>_ k. Some (k div 2)) demo_marshal demo_due) 0
        = Some ((demo_conn ''quiet-fox'' ''c1'')\<lparr>cn_send := [f], cn_moveDue := False\<rparr>)"
proof -
  have inv: "mgr_inv demo_due" by (auto simp: mgr_inv_def demo_due_def demo_mgr_def NewManager_def demo_conn_def)
  have a: "m_moveAddrs demo_due = [''n1'', ''n2'']" by (simp add: demo_due_def)
  have e: "\<exists>f. EncodeControl CtrlMove (Some (demo_marshal xs)) = Inr f" if "mset xs = mset (m_moveAddrs demo_due)" for xs
    using mset_concat_length [OF that] by (simp add: a EncodeControl_def demo_marshal_def maxControlPayload_def Let_def)
  have "\<exists>xs f. mset xs = mset (m_moveAddrs demo_due) \<and> EncodeControl CtrlMove (Some (demo_marshal xs)) = Inr f
     \<and> m_objs (RetryMoves (\<lambda>_ k. Some (k div 2)) demo_marshal demo_due) 0
        = Some (((demo_conn ''quiet-fox'' ''c1'')\<lparr>cn_moveDue := True\<rparr>)\<lparr>
            cn_send := cn_send ((demo_conn ''quiet-fox'' ''c1'')\<lparr>cn_moveDue := True\<rparr>) @ [f], cn_moveDue := False\<rparr>)"
    by (rule RetryMoves_serves_due [OF inv, where n = "''quiet-fox''"])
      (use e in \<open>auto simp: demo_due_def demo_mgr_def NewManager_def demo_conn_def sendCap_def\<close>)
  then show ?thesis by (simp add: a demo_conn_def)
qed

end
