(* ===== verification/Conn_Log_Spool.thy ===== *)
theory Conn_Log_Spool
  imports Go_Time "HOL-Library.AList"
begin

text \<open>
  The connection-log spool (\<^verbatim>\<open>src/internal/store/spool.go\<close>): events are queued, appended as JSON lines to an
  active file in the spool directory, rotated by window and size into ready files and uploaded to the
  object store. The directory and the store are association lists; every file operation can fail, and
  which ones do is given with each operation. \<^verbatim>\<open>json.Marshal\<close> is the argument \<open>marshal\<close>. The rate limit on
  warnings (\<^verbatim>\<open>ioWarn\<close>, \<^verbatim>\<open>capWarn\<close>) is modelled on its own at the end of the definitions.
\<close>

abbreviation newline :: char where "newline \<equiv> CHR 0x0A"

definition spoolQueue :: nat where "spoolQueue = 5000"
definition spoolWindow :: duration where "spoolWindow = 5 * Minute"
definition spoolMaxNameTries :: nat where "spoolMaxNameTries = 1000"
definition spoolReadySuffix :: string where "spoolReadySuffix = ''.jsonl''"
definition spoolActiveSuffix :: string where "spoolActiveSuffix = ''.jsonl.part''"
definition spoolUploadBase :: duration where "spoolUploadBase = 30 * Second"
definition spoolUploadRate :: int where "spoolUploadRate = 131072"
definition spoolIOLogEvery :: duration where "spoolIOLogEvery = Minute"

subsection \<open>File names\<close>

definition is_hex :: "char \<Rightarrow> bool" where
  "is_hex c \<longleftrightarrow> is_digit c \<or> CHR ''a'' \<le> c \<and> c \<le> CHR ''f''"

definition is_ts :: "string \<Rightarrow> bool" where
  "is_ts s \<longleftrightarrow> length s = 26 \<and> list_all is_digit (take 8 s) \<and> s ! 8 = CHR ''T'' \<and> list_all is_digit (take 6 (drop 9 s))
     \<and> s ! 15 = CHR ''.'' \<and> list_all is_digit (take 9 (drop 16 s)) \<and> s ! 25 = CHR ''Z''"

text \<open>The match of \<^verbatim>\<open>spoolName\<close>: the timestamp, the node id and whether the name has the \<^verbatim>\<open>.part\<close> suffix.\<close>

definition spoolName :: "string \<Rightarrow> (string \<times> string \<times> bool) option" where
  "spoolName name =
     (let ts = take 26 name; rest = drop 27 name; node = takeWhile is_hex rest; tail = dropWhile is_hex rest
      in if length name > 27 \<and> is_ts ts \<and> name ! 26 = CHR ''-'' \<and> node \<noteq> []
            \<and> (tail = ''.jsonl'' \<or> tail = ''.jsonl.part'')
         then Some (ts, node, tail = ''.jsonl.part'') else None)"

definition nodeIDPattern :: "string \<Rightarrow> bool" where
  "nodeIDPattern s \<longleftrightarrow> s \<noteq> [] \<and> list_all is_hex s"

text \<open>\<^verbatim>\<open>time.Parse\<close> of a timestamp that matched the pattern: the ranges of the fields.\<close>

definition parse_ts :: "string \<Rightarrow> (nat \<times> nat \<times> nat) option" where
  "parse_ts ts =
     (let f = (\<lambda>i n. digits_val (take n (drop i ts))); y = f 0 4; m = f 4 2; d = f 6 2
      in if 1 \<le> m \<and> m \<le> 12 \<and> 1 \<le> d \<and> d \<le> month_lengths y ! (m - 1) \<and> f 9 2 < 24 \<and> f 11 2 < 60 \<and> f 13 2 < 60
         then Some (y, m, d) else None)"

definition spoolKey :: "string \<Rightarrow> string option" where
  "spoolKey name =
     (case spoolName name of
        Some (ts, _, False) \<Rightarrow>
          (case parse_ts ts of
             None \<Rightarrow> None
           | Some (y, m, d) \<Rightarrow> Some (''tunnel-logs/'' @ fmt0 4 y @ ''/'' @ fmt0 2 m @ ''/'' @ fmt0 2 d @ ''/'' @ name))
      | _ \<Rightarrow> None)"

subsection \<open>State\<close>

record activeFile =
  af_path :: string
  af_size :: int
  af_winStart :: int

record spool_cfg =
  sc_nodeID :: string
  sc_maxFile :: int
  sc_maxBytes :: int

datatype entry = Regular string | Irregular

record 'e spool =
  sp_dir :: "(string \<times> entry) list"
  sp_closed :: bool
  sp_events :: "'e list"
  sp_spooled :: int
  sp_dropped :: nat
  sp_active :: "activeFile option"
  sp_abandon :: bool
  sp_lastStart :: int
  sp_kick :: bool
  sp_objects :: "(string \<times> string) list"

definition file_at :: "(string \<times> entry) list \<Rightarrow> string \<Rightarrow> string option" where
  "file_at d n = (case map_of d n of Some (Regular c) \<Rightarrow> Some c | _ \<Rightarrow> None)"

definition onDrop :: "'e spool \<Rightarrow> 'e spool" where
  "onDrop s = s\<lparr>sp_dropped := sp_dropped s + 1\<rparr>"

text \<open>\<^verbatim>\<open>os.Rename\<close> inside the directory.\<close>

definition rename :: "string \<Rightarrow> string \<Rightarrow> (string \<times> entry) list \<Rightarrow> (string \<times> entry) list" where
  "rename old new d = (case map_of d old of None \<Rightarrow> d | Some e \<Rightarrow> AList.update new e (AList.delete old d))"

definition strip_part :: "string \<Rightarrow> string" where
  "strip_part path = TrimSuffix path ''.part''"

subsection \<open>Recovery at start\<close>

text \<open>Which of the file operations on one entry fail.\<close>

record recover_io =
  ri_stat :: bool
  ri_read :: bool
  ri_remove :: bool
  ri_truncate :: bool
  ri_rename :: bool

fun last_newline :: "string \<Rightarrow> nat" where
  "last_newline [] = 0"
| "last_newline (c # cs) = (if last_newline cs > 0 then Suc (last_newline cs) else if c = newline then 1 else 0)"

definition recoverPart :: "recover_io \<Rightarrow> string \<Rightarrow> 'e spool \<Rightarrow> 'e spool" where
  "recoverPart io path s =
     (case file_at (sp_dir s) path of
        None \<Rightarrow> s
      | Some content \<Rightarrow>
          if ri_read io then s
          else let keep = last_newline content in
            if keep = 0 then if ri_remove io then s else s\<lparr>sp_dir := AList.delete path (sp_dir s)\<rparr>
            else if keep < length content \<and> ri_truncate io then s
            else let d = (if keep < length content then AList.update path (Regular (take keep content)) (sp_dir s) else sp_dir s) in
              if ri_rename io then s\<lparr>sp_dir := d\<rparr>
              else s\<lparr>sp_dir := rename path (strip_part path) d, sp_spooled := sp_spooled s + int keep\<rparr>)"

definition recover_entry :: "(string \<Rightarrow> recover_io) \<Rightarrow> string \<times> entry \<Rightarrow> 'e spool \<Rightarrow> 'e spool" where
  "recover_entry io e s =
     (case (spoolName (fst e), snd e) of
        (Some (_, _, part), Regular content) \<Rightarrow>
          if \<not> part then if ri_stat (io (fst e)) then s else s\<lparr>sp_spooled := sp_spooled s + int (length content)\<rparr>
          else recoverPart (io (fst e)) (fst e) s
      | _ \<Rightarrow> s)"

definition recoverSpool :: "(string \<Rightarrow> recover_io) \<Rightarrow> 'e spool \<Rightarrow> 'e spool" where
  "recoverSpool io s = fold (recover_entry io) (sort_key fst (sp_dir s)) s"

definition spool_start :: "(string \<times> entry) list \<Rightarrow> 'e spool" where
  "spool_start d = \<lparr>sp_dir = d, sp_closed = False, sp_events = [], sp_spooled = 0, sp_dropped = 0, sp_active = None,
     sp_abandon = False, sp_lastStart = - zero_time, sp_kick = False, sp_objects = []\<rparr>"

text \<open>The constructor, on a directory that could be created, locked and listed.\<close>

definition NewConnLogSpool :: "spool_cfg \<Rightarrow> (string \<Rightarrow> recover_io) \<Rightarrow> (string \<times> entry) list \<Rightarrow> 'e spool option" where
  "NewConnLogSpool cfg io d =
     (if \<not> nodeIDPattern (sc_nodeID cfg) then None
      else let s = recoverSpool io (spool_start d) in Some (s\<lparr>sp_kick := True\<rparr>))"

subsection \<open>Intake\<close>

definition PutConnLog :: "'e \<Rightarrow> 'e spool \<Rightarrow> 'e spool" where
  "PutConnLog ev s =
     (if sp_closed s then onDrop s
      else if length (sp_events s) < spoolQueue then s\<lparr>sp_events := sp_events s @ [ev]\<rparr>
      else onDrop s)"

subsection \<open>The writer\<close>

text \<open>
  What the outside gives to one step of the writer: the clock and the failures of the file operations;
  \<open>wi_write\<close> is the number of bytes a failing write got to disk (\<^verbatim>\<open>os.File.Write\<close> fails only short of the whole line).
\<close>

record writer_io =
  wi_now :: int
  wi_lstat :: "nat \<Rightarrow> bool"
  wi_create :: "nat \<Rightarrow> bool"
  wi_write :: "nat option"
  wi_truncate :: bool
  wi_rename :: bool
  wi_remove :: bool

definition inWindow :: "activeFile \<Rightarrow> int \<Rightarrow> bool" where
  "inWindow w now \<longleftrightarrow> \<not> now < af_winStart w \<and> now < af_winStart w + spoolWindow"

definition signalUpload :: "'e spool \<Rightarrow> 'e spool" where
  "signalUpload s = s\<lparr>sp_kick := True\<rparr>"

definition rotate_file :: "writer_io \<Rightarrow> 'e spool \<Rightarrow> 'e spool" where
  "rotate_file io s =
     (case sp_active s of
        None \<Rightarrow> s
      | Some w \<Rightarrow>
          if af_size w = 0 then
            (if wi_remove io then s else s\<lparr>sp_dir := AList.delete (af_path w) (sp_dir s)\<rparr>)\<lparr>sp_active := None\<rparr>
          else
            (if wi_rename io then s
             else signalUpload (s\<lparr>sp_dir := rename (af_path w) (strip_part (af_path w)) (sp_dir s)\<rparr>))\<lparr>sp_active := None\<rparr>)"

definition base_name :: "spool_cfg \<Rightarrow> int \<Rightarrow> string" where
  "base_name cfg start = tsNanos start @ ''-'' @ sc_nodeID cfg"

fun open_loop :: "spool_cfg \<Rightarrow> writer_io \<Rightarrow> nat \<Rightarrow> (string \<times> entry) list \<Rightarrow> int \<Rightarrow> int option" where
  "open_loop cfg io 0 d start = None"
| "open_loop cfg io (Suc k) d start =
     (if wi_lstat io k then None
      else if map_of d (base_name cfg start @ spoolReadySuffix) \<noteq> None then open_loop cfg io k d (start + 1)
      else if map_of d (base_name cfg start @ spoolActiveSuffix) \<noteq> None then open_loop cfg io k d (start + 1)
      else if wi_create io k then None
      else Some start)"

definition open_file :: "spool_cfg \<Rightarrow> writer_io \<Rightarrow> 'e spool \<Rightarrow> 'e spool option" where
  "open_file cfg io s =
     (let now = wi_now io; start = (if now > sp_lastStart s then now else sp_lastStart s + 1)
      in case open_loop cfg io spoolMaxNameTries (sp_dir s) start of
           None \<Rightarrow> None
         | Some st \<Rightarrow>
             let path = base_name cfg st @ spoolActiveSuffix in
             Some (s\<lparr>sp_dir := AList.update path (Regular []) (sp_dir s),
                     sp_active := Some \<lparr>af_path = path, af_size = 0, af_winStart = Truncate now spoolWindow\<rparr>,
                     sp_lastStart := st\<rparr>))"

text \<open>The write of one line to the active file, with what a failing write and a failing undo leave behind.\<close>

definition write_line :: "spool_cfg \<Rightarrow> writer_io \<Rightarrow> string \<Rightarrow> 'e spool \<Rightarrow> 'e spool" where
  "write_line cfg io line s =
     (case sp_active s of
        None \<Rightarrow> s
      | Some w \<Rightarrow>
          let old = (case file_at (sp_dir s) (af_path w) of None \<Rightarrow> [] | Some c \<Rightarrow> c) in
          (case wi_write io of
             None \<Rightarrow>
               let n = int (length line); w' = w\<lparr>af_size := af_size w + n\<rparr>;
                   s' = s\<lparr>sp_dir := AList.update (af_path w) (Regular (old @ line)) (sp_dir s),
                          sp_active := Some w', sp_spooled := sp_spooled s + n\<rparr>
               in if af_size w' \<ge> sc_maxFile cfg then rotate_file io s' else s'
           | Some k \<Rightarrow>
               let part = take k (butlast line); n = int (length part); s1 = onDrop s in
               if \<not> wi_truncate io
               then s1\<lparr>sp_dir := AList.update (af_path w) (Regular (take (nat (af_size w)) (old @ part))) (sp_dir s1)\<rparr>
               else rotate_file io (s1\<lparr>sp_dir := AList.update (af_path w) (Regular (old @ part)) (sp_dir s1),
                                  sp_spooled := sp_spooled s1 + n, sp_active := Some (w\<lparr>af_size := af_size w + n\<rparr>)\<rparr>)))"

definition append_event :: "('e \<Rightarrow> string option) \<Rightarrow> spool_cfg \<Rightarrow> writer_io \<Rightarrow> 'e \<Rightarrow> 'e spool \<Rightarrow> 'e spool" where
  "append_event marshal cfg io ev s =
     (case marshal ev of
        None \<Rightarrow> onDrop s
      | Some body \<Rightarrow>
          let line = body @ [newline];
              s1 = (case sp_active s of Some w \<Rightarrow> if inWindow w (wi_now io) then s else rotate_file io s | None \<Rightarrow> s)
          in if sp_spooled s1 + int (length line) > sc_maxBytes cfg then onDrop s1
             else case (if sp_active s1 = None then open_file cfg io s1 else Some s1) of
               None \<Rightarrow> onDrop s1
             | Some s2 \<Rightarrow> write_line cfg io line s2)"

text \<open>One receive of the writer's loop, and one tick.\<close>

definition writer_recv :: "('e \<Rightarrow> string option) \<Rightarrow> spool_cfg \<Rightarrow> writer_io \<Rightarrow> 'e spool \<Rightarrow> 'e spool" where
  "writer_recv marshal cfg io s =
     (case sp_events s of
        [] \<Rightarrow> if sp_closed s then rotate_file io s else s
      | ev # evs \<Rightarrow>
          if sp_abandon s then onDrop (s\<lparr>sp_events := evs\<rparr>)
          else append_event marshal cfg io ev (s\<lparr>sp_events := evs\<rparr>))"

definition writer_tick :: "writer_io \<Rightarrow> 'e spool \<Rightarrow> 'e spool" where
  "writer_tick io s =
     (case sp_active s of Some w \<Rightarrow> if inWindow w (wi_now io) then s else rotate_file io s | None \<Rightarrow> s)"

subsection \<open>The uploader\<close>

definition is_ready :: "string \<times> entry \<Rightarrow> bool" where
  "is_ready e = (case (spoolName (fst e), snd e) of (Some (_, _, part), Regular _) \<Rightarrow> \<not> part | _ \<Rightarrow> False)"

definition readyFiles :: "'e spool \<Rightarrow> string list" where
  "readyFiles s = sort (map fst (filter is_ready (sp_dir s)))"

text \<open>Which steps of an upload fail; a failed call of the store (\<open>ui_put\<close>) may have stored the object all the same (\<open>ui_stored\<close>).\<close>

record upload_io =
  ui_open :: bool
  ui_stat :: bool
  ui_put :: bool
  ui_stored :: bool
  ui_remove :: bool

text \<open>\<^verbatim>\<open>uploadFile\<close>: the pair (uploaded, failed) and the new state.\<close>

definition uploadFile :: "upload_io \<Rightarrow> string \<Rightarrow> 'e spool \<Rightarrow> (bool \<times> bool) \<times> 'e spool" where
  "uploadFile io name s =
     (case (spoolKey name, file_at (sp_dir s) name) of
        (Some key, Some content) \<Rightarrow>
          if ui_open io \<or> ui_stat io then ((False, False), s)
          else let s1 = s\<lparr>sp_objects := AList.update key content (sp_objects s)\<rparr> in
            if ui_put io then ((False, True), if ui_stored io then s1 else s)
            else if ui_remove io then ((False, False), s1)
            else ((True, False), s1\<lparr>sp_dir := AList.delete name (sp_dir s1),
                                    sp_spooled := sp_spooled s1 - int (length content)\<rparr>)
      | _ \<Rightarrow> ((False, False), s))"

text \<open>One pass over the listed files; \<open>stop\<close> says whether the upload context is done before a file.\<close>

fun pass_files :: "(string \<Rightarrow> bool) \<Rightarrow> (string \<Rightarrow> upload_io) \<Rightarrow> string list \<Rightarrow> bool \<Rightarrow> 'e spool \<Rightarrow> bool \<times> 'e spool" where
  "pass_files stop io [] clean s = (clean, s)"
| "pass_files stop io (name # names) clean s =
     (if stop name then (False, s)
      else case uploadFile (io name) name s of
        ((uploaded, failed), s1) \<Rightarrow>
          if failed then (False, s1) else pass_files stop io names (clean \<and> uploaded) s1)"

definition pass :: "bool \<Rightarrow> (string \<Rightarrow> bool) \<Rightarrow> (string \<Rightarrow> upload_io) \<Rightarrow> 'e spool \<Rightarrow> bool \<times> 'e spool" where
  "pass list_err stop io s = (if list_err then (False, s) else pass_files stop io (readyFiles s) True s)"

definition uploadTimeout :: "int \<Rightarrow> duration" where
  "uploadTimeout sz = spoolUploadBase + go_div (sz * Second) spoolUploadRate"

subsection \<open>Shutdown\<close>

definition drain_close :: "'e spool \<Rightarrow> 'e spool" where
  "drain_close s = s\<lparr>sp_closed := True\<rparr>"

definition drain_abandon :: "'e spool \<Rightarrow> 'e spool" where
  "drain_abandon s = s\<lparr>sp_abandon := True\<rparr>"

subsection \<open>Rate-limited warnings\<close>

record warn_state =
  ws_last :: "int option"
  ws_suppressed :: nat
  ws_logged :: "(int \<times> nat) list"

definition ioWarn :: "int \<Rightarrow> warn_state \<Rightarrow> warn_state" where
  "ioWarn now w =
     (case ws_last w of
        Some l \<Rightarrow> if now - l < spoolIOLogEvery then w\<lparr>ws_suppressed := ws_suppressed w + 1\<rparr>
                  else w\<lparr>ws_last := Some now, ws_suppressed := 0, ws_logged := ws_logged w @ [(now, ws_suppressed w)]\<rparr>
      | None \<Rightarrow> w\<lparr>ws_last := Some now, ws_suppressed := 0, ws_logged := ws_logged w @ [(now, ws_suppressed w)]\<rparr>)"

definition flushIOWarn :: "bool \<Rightarrow> int \<Rightarrow> warn_state \<Rightarrow> warn_state" where
  "flushIOWarn force now w =
     (if ws_suppressed w = 0 \<or> (\<not> force \<and> (case ws_last w of Some l \<Rightarrow> now - l < spoolIOLogEvery | None \<Rightarrow> False)) then w
      else w\<lparr>ws_last := Some now, ws_suppressed := 0, ws_logged := ws_logged w @ [(now, ws_suppressed w)]\<rparr>)"

definition capWarn :: "int \<Rightarrow> int option \<Rightarrow> int option \<times> bool" where
  "capWarn now warned = (let win = Truncate now spoolWindow in if warned = Some win then (warned, False) else (Some win, True))"

subsection \<open>Runs\<close>

text \<open>
  The operations of the writer, the uploader, the callers and the shutdown, in any interleaving. An upload of one
  file is a step of its own, so the writer may act between two files of a pass.
\<close>

datatype 'e spool_op =
    Put 'e
  | Recv writer_io
  | Tick writer_io
  | Upload upload_io string
  | DrainClose
  | DrainAbandon

fun spool_exec :: "('e \<Rightarrow> string option) \<Rightarrow> spool_cfg \<Rightarrow> 'e spool_op \<Rightarrow> 'e spool \<Rightarrow> 'e spool" where
  "spool_exec marshal cfg (Put ev) s = PutConnLog ev s"
| "spool_exec marshal cfg (Recv io) s = writer_recv marshal cfg io s"
| "spool_exec marshal cfg (Tick io) s = writer_tick io s"
| "spool_exec marshal cfg (Upload io name) s = snd (uploadFile io name s)"
| "spool_exec marshal cfg DrainClose s = drain_close s"
| "spool_exec marshal cfg DrainAbandon s = drain_abandon s"

definition spool_run :: "('e \<Rightarrow> string option) \<Rightarrow> spool_cfg \<Rightarrow> 'e spool_op list \<Rightarrow> 'e spool \<Rightarrow> 'e spool" where
  "spool_run marshal cfg ops s = fold (spool_exec marshal cfg) ops s"

fun offered :: "'e spool_op list \<Rightarrow> 'e list" where
  "offered [] = []"
| "offered (Put ev # ops) = ev # offered ops"
| "offered (_ # ops) = offered ops"

lemma pass_is_run: "\<exists>ops. offered ops = [] \<and> snd (pass list_err stop io s) = spool_run marshal cfg ops s"
proof -
  have "\<exists>ops. offered ops = [] \<and> snd (pass_files stop io names clean s) = spool_run marshal cfg ops s" for names clean
  proof (induction names arbitrary: clean s)
    case Nil
    show ?case by (intro exI [of _ "[]"]) (simp add: spool_run_def)
  next
    case (Cons n ns)
    obtain u f s1 where u: "uploadFile (io n) n s = ((u, f), s1)" by (metis prod.collapse)
    show ?case
    proof (cases "stop n")
      case True
      then show ?thesis by (intro exI [of _ "[]"]) (simp add: spool_run_def)
    next
      case False
      obtain ops where o: "offered ops = []" "snd (pass_files stop io ns (clean \<and> u) s1) = spool_run marshal cfg ops s1"
        using Cons.IH by blast
      show ?thesis
      proof (cases f)
        case True
        then show ?thesis using False u by (intro exI [of _ "[Upload (io n) n]"]) (simp add: spool_run_def)
      next
        case nf: False
        then show ?thesis using False u o by (intro exI [of _ "Upload (io n) n # ops"]) (simp add: spool_run_def)
      qed
    qed
  qed
  then show ?thesis by (cases list_err) (auto simp: pass_def spool_run_def intro: exI [of _ "[]"])
qed

subsection \<open>Lines on disk and in the store\<close>

text \<open>The complete lines of a file.\<close>

fun lines_of :: "string \<Rightarrow> string \<Rightarrow> string list" where
  "lines_of acc [] = []"
| "lines_of acc (c # cs) = (if c = newline then rev acc # lines_of [] cs else lines_of (c # acc) cs)"

definition complete :: "string \<Rightarrow> bool" where
  "complete c \<longleftrightarrow> c = [] \<or> last c = newline"

lemma lines_of_append: "complete c \<Longrightarrow> c \<noteq> [] \<or> acc = [] \<Longrightarrow> lines_of acc (c @ x) = lines_of acc c @ lines_of [] x"
  by (induction acc c rule: lines_of.induct) (auto simp: complete_def split: if_splits)

lemma lines_of_none: "newline \<notin> set x \<Longrightarrow> lines_of acc x = []"
  by (induction x arbitrary: acc) auto

lemma lines_of_line: "newline \<notin> set x \<Longrightarrow> lines_of acc (x @ [newline]) = [rev acc @ x]"
  by (induction x arbitrary: acc) auto

definition entry_lines :: "entry \<Rightarrow> string multiset" where
  "entry_lines e = (case e of Regular c \<Rightarrow> mset (lines_of [] c) | Irregular \<Rightarrow> {#})"

definition file_lines :: "(string \<times> entry) list \<Rightarrow> string multiset" where
  "file_lines d = sum_list (map (\<lambda>(n, e). entry_lines e) d)"

text \<open>An object counts unless a file with its key is still in the directory.\<close>

definition masked :: "(string \<times> entry) list \<Rightarrow> string set" where
  "masked d = {k. \<exists>n c. map_of d n = Some (Regular c) \<and> spoolKey n = Some k}"

definition object_lines :: "string set \<Rightarrow> (string \<times> string) list \<Rightarrow> string multiset" where
  "object_lines M ob = sum_list (map (\<lambda>(k, b). if k \<in> M then {#} else mset (lines_of [] b)) ob)"

definition spool_lines :: "'e spool \<Rightarrow> string multiset" where
  "spool_lines s = file_lines (sp_dir s) + object_lines (masked (sp_dir s)) (sp_objects s)"

lemma sum_delete:
  fixes f :: "string \<times> entry \<Rightarrow> 'a :: comm_monoid_add"
  assumes "distinct (map fst d)" "map_of d n = Some e"
  shows "sum_list (map f d) = f (n, e) + sum_list (map f (AList.delete n d))"
  using assms
proof (induction d)
  case (Cons p d)
  show ?case
  proof (cases "fst p = n")
    case True
    then have "AList.delete n d = d" using Cons.prems by (intro AList.delete_id) auto
    then show ?thesis using True Cons.prems by (cases p) (auto simp: AList.delete_eq)
  next
    case False
    then show ?thesis using Cons by (cases p) (auto simp: AList.delete_eq ac_simps)
  qed
qed simp

lemma sum_update:
  fixes f :: "string \<times> entry \<Rightarrow> 'a :: comm_monoid_add"
  assumes "distinct (map fst d)"
  shows "sum_list (map f (AList.update n e d)) = f (n, e) + sum_list (map f (AList.delete n d))"
  using assms
proof (induction d)
  case (Cons p d)
  show ?case
  proof (cases "fst p = n")
    case True
    then have "AList.delete n d = d" using Cons.prems by (intro AList.delete_id) auto
    then show ?thesis using True Cons.prems by (cases p) (auto simp: AList.delete_eq)
  next
    case False
    then show ?thesis using Cons by (cases p) (auto simp: AList.delete_eq ac_simps)
  qed
qed simp

lemma file_lines_delete:
  "distinct (map fst d) \<Longrightarrow> map_of d n = Some e \<Longrightarrow> file_lines d = entry_lines e + file_lines (AList.delete n d)"
  by (simp add: file_lines_def sum_delete)

lemma file_lines_update:
  "distinct (map fst d) \<Longrightarrow> file_lines (AList.update n e d) = entry_lines e + file_lines (AList.delete n d)"
  by (simp add: file_lines_def sum_update)

lemma file_lines_new: "distinct (map fst d) \<Longrightarrow> map_of d n = None \<Longrightarrow> file_lines (AList.update n e d) = entry_lines e + file_lines d"
  by (simp add: file_lines_update AList.delete_id map_of_eq_None_iff)

lemma object_lines_update_masked: "k \<in> M \<Longrightarrow> object_lines M (AList.update k b ob) = object_lines M ob"
  by (induction ob) (auto simp: object_lines_def)

lemma object_lines_mask_new: "k \<notin> fst ` set ob \<Longrightarrow> object_lines (insert k M) ob = object_lines M ob"
  by (induction ob) (auto simp: object_lines_def)

lemma object_lines_unmask:
  assumes "distinct (map fst ob)" "map_of ob k = Some b" "k \<notin> M"
  shows "object_lines M ob = mset (lines_of [] b) + object_lines (insert k M) ob"
  using assms(1,2)
proof (induction ob)
  case (Cons p ob)
  show ?case
  proof (cases "fst p = k")
    case True
    have "object_lines (insert k M) ob = object_lines M ob"
      using True Cons.prems by (intro object_lines_mask_new) auto
    then show ?thesis using True Cons.prems assms(3) by (cases p) (auto simp: object_lines_def)
  next
    case False
    then show ?thesis using Cons by (cases p) (auto simp: object_lines_def)
  qed
qed simp

subsection \<open>Keys\<close>

lemma digits_val_snoc: "digits_val (s @ [c]) = 10 * digits_val s + (of_char c - 48)"
  by (simp add: digits_val_def)

lemma digits_val_less: "list_all is_digit s \<Longrightarrow> digits_val s < 10 ^ length s"
proof (induction s rule: rev_induct)
  case (snoc c s)
  then have "(of_char c :: nat) - 48 < 10" by (auto simp: is_digit_def)
  then show ?case using snoc by (simp add: digits_val_snoc)
qed (simp add: digits_val_def)

lemma length_fmt0: "n < 10 ^ w \<Longrightarrow> 0 < w \<Longrightarrow> length (fmt0 w n) = w"
  by (simp add: fmt0_decn)

lemma length_fmt0_digits:
  "list_all is_digit (take k ts) \<Longrightarrow> i + w \<le> k \<Longrightarrow> k \<le> length ts \<Longrightarrow> 0 < w \<Longrightarrow> length (fmt0 w (digits_val (take w (drop i ts)))) = w"
proof -
  assume a: "list_all is_digit (take k ts)" "i + w \<le> k" "k \<le> length ts" "0 < w"
  have "set (take w (drop i ts)) \<subseteq> set (take k ts)"
    using a(2) by (metis append_take_drop_id drop_take le_add_diff_inverse2 add.commute add_le_imp_le_diff min.absorb1 set_drop_subset set_take_subset subset_trans take_drop take_take)
  then have "list_all is_digit (take w (drop i ts))" using a(1) unfolding list_all_iff by blast
  then show ?thesis using digits_val_less [of "take w (drop i ts)"] a by (intro length_fmt0) auto
qed

lemma spoolKey_name:
  assumes "spoolKey n = Some k"
  shows "drop 23 k = n" "\<exists>p. n = p @ ''.jsonl''"
proof -
  obtain ts node where m: "spoolName n = Some (ts, node, False)"
    using assms by (auto simp: spoolKey_def split: option.splits prod.splits bool.splits)
  then have ts: "length ts = 26" "list_all is_digit (take 8 ts)"
    and t: "dropWhile is_hex (drop 27 n) = ''.jsonl''"
    by (auto simp: spoolName_def Let_def is_ts_def split: if_splits)
  then show "\<exists>p. n = p @ ''.jsonl''" by (metis append_take_drop_id append.assoc takeWhile_dropWhile_id)
  obtain y mo d where p: "parse_ts ts = Some (y, mo, d)" using assms m by (auto simp: spoolKey_def split: option.splits)
  then have f: "y = digits_val (take 4 (drop 0 ts))" "mo = digits_val (take 2 (drop 4 ts))" "d = digits_val (take 2 (drop 6 ts))"
    by (auto simp: parse_ts_def Let_def split: if_splits)
  have "length (fmt0 4 y) = 4" "length (fmt0 2 mo) = 2" "length (fmt0 2 d) = 2"
    unfolding f using ts length_fmt0_digits [of 8 ts 0 4] length_fmt0_digits [of 8 ts 4 2] length_fmt0_digits [of 8 ts 6 2]
    by simp_all
  then show "drop 23 k = n" using assms m p by (auto simp: spoolKey_def)
qed

lemma spoolKey_inj: "spoolKey n = Some k \<Longrightarrow> spoolKey n' = Some k \<Longrightarrow> n = n'"
  using spoolKey_name(1) by blast

lemma spoolKey_part [simp]: "spoolKey (b @ ''.jsonl.part'') = None"
proof (rule ccontr)
  assume "\<not> ?thesis"
  then obtain p where p: "b @ ''.jsonl.part'' = p @ ''.jsonl''" using spoolKey_name(2) by blast
  have "last (b @ ''.jsonl.part'') = last (p @ ''.jsonl'')" by (simp only: p)
  then show False by simp
qed

lemma strip_part_active [simp]: "strip_part (b @ ''.jsonl.part'') = b @ ''.jsonl''"
proof -
  have "b @ ''.jsonl.part'' = (b @ ''.jsonl'') @ ''.part''" by simp
  then show ?thesis by (simp only: strip_part_def TrimSuffix_append)
qed

lemma fmt0_inj: "fmt0 w a = fmt0 w b \<Longrightarrow> a = b"
proof -
  have z: "digits_val (replicate k CHR ''0'' @ s) = digits_val s" for k s
    by (induction k) (auto simp: digits_val_def)
  assume "fmt0 w a = fmt0 w b"
  then show ?thesis using z [of _ "utoa a"] z [of _ "utoa b"] unfolding fmt0_def by (metis digits_val_utoa)
qed

lemma tsNanos_inj:
  assumes "- zero_time \<le> t" "t < u"
  shows "tsNanos t \<noteq> tsNanos u"
proof
  assume eq: "tsNanos t = tsNanos u"
  obtain y m d where t: "date_of t = (y, m, d)" by (metis prod_cases3)
  obtain hh mm ss ns where tc: "clock_of t = (hh, mm, ss, ns)" by (metis prod_cases4)
  obtain y' m' d' where u: "date_of u = (y', m', d')" by (metis prod_cases3)
  obtain hh' mm' ss' ns' where uc: "clock_of u = (hh', mm', ss', ns')" by (metis prod_cases4)
  have b: "m \<le> 13" "d \<le> 31" "m' \<le> 13" "d' \<le> 31" using t u civil_date_bounds by (auto simp: date_of_def)
  have len: "length (fmt0 2 m) = 2" "length (fmt0 2 m') = 2" "length (fmt0 2 d) = 2" "length (fmt0 2 d') = 2"
    "length (fmt0 2 hh) = 2" "length (fmt0 2 mm) = 2" "length (fmt0 2 ss) = 2" "length (fmt0 9 ns) = 9"
    "length (fmt0 2 hh') = 2" "length (fmt0 2 mm') = 2" "length (fmt0 2 ss') = 2" "length (fmt0 9 ns') = 9"
    using b clock_of_bounds [OF tc] clock_of_bounds [OF uc] by (simp_all add: length_fmt0)
  have "fmt0 4 y = fmt0 4 y' \<and> fmt0 2 m @ fmt0 2 d @ ''T'' @ fmt0 2 hh @ fmt0 2 mm @ fmt0 2 ss @ ''.'' @ fmt0 9 ns @ ''Z''
      = fmt0 2 m' @ fmt0 2 d' @ ''T'' @ fmt0 2 hh' @ fmt0 2 mm' @ fmt0 2 ss' @ ''.'' @ fmt0 9 ns' @ ''Z''"
    using eq len unfolding tsNanos_def t tc u uc prod.case Let_def by (subst (asm) append_eq_append_conv) auto
  then have same: "(y, m, d) = (y', m', d')" "(hh, mm, ss, ns) = (hh', mm', ss', ns')"
    using len by (auto dest: fmt0_inj)
  have lt: "nat (t + zero_time) < nat (u + zero_time)" using assms by linarith
  show False
    using div_mod_mono [OF lt, of 86400000000000]
      civil_date_mono [of "nat (t + zero_time) div 86400000000000" "nat (u + zero_time) div 86400000000000" y m d y' m' d']
      clock_of_mono [OF _ tc uc] t u same unfolding date_of_def by auto
qed

subsection \<open>The invariant\<close>

definition key_new :: "string \<Rightarrow> 'e spool \<Rightarrow> bool" where
  "key_new n s \<longleftrightarrow> (\<forall>k. spoolKey n = Some k \<longrightarrow> k \<notin> fst ` set (sp_objects s))"

lemma key_new_upd [simp]:
  "key_new n (s\<lparr>sp_dir := d\<rparr>) = key_new n s" "key_new n (s\<lparr>sp_active := a\<rparr>) = key_new n s"
  "key_new n (s\<lparr>sp_lastStart := t\<rparr>) = key_new n s" "key_new n (s\<lparr>sp_dropped := x\<rparr>) = key_new n s"
  "key_new n (s\<lparr>sp_spooled := y\<rparr>) = key_new n s" "key_new n (s\<lparr>sp_events := evs\<rparr>) = key_new n s"
  "key_new n (s\<lparr>sp_kick := b\<rparr>) = key_new n s" "key_new n (s\<lparr>sp_closed := b\<rparr>) = key_new n s"
  "key_new n (s\<lparr>sp_abandon := b\<rparr>) = key_new n s"
  by (simp_all add: key_new_def)

text \<open>The active file: on disk with the tracked size, its ready name neither on disk nor uploaded.\<close>

definition active_ok :: "spool_cfg \<Rightarrow> (string \<Rightarrow> bool) \<Rightarrow> 'e spool \<Rightarrow> bool" where
  "active_ok cfg P s = (case sp_active s of None \<Rightarrow> True | Some w \<Rightarrow>
     \<exists>st c. st \<le> sp_lastStart s \<and> - zero_time \<le> st \<and> af_path w = base_name cfg st @ ''.jsonl.part''
       \<and> map_of (sp_dir s) (af_path w) = Some (Regular c) \<and> int (length c) = af_size w \<and> P c
       \<and> map_of (sp_dir s) (base_name cfg st @ ''.jsonl'') = None \<and> key_new (base_name cfg st @ ''.jsonl'') s)"

definition dirs_ok :: "spool_cfg \<Rightarrow> 'e spool \<Rightarrow> bool" where
  "dirs_ok cfg s \<longleftrightarrow> distinct (map fst (sp_dir s)) \<and> distinct (map fst (sp_objects s)) \<and> - zero_time \<le> sp_lastStart s
     \<and> (\<forall>st > sp_lastStart s. map_of (sp_dir s) (base_name cfg st @ ''.jsonl'') = None \<and> key_new (base_name cfg st @ ''.jsonl'') s)"

definition spool_inv :: "spool_cfg \<Rightarrow> 'e spool \<Rightarrow> bool" where
  "spool_inv cfg s \<longleftrightarrow> dirs_ok cfg s \<and> active_ok cfg complete s"

lemma spool_inv_upd [simp]:
  "spool_inv cfg (s\<lparr>sp_dropped := x\<rparr>) = spool_inv cfg s" "spool_inv cfg (s\<lparr>sp_events := evs\<rparr>) = spool_inv cfg s"
  "spool_inv cfg (s\<lparr>sp_closed := b\<rparr>) = spool_inv cfg s" "spool_inv cfg (s\<lparr>sp_abandon := b\<rparr>) = spool_inv cfg s"
  by (cases "sp_active s"; simp add: spool_inv_def dirs_ok_def active_ok_def)+

lemma spool_lines_upd [simp]:
  "spool_lines (s\<lparr>sp_dropped := x\<rparr>) = spool_lines s" "spool_lines (s\<lparr>sp_events := evs\<rparr>) = spool_lines s"
  "spool_lines (s\<lparr>sp_closed := b\<rparr>) = spool_lines s" "spool_lines (s\<lparr>sp_abandon := b\<rparr>) = spool_lines s"
  by (simp_all add: spool_lines_def)

lemma base_name_inj: "- zero_time \<le> t \<Longrightarrow> t < u \<Longrightarrow> base_name cfg t @ x \<noteq> base_name cfg u @ x"
  using tsNanos_inj by (auto simp: base_name_def)

lemma ready_not_part: "b @ ''.jsonl'' \<noteq> b' @ ''.jsonl.part''"
proof
  assume "b @ ''.jsonl'' = b' @ ''.jsonl.part''"
  then have "last (b @ ''.jsonl'') = last (b' @ ''.jsonl.part'')" by simp
  then show False by simp
qed

lemma distinct_delete: "distinct (map fst d) \<Longrightarrow> distinct (map fst (AList.delete n d))"
  by (simp add: AList.delete_eq distinct_map_filter)

lemma update_same: "map_of d n = Some e \<Longrightarrow> AList.update n e d = d"
  by (induction d) (auto split: if_splits)

lemma masked_iff: "k \<in> masked d \<longleftrightarrow> spoolKey (drop 23 k) = Some k \<and> (\<exists>c. map_of d (drop 23 k) = Some (Regular c))"
  unfolding masked_def using spoolKey_name(1) by blast

lemma masked_update_part: "spoolKey n = None \<Longrightarrow> masked (AList.update n e d) = masked d"
  by (rule set_eqI) (auto simp: masked_iff update_conv)

lemma masked_delete_part: "spoolKey n = None \<Longrightarrow> masked (AList.delete n d) = masked d"
  by (rule set_eqI) (auto simp: masked_iff AList.delete_conv)

lemma masked_update_key: "spoolKey n = Some k \<Longrightarrow> masked (AList.update n (Regular c) d) = insert k (masked d)"
  using spoolKey_name(1) [of n k] by (intro set_eqI) (auto simp: masked_iff update_conv)

lemma masked_delete_key: "spoolKey n = Some k \<Longrightarrow> masked (AList.delete n d) = masked d - {k}"
proof (rule set_eqI)
  fix x assume k: "spoolKey n = Some k"
  have "drop 23 x = n \<Longrightarrow> spoolKey (drop 23 x) = Some x \<Longrightarrow> x = k" using k by simp
  then show "x \<in> masked (AList.delete n d) \<longleftrightarrow> x \<in> masked d - {k}"
    using spoolKey_name(1) [OF k] by (cases "drop 23 x = n") (auto simp: masked_iff AList.delete_conv)
qed

text \<open>Rotation moves the file: the lines, the queue and the drop count stay.\<close>

definition same_lines :: "'e spool \<Rightarrow> 'e spool \<Rightarrow> bool" where
  "same_lines s s' \<longleftrightarrow> spool_lines s' = spool_lines s \<and> sp_events s' = sp_events s \<and> sp_dropped s' = sp_dropped s"

lemma rotate_ok:
  assumes "dirs_ok cfg s" "active_ok cfg (\<lambda>_. True) s"
  shows "spool_inv cfg (rotate_file io s) \<and> same_lines s (rotate_file io s) \<and> sp_active (rotate_file io s) = None
     \<and> sp_lastStart (rotate_file io s) = sp_lastStart s"
proof (cases "sp_active s")
  case None
  then show ?thesis using assms by (simp add: rotate_file_def spool_inv_def active_ok_def same_lines_def)
next
  case (Some w)
  obtain st c where st: "st \<le> sp_lastStart s" "- zero_time \<le> st" and w: "af_path w = base_name cfg st @ ''.jsonl.part''"
    and c: "map_of (sp_dir s) (af_path w) = Some (Regular c)" "int (length c) = af_size w"
    and new: "map_of (sp_dir s) (base_name cfg st @ ''.jsonl'') = None" "key_new (base_name cfg st @ ''.jsonl'') s"
    using assms(2) Some unfolding active_ok_def by auto
  have d: "distinct (map fst (sp_dir s))" using assms(1) by (simp add: dirs_ok_def)
  note fl = file_lines_delete [OF d c(1)]
  let ?d = "AList.delete (af_path w) (sp_dir s)"
  let ?r = "base_name cfg st @ ''.jsonl''"
  show ?thesis
  proof (cases "af_size w = 0")
    case True
    then have "entry_lines (Regular c) = {#}" using c(2) by (simp add: entry_lines_def)
    then have "spool_lines (rotate_file io s) = spool_lines s"
      using True Some fl by (simp add: rotate_file_def spool_lines_def masked_delete_part w)
    moreover have "dirs_ok cfg (rotate_file io s)"
      using assms(1) True Some by (auto simp: dirs_ok_def rotate_file_def distinct_delete AList.delete_conv)
    ultimately show ?thesis using True Some by (simp add: rotate_file_def spool_inv_def active_ok_def same_lines_def)
  next
    case False
    have m: "masked (AList.update ?r (Regular c) ?d) = (case spoolKey ?r of None \<Rightarrow> masked (sp_dir s) | Some k \<Rightarrow> insert k (masked (sp_dir s)))"
      using masked_update_part [of ?r] masked_update_key [of ?r] new(1)
      by (auto simp: masked_delete_part w AList.delete_conv split: option.split)
    have "object_lines (masked (AList.update ?r (Regular c) ?d)) (sp_objects s) = object_lines (masked (sp_dir s)) (sp_objects s)"
      unfolding m using new(2) by (auto simp: key_new_def object_lines_mask_new split: option.split)
    moreover have "file_lines (AList.update ?r (Regular c) ?d) = file_lines (sp_dir s)"
      using new(1) by (simp add: fl file_lines_new distinct_delete d AList.delete_conv)
    moreover have dir: "rename (af_path w) (strip_part (af_path w)) (sp_dir s) = AList.update ?r (Regular c) ?d"
      using c by (simp add: rename_def w)
    ultimately have "spool_lines (rotate_file io s) = spool_lines s"
      using False Some by (simp add: rotate_file_def spool_lines_def signalUpload_def)
    moreover have "base_name cfg u @ ''.jsonl'' \<noteq> ?r" if "sp_lastStart s < u" for u
      using base_name_inj [of st u cfg "''.jsonl''"] st that by auto
    then have "dirs_ok cfg (rotate_file io s)"
      using assms(1) False Some dir
      by (auto simp: dirs_ok_def rotate_file_def signalUpload_def distinct_delete distinct_update update_conv AList.delete_conv)
    ultimately show ?thesis using False Some by (simp add: rotate_file_def spool_inv_def active_ok_def same_lines_def signalUpload_def)
  qed
qed

lemma open_loop_ok:
  "open_loop cfg io k d start = Some st \<Longrightarrow> start \<le> st \<and> map_of d (base_name cfg st @ ''.jsonl'') = None
     \<and> map_of d (base_name cfg st @ ''.jsonl.part'') = None"
  by (induction cfg io k d start rule: open_loop.induct)
    (auto simp: spoolReadySuffix_def spoolActiveSuffix_def split: if_splits)

lemma open_file_ok:
  assumes "spool_inv cfg s" "open_file cfg io s = Some s'"
  shows "spool_inv cfg s' \<and> same_lines s s' \<and> sp_active s' \<noteq> None \<and> sp_spooled s' = sp_spooled s \<and> sp_lastStart s < sp_lastStart s'"
proof -
  obtain st where o: "open_loop cfg io spoolMaxNameTries (sp_dir s) (if wi_now io > sp_lastStart s then wi_now io else sp_lastStart s + 1) = Some st"
    and s': "s' = s\<lparr>sp_dir := AList.update (base_name cfg st @ ''.jsonl.part'') (Regular []) (sp_dir s),
       sp_active := Some \<lparr>af_path = base_name cfg st @ ''.jsonl.part'', af_size = 0, af_winStart = Truncate (wi_now io) spoolWindow\<rparr>,
       sp_lastStart := st\<rparr>"
    using assms(2) by (auto simp: open_file_def Let_def spoolActiveSuffix_def split: option.splits)
  have lt: "sp_lastStart s < st" using open_loop_ok [OF o] by (auto split: if_splits)
  note new = open_loop_ok [OF o, THEN conjunct2]
  have d: "distinct (map fst (sp_dir s))" "- zero_time \<le> sp_lastStart s" "key_new (base_name cfg st @ ''.jsonl'') s"
    using assms(1) lt by (auto simp: spool_inv_def dirs_ok_def)
  have "spool_lines s' = spool_lines s"
    using new by (simp add: s' spool_lines_def file_lines_new d masked_update_part entry_lines_def)
  moreover have "dirs_ok cfg s'"
    using assms(1) lt ready_not_part by (auto simp: s' spool_inv_def dirs_ok_def distinct_update update_conv)
  moreover have "active_ok cfg complete s'"
    unfolding active_ok_def s' using d lt new ready_not_part
    by (auto simp: complete_def update_conv intro!: exI [of _ st])
  ultimately show ?thesis using lt by (simp add: spool_inv_def same_lines_def s')
qed

text \<open>The change of the active file's content.\<close>

lemma content_update:
  assumes "dirs_ok cfg s" "active_ok cfg complete s" "sp_active s = Some w" "map_of (sp_dir s) (af_path w) = Some (Regular old)"
    and s': "s' = s\<lparr>sp_dir := AList.update (af_path w) (Regular (old @ x)) (sp_dir s), sp_active := Some (w\<lparr>af_size := af_size w + int (length x)\<rparr>),
        sp_dropped := n, sp_spooled := m\<rparr>"
  shows "dirs_ok cfg s'" "active_ok cfg (\<lambda>_. True) s'" "spool_lines s' = mset (lines_of [] x) + spool_lines s"
    "complete (old @ x) \<Longrightarrow> active_ok cfg complete s'"
proof -
  obtain st where st: "st \<le> sp_lastStart s" "- zero_time \<le> st" and w: "af_path w = base_name cfg st @ ''.jsonl.part''"
    and c: "int (length old) = af_size w" "complete old"
    and new: "map_of (sp_dir s) (base_name cfg st @ ''.jsonl'') = None" "key_new (base_name cfg st @ ''.jsonl'') s"
    using assms(2-4) unfolding active_ok_def by auto
  have d: "distinct (map fst (sp_dir s))" using assms(1) by (simp add: dirs_ok_def)
  show "dirs_ok cfg s'" using assms(1) ready_not_part by (auto simp: s' dirs_ok_def distinct_update update_conv w)
  have a: "active_ok cfg P s'" if "P (old @ x)" for P
    unfolding active_ok_def s' using st w c new ready_not_part that by (auto simp: update_conv intro!: exI [of _ st])
  show "active_ok cfg (\<lambda>_. True) s'" "complete (old @ x) \<Longrightarrow> active_ok cfg complete s'" using a by simp_all
  have "lines_of [] (old @ x) = lines_of [] old @ lines_of [] x" using c(2) by (simp add: lines_of_append)
  then show "spool_lines s' = mset (lines_of [] x) + spool_lines s"
    using file_lines_delete [OF d assms(4)]
    by (simp add: s' spool_lines_def file_lines_update d masked_update_part w entry_lines_def)
qed

text \<open>One event leaves the writer: written as one more line, or counted as dropped.\<close>

definition handled :: "string \<Rightarrow> 'e spool \<Rightarrow> 'e spool \<Rightarrow> bool" where
  "handled body s s' \<longleftrightarrow> sp_events s' = sp_events s \<and>
     (sp_dropped s' = sp_dropped s + 1 \<and> spool_lines s' = spool_lines s
      \<or> sp_dropped s' = sp_dropped s \<and> spool_lines s' = add_mset body (spool_lines s))"

lemma handled_same: "same_lines s s1 \<Longrightarrow> handled body s1 s2 \<Longrightarrow> handled body s s2"
  "handled body s s1 \<Longrightarrow> same_lines s1 s2 \<Longrightarrow> handled body s s2"
  by (auto simp: handled_def same_lines_def)

lemma write_line_ok:
  assumes "spool_inv cfg s" "sp_active s \<noteq> None" "newline \<notin> set body"
  shows "spool_inv cfg (write_line cfg io (body @ [newline]) s) \<and> handled body s (write_line cfg io (body @ [newline]) s)"
proof -
  obtain w where w: "sp_active s = Some w" using assms(2) by auto
  obtain old where old: "map_of (sp_dir s) (af_path w) = Some (Regular old)" and sz: "int (length old) = af_size w" and co: "complete old"
    using assms(1) w unfolding spool_inv_def active_ok_def by auto
  then have f: "file_at (sp_dir s) (af_path w) = Some old" by (simp add: file_at_def)
  have inv: "dirs_ok cfg s" "active_ok cfg complete s" using assms(1) by (simp_all add: spool_inv_def)
  show ?thesis
  proof (cases "wi_write io")
    case None
    let ?x = "body @ [newline]"
    define s1 where "s1 = s\<lparr>sp_dir := AList.update (af_path w) (Regular (old @ ?x)) (sp_dir s), sp_active := Some (w\<lparr>af_size := af_size w + int (length ?x)\<rparr>),
      sp_dropped := sp_dropped s, sp_spooled := sp_spooled s + int (length ?x)\<rparr>"
    have s1: "dirs_ok cfg s1" "active_ok cfg (\<lambda>_. True) s1" "spool_lines s1 = add_mset body (spool_lines s)" "active_ok cfg complete s1"
      using content_update [OF inv w old s1_def] by (simp_all add: lines_of_line assms(3) complete_def)
    have "write_line cfg io ?x s = (if af_size w + int (length ?x) \<ge> sc_maxFile cfg then rotate_file io s1 else s1)"
      using w None f by (simp add: write_line_def Let_def s1_def algebra_simps)
    moreover have "handled body s s1" using s1(3) by (simp add: handled_def s1_def)
    ultimately show ?thesis using s1 rotate_ok [OF s1(1,2), of io] handled_same(2)
      by (auto simp: spool_inv_def)
  next
    case (Some k)
    let ?x = "take k body"
    have nl: "newline \<notin> set ?x" using assms(3) by (meson in_set_takeD)
    show ?thesis
    proof (cases "wi_truncate io")
      case False
      have "take (nat (af_size w)) (old @ ?x) = old" using sz by (metis append_eq_conv_conj nat_int)
      moreover have "AList.update (af_path w) (Regular old) (sp_dir s) = sp_dir s"
        using old inv(1) by (simp add: update_same)
      ultimately have "write_line cfg io (body @ [newline]) s = onDrop s"
        using w Some f False by (simp add: write_line_def Let_def onDrop_def)
      moreover have "spool_inv cfg (onDrop s)" using assms(1) by (simp add: onDrop_def)
      ultimately show ?thesis by (simp add: handled_def onDrop_def spool_lines_def)
    next
      case True
      define s1 where "s1 = s\<lparr>sp_dir := AList.update (af_path w) (Regular (old @ ?x)) (sp_dir s), sp_active := Some (w\<lparr>af_size := af_size w + int (length ?x)\<rparr>),
        sp_dropped := sp_dropped s + 1, sp_spooled := sp_spooled s + int (length ?x)\<rparr>"
      have s1: "dirs_ok cfg s1" "active_ok cfg (\<lambda>_. True) s1" "spool_lines s1 = spool_lines s"
        using content_update(1-3) [OF inv w old s1_def] by (simp_all add: lines_of_none nl)
      have "write_line cfg io (body @ [newline]) s = rotate_file io s1"
        using w Some f True by (cases s) (simp add: write_line_def Let_def s1_def onDrop_def)
      moreover have "handled body s s1" using s1(3) by (simp add: handled_def s1_def)
      ultimately show ?thesis using rotate_ok [OF s1(1,2), of io] handled_same(2) by auto
    qed
  qed
qed

lemma active_ok_weaken: "active_ok cfg P s \<Longrightarrow> active_ok cfg (\<lambda>_. True) s"
  unfolding active_ok_def by (cases "sp_active s") auto

lemma rotate_inv: "spool_inv cfg s \<Longrightarrow> spool_inv cfg (rotate_file io s) \<and> same_lines s (rotate_file io s)"
  using rotate_ok active_ok_weaken unfolding spool_inv_def by blast

lemma writer_tick_ok: "spool_inv cfg s \<Longrightarrow> spool_inv cfg (writer_tick io s) \<and> same_lines s (writer_tick io s)"
  using rotate_inv [of cfg s io] by (auto simp: writer_tick_def same_lines_def split: option.splits)

lemma append_event_ok:
  assumes "spool_inv cfg s" "\<And>body. marshal ev = Some body \<Longrightarrow> newline \<notin> set body"
  shows "spool_inv cfg (append_event marshal cfg io ev s) \<and>
    (case marshal ev of None \<Rightarrow> append_event marshal cfg io ev s = onDrop s
     | Some body \<Rightarrow> handled body s (append_event marshal cfg io ev s))"
proof (cases "marshal ev")
  case None
  then show ?thesis using assms(1) by (simp add: append_event_def onDrop_def)
next
  case (Some body)
  define s1 where "s1 = writer_tick io s"
  have s1: "spool_inv cfg s1" "same_lines s s1" using writer_tick_ok [OF assms(1)] by (simp_all add: s1_def)
  have drop: "spool_inv cfg (onDrop s1) \<and> handled body s (onDrop s1)"
    using s1 by (auto simp: onDrop_def handled_def same_lines_def)
  have eq: "append_event marshal cfg io ev s =
     (if sp_spooled s1 + int (length (body @ [newline])) > sc_maxBytes cfg then onDrop s1
      else case (if sp_active s1 = None then open_file cfg io s1 else Some s1) of
        None \<Rightarrow> onDrop s1 | Some s2 \<Rightarrow> write_line cfg io (body @ [newline]) s2)"
    using Some unfolding append_event_def s1_def writer_tick_def by (simp add: Let_def)
  show ?thesis
  proof (cases "sp_spooled s1 + int (length (body @ [newline])) > sc_maxBytes cfg \<or> sp_active s1 = None \<and> open_file cfg io s1 = None")
    case True
    then have "append_event marshal cfg io ev s = onDrop s1" unfolding eq by auto
    then show ?thesis using drop Some by simp
  next
    case False
    then obtain s2 where s2: "append_event marshal cfg io ev s = write_line cfg io (body @ [newline]) s2"
      "spool_inv cfg s2" "same_lines s1 s2" "sp_active s2 \<noteq> None"
      unfolding eq using s1 open_file_ok [OF s1(1), of io] by (cases "sp_active s1") (auto simp: same_lines_def)
    have "same_lines s s2" using s1(2) s2(3) by (simp add: same_lines_def)
    from handled_same(1) [OF this] show ?thesis using write_line_ok [OF s2(2,4) assms(2) [OF Some], of io] s2(1) Some by simp
  qed
qed

lemma uploadFile_ok:
  assumes "spool_inv cfg s"
  shows "spool_inv cfg (snd (uploadFile io name s)) \<and> same_lines s (snd (uploadFile io name s))"
proof (cases "\<exists>k c. spoolKey name = Some k \<and> map_of (sp_dir s) name = Some (Regular c) \<and> \<not> (ui_open io \<or> ui_stat io \<or> ui_put io \<and> \<not> ui_stored io)")
  case False
  then have "snd (uploadFile io name s) = s"
    by (auto simp: uploadFile_def file_at_def split: option.splits entry.splits)
  then show ?thesis using assms by (simp add: same_lines_def)
next
  case True
  then obtain k c where k: "spoolKey name = Some k" and c: "map_of (sp_dir s) name = Some (Regular c)"
    and io: "\<not> ui_open io" "\<not> ui_stat io" "ui_put io \<longrightarrow> ui_stored io" by auto
  define s1 where "s1 = s\<lparr>sp_objects := AList.update k c (sp_objects s)\<rparr>"
  have d: "distinct (map fst (sp_dir s))" "distinct (map fst (sp_objects s))" using assms by (simp_all add: spool_inv_def dirs_ok_def)
  have key: "key_new n s1" if "key_new n s" "map_of (sp_dir s) n = None" for n
  proof -
    have "n \<noteq> name" using that(2) c by auto
    then have "spoolKey n \<noteq> Some k" using spoolKey_inj k by blast
    then show ?thesis using that(1) by (auto simp: key_new_def s1_def dom_update)
  qed
  have inv1: "spool_inv cfg s1"
  proof -
    have "dirs_ok cfg s1" using assms key by (auto simp: spool_inv_def dirs_ok_def s1_def distinct_update)
    moreover have "active_ok cfg complete s1"
      using assms key unfolding spool_inv_def active_ok_def by (cases "sp_active s") (auto simp: s1_def)
    ultimately show ?thesis by (simp add: spool_inv_def)
  qed
  have km: "k \<in> masked (sp_dir s)" using k c spoolKey_name(1) [OF k] by (auto simp: masked_iff)
  then have same1: "same_lines s s1" by (simp add: same_lines_def s1_def spool_lines_def object_lines_update_masked)
  show ?thesis
  proof (cases "ui_put io \<or> ui_remove io")
    case True
    then have "snd (uploadFile io name s) = s1" using k c io by (auto simp: uploadFile_def file_at_def s1_def Let_def)
    then show ?thesis using inv1 same1 by simp
  next
    case False
    define s2 where "s2 = s1\<lparr>sp_dir := AList.delete name (sp_dir s), sp_spooled := sp_spooled s - int (length c)\<rparr>"
    have e: "snd (uploadFile io name s) = s2" using False k c io by (simp add: uploadFile_def file_at_def s1_def s2_def)
    have np: "name \<noteq> b @ ''.jsonl.part''" for b using k by auto
    have "dirs_ok cfg s2" using inv1 by (auto simp: spool_inv_def dirs_ok_def s2_def s1_def distinct_delete AList.delete_conv key_new_def)
    moreover have "active_ok cfg complete s2"
      using inv1 np unfolding spool_inv_def active_ok_def
      by (cases "sp_active s") (auto simp: s2_def s1_def AList.delete_conv key_new_def)
    moreover have m: "masked (sp_dir s) = insert k (masked (AList.delete name (sp_dir s)))" "k \<notin> masked (AList.delete name (sp_dir s))"
      using km by (auto simp: masked_delete_key [OF k])
    have "object_lines (masked (AList.delete name (sp_dir s))) (AList.update k c (sp_objects s))
        = mset (lines_of [] c) + object_lines (masked (sp_dir s)) (AList.update k c (sp_objects s))"
      unfolding m(1) by (rule object_lines_unmask [OF _ _ m(2)]) (simp_all add: distinct_update d update_conv)
    then have "spool_lines s2 = spool_lines s1"
      using file_lines_delete [OF d(1) c] by (simp add: s2_def s1_def spool_lines_def entry_lines_def ac_simps)
    ultimately show ?thesis using same1 by (simp add: e spool_inv_def same_lines_def s2_def)
  qed
qed

subsection \<open>Every event is accounted for\<close>

definition accounts :: "('e \<Rightarrow> string option) \<Rightarrow> 'e list \<Rightarrow> 'e spool \<Rightarrow> 'e spool \<Rightarrow> bool" where
  "accounts marshal new s s' \<longleftrightarrow> (\<exists>D W. sp_dropped s' = sp_dropped s + size D
     \<and> mset (sp_events s) + mset new = D + W + mset (sp_events s')
     \<and> (\<forall>ev \<in># W. marshal ev \<noteq> None) \<and> spool_lines s' = spool_lines s + image_mset (the \<circ> marshal) W)"

lemma accounts_same: "same_lines s s' \<Longrightarrow> accounts marshal [] s s'"
  unfolding accounts_def same_lines_def by (intro exI [of _ "{#}"]) simp

lemma accounts_trans:
  assumes "accounts marshal xs s s1" "accounts marshal ys s1 s2"
  shows "accounts marshal (xs @ ys) s s2"
proof -
  obtain D W where 1: "sp_dropped s1 = sp_dropped s + size D" "mset (sp_events s) + mset xs = D + W + mset (sp_events s1)"
    "\<forall>ev \<in># W. marshal ev \<noteq> None" "spool_lines s1 = spool_lines s + image_mset (the \<circ> marshal) W"
    using assms(1) by (auto simp: accounts_def)
  obtain D' W' where 2: "sp_dropped s2 = sp_dropped s1 + size D'" "mset (sp_events s1) + mset ys = D' + W' + mset (sp_events s2)"
    "\<forall>ev \<in># W'. marshal ev \<noteq> None" "spool_lines s2 = spool_lines s1 + image_mset (the \<circ> marshal) W'"
    using assms(2) by (auto simp: accounts_def)
  have "mset (sp_events s) + mset (xs @ ys) = D + W + (mset (sp_events s1) + mset ys)" using 1(2) by (simp add: ac_simps)
  then have "mset (sp_events s) + mset (xs @ ys) = D + W + (D' + W' + mset (sp_events s2))" by (simp only: 2(2))
  then have "mset (sp_events s) + mset (xs @ ys) = (D + D') + (W + W') + mset (sp_events s2)" by (simp only: ac_simps)
  then show ?thesis unfolding accounts_def using 1 2 by (intro exI [of _ "D + D'"] exI [of _ "W + W'"]) auto
qed

lemma accounts_put: "accounts marshal [ev] s (PutConnLog ev s)"
proof (cases "sp_closed s \<or> \<not> length (sp_events s) < spoolQueue")
  case True
  then show ?thesis unfolding accounts_def by (intro exI [of _ "{#ev#}"] exI [of _ "{#}"]) (auto simp: PutConnLog_def onDrop_def)
next
  case False
  then show ?thesis unfolding accounts_def by (intro exI [of _ "{#}"]) (auto simp: PutConnLog_def)
qed

text \<open>What the spool relies on of \<^verbatim>\<open>json.Marshal\<close>: its output contains no newline.\<close>

definition one_line :: "('e \<Rightarrow> string option) \<Rightarrow> bool" where
  "one_line marshal \<longleftrightarrow> (\<forall>ev body. marshal ev = Some body \<longrightarrow> newline \<notin> set body)"

lemma accounts_recv:
  assumes "spool_inv cfg s" "one_line marshal"
  shows "spool_inv cfg (writer_recv marshal cfg io s) \<and> accounts marshal [] s (writer_recv marshal cfg io s)"
proof (cases "sp_events s")
  case Nil
  then show ?thesis using rotate_inv [OF assms(1), of io] assms(1) accounts_same
    by (auto simp: writer_recv_def same_lines_def accounts_def intro: exI [of _ "{#}"])
next
  case (Cons ev evs)
  let ?s = "s\<lparr>sp_events := evs\<rparr>"
  have inv: "spool_inv cfg ?s" using assms(1) by simp
  have drop: "accounts marshal [] s s'" if "sp_dropped s' = sp_dropped s + 1" "spool_lines s' = spool_lines s" "sp_events s' = evs" for s'
    unfolding accounts_def using that Cons by (intro exI [of _ "{#ev#}"] exI [of _ "{#}"]) simp
  show ?thesis
  proof (cases "sp_abandon s")
    case True
    then show ?thesis using inv drop [of "onDrop ?s"] by (simp add: writer_recv_def Cons onDrop_def)
  next
    case False
    define s' where "s' = append_event marshal cfg io ev ?s"
    have s': "spool_inv cfg s'" "case marshal ev of None \<Rightarrow> s' = onDrop ?s | Some body \<Rightarrow> handled body ?s s'"
      unfolding s'_def using append_event_ok [OF inv, of marshal ev io] assms(2) by (auto simp: one_line_def)
    have "accounts marshal [] s s'"
    proof (cases "marshal ev")
      case None
      then show ?thesis using s'(2) drop by (simp add: onDrop_def)
    next
      case (Some body)
      then consider "sp_dropped s' = sp_dropped s + 1" "spool_lines s' = spool_lines s" "sp_events s' = evs"
        | "sp_dropped s' = sp_dropped s" "spool_lines s' = add_mset body (spool_lines s)" "sp_events s' = evs"
        using s'(2) by (auto simp: handled_def)
      then show ?thesis
      proof cases
        case 2
        then show ?thesis unfolding accounts_def using Some Cons by (intro exI [of _ "{#}"] exI [of _ "{#ev#}"]) simp
      qed (rule drop)
    qed
    then show ?thesis using s'(1) False by (simp add: writer_recv_def Cons s'_def)
  qed
qed

lemma exec_accounts:
  assumes "spool_inv cfg s" "one_line marshal"
  shows "spool_inv cfg (spool_exec marshal cfg op s) \<and> accounts marshal (offered [op]) s (spool_exec marshal cfg op s)"
proof (cases op)
  case (Put ev)
  moreover have "spool_inv cfg (PutConnLog ev s)" using assms(1) by (simp add: PutConnLog_def onDrop_def)
  ultimately show ?thesis by (simp add: accounts_put)
next
  case (Recv io)
  then show ?thesis using accounts_recv [OF assms] by simp
next
  case (Tick io)
  then show ?thesis using writer_tick_ok [OF assms(1), of io] by (simp add: accounts_same)
next
  case (Upload io name)
  then show ?thesis using uploadFile_ok [OF assms(1), of io name] by (simp add: accounts_same)
qed (use assms(1) in \<open>simp_all add: drain_close_def drain_abandon_def accounts_same same_lines_def\<close>)

lemma offered_append: "offered (xs @ ys) = offered xs @ offered ys"
  by (induction xs rule: offered.induct) auto

lemma run_accounts:
  assumes "spool_inv cfg s" "one_line marshal"
  shows "spool_inv cfg (spool_run marshal cfg ops s) \<and> accounts marshal (offered ops) s (spool_run marshal cfg ops s)"
proof (induction ops rule: rev_induct)
  case Nil
  show ?case using assms(1) by (simp add: spool_run_def accounts_same same_lines_def)
next
  case (snoc op ops)
  then show ?case using exec_accounts [OF _ assms(2)] accounts_trans by (fastforce simp: spool_run_def offered_append)
qed

text \<open>
  C22. No connection-log event disappears uncounted. Over any interleaving of callers, writer, uploader and shutdown, with any pattern of
  failing file operations and uploads, the events taken in are exactly those still queued, those counted by the
  drop counter, and those whose JSON line is one complete line of a file in the spool directory or of an
  uploaded object; and rotation, uploading and failing writes neither lose, duplicate nor split a line written
  earlier. The start state holds no file of this node id (a fresh process identity), and a marshalled event contains no newline.
\<close>

theorem spool_accounts_every_event:
  assumes "spool_inv cfg s" "one_line marshal"
    and "s' = spool_run marshal cfg ops s"
  shows "\<exists>D W. sp_dropped s' = sp_dropped s + size D
     \<and> mset (sp_events s) + mset (offered ops) = D + W + mset (sp_events s')
     \<and> (\<forall>ev \<in># W. marshal ev \<noteq> None) \<and> spool_lines s' = spool_lines s + image_mset (the \<circ> marshal) W"
  using run_accounts [OF assms(1,2), of ops] unfolding accounts_def assms(3) by simp

subsection \<open>The directory stays within its cap\<close>

definition ready_size :: "string \<times> entry \<Rightarrow> int" where
  "ready_size e = (if is_ready e then case snd e of Regular c \<Rightarrow> int (length c) | Irregular \<Rightarrow> 0 else 0)"

definition disk_bytes :: "'e spool \<Rightarrow> int" where
  "disk_bytes s = sum_list (map ready_size (sp_dir s)) + (case sp_active s of None \<Rightarrow> 0 | Some w \<Rightarrow> af_size w)"

definition capped :: "int \<Rightarrow> 'e spool \<Rightarrow> bool" where
  "capped M s \<longleftrightarrow> disk_bytes s \<le> sp_spooled s \<and> sp_spooled s \<le> M"

lemma ready_size_part [simp]: "ready_size (b @ ''.jsonl.part'', e) = 0"
proof -
  have "\<not> is_ready (b @ ''.jsonl.part'', e)"
  proof
    assume "is_ready (b @ ''.jsonl.part'', e)"
    then obtain ts node where "spoolName (b @ ''.jsonl.part'') = Some (ts, node, False)"
      by (auto simp: is_ready_def split: option.splits prod.splits entry.splits bool.splits)
    then have "dropWhile is_hex (drop 27 (b @ ''.jsonl.part'')) = ''.jsonl''"
      by (auto simp: spoolName_def Let_def split: if_splits)
    then obtain p where "b @ ''.jsonl.part'' = p @ ''.jsonl''"
      by (metis append_take_drop_id append.assoc takeWhile_dropWhile_id)
    then show False using ready_not_part by metis
  qed
  then show ?thesis by (simp add: ready_size_def)
qed

lemma ready_size_le: "ready_size (n, Regular c) \<le> int (length c)" "0 \<le> ready_size e"
  by (auto simp: ready_size_def split: entry.split)

lemma rotate_capped:
  assumes "dirs_ok cfg s" "active_ok cfg (\<lambda>_. True) s" "capped M s"
  shows "capped M (rotate_file io s)"
proof (cases "sp_active s")
  case None
  then show ?thesis using assms(3) by (simp add: rotate_file_def)
next
  case (Some w)
  obtain st c where w: "af_path w = base_name cfg st @ ''.jsonl.part''"
    and c: "map_of (sp_dir s) (af_path w) = Some (Regular c)" "int (length c) = af_size w"
    and new: "map_of (sp_dir s) (base_name cfg st @ ''.jsonl'') = None"
    using assms(2) Some unfolding active_ok_def by auto
  have d: "distinct (map fst (sp_dir s))" using assms(1) by (simp add: dirs_ok_def)
  let ?d = "AList.delete (af_path w) (sp_dir s)"
  let ?r = "base_name cfg st @ ''.jsonl''"
  have del: "sum_list (map ready_size ?d) = sum_list (map ready_size (sp_dir s))"
    using sum_delete [OF d c(1), of ready_size] by (simp add: w)
  have "AList.delete ?r ?d = ?d" using new by (intro AList.delete_id) (auto simp: AList.delete_eq map_of_eq_None_iff)
  then have ren: "sum_list (map ready_size (rename (af_path w) (strip_part (af_path w)) (sp_dir s)))
      \<le> sum_list (map ready_size (sp_dir s)) + af_size w"
    using sum_update [of ?d ready_size ?r "Regular c"] ready_size_le(1) [of ?r c] c
    by (simp add: rename_def w distinct_delete d del [unfolded w])
  show ?thesis
  proof (cases "af_size w = 0")
    case True
    then show ?thesis using Some assms(3) del by (auto simp: rotate_file_def capped_def disk_bytes_def)
  next
    case False
    then show ?thesis using Some assms(3) ren c(2) by (auto simp: rotate_file_def capped_def disk_bytes_def signalUpload_def)
  qed
qed

lemma inv_weak: "spool_inv cfg s \<Longrightarrow> dirs_ok cfg s \<and> active_ok cfg (\<lambda>_. True) s"
  using active_ok_weaken by (auto simp: spool_inv_def)

lemma writer_tick_capped: "spool_inv cfg s \<Longrightarrow> capped M s \<Longrightarrow> capped M (writer_tick io s)"
  using rotate_capped [of cfg s M io] inv_weak [of cfg s] by (auto simp: writer_tick_def split: option.split)

lemma capped_upd [simp]:
  "capped M (s\<lparr>sp_dropped := x\<rparr>) = capped M s" "capped M (s\<lparr>sp_events := evs\<rparr>) = capped M s"
  "capped M (s\<lparr>sp_closed := b\<rparr>) = capped M s" "capped M (s\<lparr>sp_abandon := b\<rparr>) = capped M s"
  by (simp_all add: capped_def disk_bytes_def)

lemma content_capped:
  assumes "dirs_ok cfg s" "active_ok cfg complete s" "sp_active s = Some w" "capped M s" "sp_spooled s + int (length x) \<le> M"
    and s': "s' = s\<lparr>sp_dir := AList.update (af_path w) (Regular (old @ x)) (sp_dir s), sp_active := Some (w\<lparr>af_size := af_size w + int (length x)\<rparr>),
        sp_dropped := n, sp_spooled := sp_spooled s + int (length x)\<rparr>"
  shows "capped M s'"
proof -
  obtain st c where w: "af_path w = base_name cfg st @ ''.jsonl.part''" and c: "map_of (sp_dir s) (af_path w) = Some (Regular c)"
    using assms(2,3) unfolding active_ok_def by auto
  have d: "distinct (map fst (sp_dir s))" using assms(1) by (simp add: dirs_ok_def)
  have "sum_list (map ready_size (sp_dir s')) = sum_list (map ready_size (sp_dir s))"
    using sum_delete [OF d c, of ready_size] by (simp add: s' sum_update d w)
  then show ?thesis using assms(3-5) by (simp add: capped_def disk_bytes_def s')
qed

lemma write_line_capped:
  assumes "spool_inv cfg s" "sp_active s \<noteq> None" "capped M s" "sp_spooled s + int (length (body @ [newline])) \<le> M"
  shows "capped M (write_line cfg io (body @ [newline]) s)"
proof -
  obtain w where w: "sp_active s = Some w" using assms(2) by auto
  obtain old where old: "map_of (sp_dir s) (af_path w) = Some (Regular old)" and sz: "int (length old) = af_size w"
    using assms(1) w unfolding spool_inv_def active_ok_def by auto
  then have f: "file_at (sp_dir s) (af_path w) = Some old" by (simp add: file_at_def)
  have inv: "dirs_ok cfg s" "active_ok cfg complete s" using assms(1) by (simp_all add: spool_inv_def)
  define upd where "upd x n = s\<lparr>sp_dir := AList.update (af_path w) (Regular (old @ x)) (sp_dir s), sp_active := Some (w\<lparr>af_size := af_size w + int (length x)\<rparr>),
      sp_dropped := n, sp_spooled := sp_spooled s + int (length x)\<rparr>" for x n
  have cap: "capped M (upd x n)" "capped M (rotate_file io (upd x n))" if "sp_spooled s + int (length x) \<le> M" for x n
    using content_capped [OF inv w assms(3) that upd_def]
      rotate_capped [OF content_update(1,2) [OF inv w old upd_def]] by blast+
  show ?thesis
  proof (cases "wi_write io")
    case None
    then have "write_line cfg io (body @ [newline]) s \<in> {upd (body @ [newline]) (sp_dropped s), rotate_file io (upd (body @ [newline]) (sp_dropped s))}"
      using w f by (cases s) (simp add: write_line_def Let_def upd_def algebra_simps)
    then show ?thesis using cap [OF assms(4)] by auto
  next
    case (Some k)
    have "take (nat (af_size w)) (old @ take k body) = old" using sz by (metis append_eq_conv_conj nat_int)
    then have "write_line cfg io (body @ [newline]) s \<in> {onDrop s, rotate_file io (upd (take k body) (sp_dropped s + 1))}"
      using w f Some update_same [OF old] by (cases s) (auto simp: write_line_def Let_def upd_def onDrop_def)
    moreover have "sp_spooled s + int (length (take k body)) \<le> M" using assms(4) by simp
    ultimately show ?thesis using cap(2) assms(3) by (auto simp: onDrop_def)
  qed
qed

lemma open_file_capped: "spool_inv cfg s \<Longrightarrow> open_file cfg io s = Some s' \<Longrightarrow> sp_active s = None \<Longrightarrow> capped M s \<Longrightarrow> capped M s'"
proof -
  assume a: "spool_inv cfg s" "open_file cfg io s = Some s'" "sp_active s = None" "capped M s"
  obtain st where o: "open_loop cfg io spoolMaxNameTries (sp_dir s) (if wi_now io > sp_lastStart s then wi_now io else sp_lastStart s + 1) = Some st"
    and s': "sp_dir s' = AList.update (base_name cfg st @ ''.jsonl.part'') (Regular []) (sp_dir s)" "sp_spooled s' = sp_spooled s"
      "map_option af_size (sp_active s') = Some 0"
    using a(2) by (auto simp: open_file_def Let_def spoolActiveSuffix_def split: option.splits)
  have d: "distinct (map fst (sp_dir s))" using a(1) by (simp add: spool_inv_def dirs_ok_def)
  have "AList.delete (base_name cfg st @ ''.jsonl.part'') (sp_dir s) = sp_dir s"
    using open_loop_ok [OF o] by (intro AList.delete_id) (auto simp: map_of_eq_None_iff)
  then show ?thesis using a(3,4) s' by (auto simp: capped_def disk_bytes_def sum_update d)
qed

lemma append_event_capped:
  assumes "spool_inv cfg s" "capped M s" "sc_maxBytes cfg \<le> M"
  shows "capped M (append_event marshal cfg io ev s)"
proof (cases "marshal ev")
  case None
  then show ?thesis using assms by (simp add: append_event_def onDrop_def)
next
  case (Some body)
  define s1 where "s1 = writer_tick io s"
  have s1: "spool_inv cfg s1" "capped M s1"
    using writer_tick_ok [OF assms(1)] writer_tick_capped [OF assms(1,2)] by (simp_all add: s1_def)
  have eq: "append_event marshal cfg io ev s =
     (if sp_spooled s1 + int (length (body @ [newline])) > sc_maxBytes cfg then onDrop s1
      else case (if sp_active s1 = None then open_file cfg io s1 else Some s1) of
        None \<Rightarrow> onDrop s1 | Some s2 \<Rightarrow> write_line cfg io (body @ [newline]) s2)"
    using Some unfolding append_event_def s1_def writer_tick_def by (simp add: Let_def)
  show ?thesis
  proof (cases "sp_spooled s1 + int (length (body @ [newline])) > sc_maxBytes cfg \<or> sp_active s1 = None \<and> open_file cfg io s1 = None")
    case True
    then have "append_event marshal cfg io ev s = onDrop s1" unfolding eq by auto
    then show ?thesis using s1(2) by (simp add: onDrop_def)
  next
    case False
    then obtain s2 where s2: "append_event marshal cfg io ev s = write_line cfg io (body @ [newline]) s2"
      "spool_inv cfg s2" "sp_active s2 \<noteq> None" "capped M s2" "sp_spooled s2 = sp_spooled s1"
      unfolding eq using s1 open_file_ok [OF s1(1), of io] open_file_capped [OF s1(1), of io] by (cases "sp_active s1") auto
    then show ?thesis using write_line_capped [OF s2(2-4), of body io] False assms(3) by simp
  qed
qed

lemma uploadFile_capped:
  assumes "spool_inv cfg s" "capped M s"
  shows "capped M (snd (uploadFile io name s))"
proof -
  have d: "distinct (map fst (sp_dir s))" using assms(1) by (simp add: spool_inv_def dirs_ok_def)
  have "ready_size (name, Regular c) = int (length c)" if "spoolKey name = Some k" for c k
    using that by (auto simp: ready_size_def is_ready_def spoolKey_def split: option.splits prod.splits bool.splits)
  then show ?thesis using assms(2) sum_delete [OF d, of name _ ready_size]
    by (auto simp: uploadFile_def file_at_def capped_def disk_bytes_def Let_def split: option.splits entry.splits)
qed

lemma exec_capped:
  assumes "spool_inv cfg s" "capped M s" "sc_maxBytes cfg \<le> M"
  shows "capped M (spool_exec marshal cfg op s)"
proof (cases op)
  case (Recv io)
  moreover have "capped M (rotate_file io s)" using rotate_capped inv_weak assms(1,2) by blast
  moreover have "capped M (append_event marshal cfg io ev (s\<lparr>sp_events := evs\<rparr>))" for ev evs
    by (rule append_event_capped [OF _ _ assms(3)]) (simp_all add: assms(1,2))
  ultimately show ?thesis using assms(2) by (auto simp: writer_recv_def onDrop_def split: list.split)
qed (use assms writer_tick_capped uploadFile_capped in
    \<open>auto simp: PutConnLog_def onDrop_def drain_close_def drain_abandon_def\<close>)

lemma run_capped:
  assumes "spool_inv cfg s" "one_line marshal" "capped M s" "sc_maxBytes cfg \<le> M"
  shows "capped M (spool_run marshal cfg ops s)"
proof (induction ops rule: rev_induct)
  case Nil
  show ?case using assms(3) by (simp add: spool_run_def)
next
  case (snoc op ops)
  have "spool_inv cfg (spool_run marshal cfg ops s)"
    using run_accounts [OF assms(1,2), of ops] by simp
  from exec_capped [OF this snoc assms(4)] show ?case by (simp add: spool_run_def)
qed

subsection \<open>Names follow time\<close>

lemma lastStart_keeps [simp]:
  "sp_lastStart (rotate_file io s) = sp_lastStart s" "sp_lastStart (onDrop s) = sp_lastStart s"
  "sp_lastStart (writer_tick io s) = sp_lastStart s" "sp_lastStart (write_line cfg io line s) = sp_lastStart s"
proof -
  show r: "sp_lastStart (rotate_file io s) = sp_lastStart s" for s :: "'a spool"
    by (auto simp: rotate_file_def signalUpload_def split: option.split)
  show d: "sp_lastStart (onDrop s) = sp_lastStart s" for s :: "'a spool" by (simp add: onDrop_def)
  show "sp_lastStart (writer_tick io s) = sp_lastStart s" by (auto simp: writer_tick_def r split: option.split)
  show "sp_lastStart (write_line cfg io line s) = sp_lastStart s" by (auto simp: write_line_def Let_def r d split: option.split)
qed

lemma append_lastStart:
  assumes "spool_inv cfg s"
  shows "sp_lastStart s \<le> sp_lastStart (append_event marshal cfg io ev s)"
proof (cases "marshal ev")
  case None
  then show ?thesis by (simp add: append_event_def)
next
  case (Some body)
  define s1 where "s1 = writer_tick io s"
  have s1: "spool_inv cfg s1" "sp_lastStart s1 = sp_lastStart s" using writer_tick_ok [OF assms] by (simp_all add: s1_def)
  have "append_event marshal cfg io ev s =
     (if sp_spooled s1 + int (length (body @ [newline])) > sc_maxBytes cfg then onDrop s1
      else case (if sp_active s1 = None then open_file cfg io s1 else Some s1) of
        None \<Rightarrow> onDrop s1 | Some s2 \<Rightarrow> write_line cfg io (body @ [newline]) s2)"
    using Some unfolding append_event_def s1_def writer_tick_def by (simp add: Let_def)
  then show ?thesis using s1 open_file_ok [OF s1(1), of io] by (auto split: option.split)
qed

lemma exec_lastStart: "spool_inv cfg s \<Longrightarrow> sp_lastStart s \<le> sp_lastStart (spool_exec marshal cfg op s)"
proof (cases op)
  case (Recv io)
  moreover assume "spool_inv cfg s"
  then have "sp_lastStart s \<le> sp_lastStart (append_event marshal cfg io ev (s\<lparr>sp_events := evs\<rparr>))" for ev evs
    using append_lastStart [of cfg "s\<lparr>sp_events := evs\<rparr>" marshal io ev] by simp
  ultimately show ?thesis by (auto simp: writer_recv_def split: list.split)
qed (auto simp: PutConnLog_def uploadFile_def drain_close_def drain_abandon_def Let_def split: option.split)

lemma run_lastStart:
  assumes "spool_inv cfg s" "one_line marshal"
  shows "sp_lastStart s \<le> sp_lastStart (spool_run marshal cfg ops s)"
proof (induction ops rule: rev_induct)
  case (snoc op ops)
  have "spool_inv cfg (spool_run marshal cfg ops s)"
    using run_accounts [OF assms(1,2), of ops] by simp
  from exec_lastStart [OF this, of marshal op] show ?case using snoc by (simp add: spool_run_def)
qed (simp add: spool_run_def)

lemma open_file_path:
  "open_file cfg io s = Some s' \<Longrightarrow> map_option af_path (sp_active s') = Some (base_name cfg (sp_lastStart s') @ ''.jsonl.part'')"
  by (auto simp: open_file_def Let_def spoolActiveSuffix_def split: option.splits)

text \<open>
  Log files are named in the order they are opened: of two files one process opens, the later one has the
  lexicographically larger name (even if the clock stands still or goes back), so the sorted listing in which the uploader
  takes the ready files is the order in which they were written. This holds to the end of year 9999.
\<close>

lemma spool_names_in_order:
  assumes "spool_inv cfg s0" "one_line marshal"
    and "open_file cfg io s0 = Some s1" "sp_active s1 = Some w1"
    and "open_file cfg io' (spool_run marshal cfg ops s1) = Some s2" "sp_active s2 = Some w2"
    and "fst (date_of (sp_lastStart s2)) \<le> 9999"
  shows "strip_part (af_path w1) < strip_part (af_path w2)"
proof -
  have i1: "spool_inv cfg s1" "sp_lastStart s0 < sp_lastStart s1" using open_file_ok [OF assms(1,3)] by simp_all
  have z: "- zero_time \<le> sp_lastStart s1" using i1(1) by (simp add: spool_inv_def dirs_ok_def)
  have i2: "spool_inv cfg (spool_run marshal cfg ops s1)"
    using run_accounts [OF i1(1) assms(2), of ops] by simp
  have lt: "sp_lastStart s1 < sp_lastStart s2"
    using open_file_ok [OF i2 assms(5)] run_lastStart [OF i1(1) assms(2), of ops] by simp
  from tsNanos_less [OF z lt assms(7)] have "tsNanos (sp_lastStart s1) < tsNanos (sp_lastStart s2)" .
  moreover have "length (tsNanos (sp_lastStart s1)) = length (tsNanos (sp_lastStart s2))"
    using length_tsNanos [of "sp_lastStart s1"] length_tsNanos [of "sp_lastStart s2"] date_of_year_mono [OF z lt] assms(7) by simp
  ultimately have "base_name cfg (sp_lastStart s1) @ ''.jsonl'' < base_name cfg (sp_lastStart s2) @ ''.jsonl''"
    by (simp add: base_name_def lex_append_less)
  moreover have "af_path w1 = base_name cfg (sp_lastStart s1) @ ''.jsonl.part''" "af_path w2 = base_name cfg (sp_lastStart s2) @ ''.jsonl.part''"
    using open_file_path [OF assms(3)] open_file_path [OF assms(5)] assms(4,6) by simp_all
  ultimately show ?thesis by (simp only: strip_part_active)
qed

subsection \<open>Witnesses\<close>

definition demo_spool_cfg :: spool_cfg where
  "demo_spool_cfg = \<lparr>sc_nodeID = ''ab'', sc_maxFile = 30, sc_maxBytes = 100\<rparr>"

definition demo_wio :: "int \<Rightarrow> nat option \<Rightarrow> writer_io" where
  "demo_wio t wr = \<lparr>wi_now = t, wi_lstat = \<lambda>_. False, wi_create = \<lambda>_. False, wi_write = wr, wi_truncate = False, wi_rename = False, wi_remove = False\<rparr>"

text \<open>An active file already open, one event queued.\<close>

definition demo_spool :: "string spool" where
  "demo_spool = (spool_start [(base_name demo_spool_cfg 5 @ ''.jsonl.part'', Regular [])])
     \<lparr>sp_lastStart := 5, sp_events := [''xy''],
       sp_active := Some \<lparr>af_path = base_name demo_spool_cfg 5 @ ''.jsonl.part'', af_size = 0, af_winStart = 0\<rparr>\<rparr>"

definition demo_marshal_ev :: "string \<Rightarrow> string option" where
  "demo_marshal_ev s = (if newline \<in> set s then None else Some s)"

lemma demo_marshal_one_line: "one_line demo_marshal_ev"
  by (auto simp: one_line_def demo_marshal_ev_def split: if_splits)

lemma spool_start_inv: "spool_inv cfg (spool_start [])"
  by (simp add: spool_inv_def dirs_ok_def active_ok_def spool_start_def key_new_def)

lemma demo_spool_inv: "spool_inv demo_spool_cfg demo_spool"
  using ready_not_part [of _ "base_name demo_spool_cfg 5"]
  by (auto simp: spool_inv_def dirs_ok_def active_ok_def demo_spool_def spool_start_def key_new_def complete_def zero_time_def intro!: exI [of _ 5])

lemma demo_spool_run:
  "spool_run demo_marshal_ev demo_spool_cfg [Put ''uv'', Recv (demo_wio 6 None), Recv (demo_wio 7 (Some 1))] demo_spool
   = demo_spool\<lparr>sp_events := [], sp_dropped := 1, sp_spooled := 3,
       sp_dir := [(base_name demo_spool_cfg 5 @ ''.jsonl.part'', Regular (''xy'' @ [newline]))],
       sp_active := Some \<lparr>af_path = base_name demo_spool_cfg 5 @ ''.jsonl.part'', af_size = 3, af_winStart = 0\<rparr>\<rparr>"
  by (simp add: spool_run_def demo_spool_def spool_start_def PutConnLog_def spoolQueue_def writer_recv_def append_event_def
      demo_marshal_ev_def demo_wio_def inWindow_def spoolWindow_def demo_spool_cfg_def write_line_def file_at_def Let_def onDrop_def)

definition demo_spool_end :: "string spool" where
  "demo_spool_end = spool_run demo_marshal_ev demo_spool_cfg [Put ''uv'', Recv (demo_wio 6 None), Recv (demo_wio 7 (Some 1))] demo_spool"

theorem spool_accounts_every_event_witness:
  "sp_dropped demo_spool_end = 1 \<and> sp_events demo_spool_end = [] \<and>
   (\<exists>D W. sp_dropped demo_spool_end = sp_dropped demo_spool + size D
     \<and> mset (sp_events demo_spool) + mset (offered [Put ''uv'', Recv (demo_wio 6 None), Recv (demo_wio 7 (Some 1))])
        = D + W + mset (sp_events demo_spool_end)
     \<and> (\<forall>ev \<in># W. demo_marshal_ev ev \<noteq> None)
     \<and> spool_lines demo_spool_end = spool_lines demo_spool + image_mset (the \<circ> demo_marshal_ev) W)"
proof -
  have "sp_dropped demo_spool_end = 1 \<and> sp_events demo_spool_end = []" unfolding demo_spool_end_def demo_spool_run by simp
  then show ?thesis
    using spool_accounts_every_event [OF demo_spool_inv demo_marshal_one_line demo_spool_end_def] by blast
qed

lemma spool_names_in_order_witness:
  "strip_part (base_name demo_spool_cfg 5 @ ''.jsonl.part'') < strip_part (base_name demo_spool_cfg 6 @ ''.jsonl.part'')"
proof -
  let ?w = "\<lambda>t. \<lparr>af_path = base_name demo_spool_cfg t @ ''.jsonl.part'', af_size = 0, af_winStart = Truncate 5 spoolWindow\<rparr>"
  let ?s1 = "(spool_start [(base_name demo_spool_cfg 5 @ ''.jsonl.part'', Regular [])])\<lparr>sp_lastStart := 5, sp_active := Some (?w 5)\<rparr> :: string spool"
  let ?s2 = "(spool_start [(base_name demo_spool_cfg 5 @ ''.jsonl.part'', Regular []), (base_name demo_spool_cfg 6 @ ''.jsonl.part'', Regular [])])
    \<lparr>sp_lastStart := 6, sp_active := Some (?w 6)\<rparr> :: string spool"
  have "spoolMaxNameTries = Suc 999" by (simp add: spoolMaxNameTries_def)
  note l = open_loop.simps(2) [where k = 999, folded this]
  have n: "base_name demo_spool_cfg 5 @ ''.jsonl.part'' \<noteq> base_name demo_spool_cfg 6 @ ''.jsonl.part''"
    "base_name demo_spool_cfg 5 @ ''.jsonl.part'' \<noteq> base_name demo_spool_cfg 6 @ ''.jsonl''"
    using base_name_inj [of 5 6] ready_not_part [of "base_name demo_spool_cfg 6" "base_name demo_spool_cfg 5"] by (auto simp: zero_time_def)
  have o1: "open_file demo_spool_cfg (demo_wio 5 None) (spool_start []) = Some ?s1"
    by (simp add: open_file_def l spool_start_def zero_time_def demo_wio_def Let_def spoolActiveSuffix_def)
  have o2: "open_file demo_spool_cfg (demo_wio 5 None) (spool_run demo_marshal_ev demo_spool_cfg [] ?s1) = Some ?s2"
    using n by (simp add: spool_run_def open_file_def l spool_start_def demo_wio_def Let_def spoolActiveSuffix_def spoolReadySuffix_def)
  have y: "fst (date_of 6) \<le> 9999" by (simp add: date_of_def zero_time_def civil_date_def year_day_def month_lengths_def is_leap_def Let_def)
  show ?thesis using spool_names_in_order [OF spool_start_inv demo_marshal_one_line o1 _ o2, of "?w 5" "?w 6"] y by simp
qed

subsection \<open>Recovery\<close>

lemma last_newline_le: "last_newline c \<le> length c"
  by (induction c) auto

lemma last_newline_lines: "lines_of acc (take (last_newline c) c) = lines_of acc c"
proof (induction c arbitrary: acc)
  case (Cons x c)
  have "last_newline c = 0 \<Longrightarrow> lines_of acc' c = []" for acc'
    using Cons.IH [of acc'] by simp
  then show ?case using Cons.IH by auto
qed simp

definition no_pair :: "(string \<times> entry) list \<Rightarrow> bool" where
  "no_pair d \<longleftrightarrow> distinct (map fst d) \<and> (\<forall>p. map_of d (p @ ''.jsonl.part'') \<noteq> None \<longrightarrow> map_of d (p @ ''.jsonl'') = None)"

lemma delete_update_same: "AList.delete n (AList.update n e d) = AList.delete n d"
  by (induction d) (auto simp: AList.delete_eq)

lemma spoolName_part: "spoolName n = Some (ts, node, True) \<Longrightarrow> \<exists>p. n = p @ ''.jsonl.part''"
proof -
  assume "spoolName n = Some (ts, node, True)"
  then have "dropWhile is_hex (drop 27 n) = ''.jsonl.part''" by (auto simp: spoolName_def Let_def split: if_splits)
  then show ?thesis by (metis append_take_drop_id append.assoc takeWhile_dropWhile_id)
qed

lemma recoverPart_lines:
  assumes "no_pair (sp_dir s)" "path = p @ ''.jsonl.part''"
  shows "no_pair (sp_dir (recoverPart io path s)) \<and> file_lines (sp_dir (recoverPart io path s)) = file_lines (sp_dir s)"
proof (cases "file_at (sp_dir s) path")
  case None
  then show ?thesis using assms(1) by (simp add: recoverPart_def)
next
  case (Some content)
  then have c: "map_of (sp_dir s) path = Some (Regular content)" by (auto simp: file_at_def split: option.splits entry.splits)
  let ?d = "sp_dir s"
  let ?k = "last_newline content"
  have d: "distinct (map fst ?d)" and free: "map_of ?d (p @ ''.jsonl'') = None" using assms c by (auto simp: no_pair_def)
  have other: "q @ ''.jsonl.part'' \<noteq> p @ ''.jsonl''" "q @ ''.jsonl'' \<noteq> p @ ''.jsonl.part''" for q
    using ready_not_part by metis+
  note fl = file_lines_delete [OF d c]
  have lines: "entry_lines (Regular (take ?k content)) = entry_lines (Regular content)"
    by (simp add: entry_lines_def last_newline_lines)
  have upd: "no_pair (AList.update path (Regular x) ?d)" for x
    using assms other c d unfolding no_pair_def by (auto simp: distinct_update update_conv)
  have del: "no_pair (AList.delete path ?d)"
    using assms d unfolding no_pair_def by (auto simp: distinct_delete AList.delete_conv)
  have ren: "no_pair (AList.update (p @ ''.jsonl'') (Regular x) (AList.delete path ?d))"
      "file_lines (AList.update (p @ ''.jsonl'') (Regular x) (AList.delete path ?d)) = entry_lines (Regular x) + file_lines (AList.delete path ?d)" for x
    using assms d free other unfolding no_pair_def
    by (auto simp: distinct_update distinct_delete update_conv AList.delete_conv file_lines_new split: if_splits)
  define d1 where "d1 = (if ?k < length content then AList.update path (Regular (take ?k content)) ?d else ?d)"
  have m1: "map_of d1 path = Some (Regular (take ?k content))"
    using c last_newline_le [of content] by (auto simp: d1_def update_conv)
  have d1: "no_pair d1" "file_lines d1 = file_lines ?d" "AList.delete path d1 = AList.delete path ?d"
    using upd assms(1) fl lines by (auto simp: d1_def file_lines_update d delete_update_same)
  have r1: "rename path (strip_part path) d1 = AList.update (p @ ''.jsonl'') (Regular (take ?k content)) (AList.delete path ?d)"
    unfolding rename_def m1 by (simp add: assms(2) d1(3) [unfolded assms(2)])
  consider "ri_read io" | "\<not> ri_read io" "?k = 0" | "\<not> ri_read io" "?k \<noteq> 0" by auto
  then show ?thesis
  proof cases
    case 1
    then show ?thesis using Some assms(1) by (simp add: recoverPart_def)
  next
    case 2
    then have "entry_lines (Regular content) = {#}" using lines by (simp add: entry_lines_def)
    then show ?thesis using 2 Some assms(1) del fl by (simp add: recoverPart_def)
  next
    case 3
    then have "sp_dir (recoverPart io path s) \<in> {?d, d1, rename path (strip_part path) d1}"
      using Some by (auto simp: recoverPart_def d1_def Let_def)
    then show ?thesis using assms(1) d1 ren [of "take ?k content"] fl lines r1 by auto
  qed
qed

text \<open>
  Recovery keeps every complete line that an earlier run left in the directory; what it drops is the incomplete tail of a \<^verbatim>\<open>.part\<close> file.
\<close>

lemma recoverSpool_lines:
  assumes "no_pair (sp_dir s)"
  shows "file_lines (sp_dir (recoverSpool io s)) = file_lines (sp_dir s)"
proof -
  have e: "no_pair (sp_dir (recover_entry io e s)) \<and> file_lines (sp_dir (recover_entry io e s)) = file_lines (sp_dir s)"
    if "no_pair (sp_dir s)" for e and s :: "'a spool"
  proof (cases "\<exists>ts node c. spoolName (fst e) = Some (ts, node, True) \<and> snd e = Regular c")
    case True
    then obtain p c ts node where "fst e = p @ ''.jsonl.part''" "spoolName (fst e) = Some (ts, node, True)" "snd e = Regular c"
      using spoolName_part by blast
    then show ?thesis using recoverPart_lines [OF that] by (simp add: recover_entry_def)
  next
    case False
    then have "sp_dir (recover_entry io e s) = sp_dir s"
      by (auto simp: recover_entry_def split: option.splits prod.splits entry.splits)
    then show ?thesis using that by simp
  qed
  have "no_pair (sp_dir (fold (recover_entry io) es s)) \<and> file_lines (sp_dir (fold (recover_entry io) es s)) = file_lines (sp_dir s)"
    if "no_pair (sp_dir s)" for es and s :: "'a spool"
    using that
  proof (induction es arbitrary: s)
    case (Cons e es)
    then show ?case using e [OF Cons.prems, of e] by simp
  qed simp
  then show ?thesis using assms by (simp add: recoverSpool_def)
qed

text \<open>
  A file whose size could not be read at start is not counted, but its upload still subtracts its size: the counter
  ends below the bytes on disk.
\<close>

lemma uncounted_upload:
  assumes "spoolKey n = Some k" "ri_stat (io n)" "\<not> ui_open u" "\<not> ui_stat u" "\<not> ui_put u" "\<not> ui_remove u"
  shows "sp_spooled (snd (uploadFile u n (recoverSpool io (spool_start [(n, Regular c)] :: 'e spool)))) = - int (length c)"
proof -
  obtain ts node where "spoolName n = Some (ts, node, False)"
    using assms(1) by (auto simp: spoolKey_def split: option.splits prod.splits bool.splits)
  then have r: "recoverSpool io (spool_start [(n, Regular c)]) = (spool_start [(n, Regular c)] :: 'e spool)"
    using assms(2) by (simp add: recoverSpool_def spool_start_def recover_entry_def)
  show ?thesis unfolding r using assms by (simp add: uploadFile_def spool_start_def file_at_def Let_def)
qed

text \<open>The bytes an earlier run left in spool files of either kind.\<close>

definition left_size :: "string \<times> entry \<Rightarrow> int" where
  "left_size e = (if spoolName (fst e) = None then 0 else case snd e of Regular c \<Rightarrow> int (length c) | Irregular \<Rightarrow> 0)"

definition left_bytes :: "(string \<times> entry) list \<Rightarrow> int" where
  "left_bytes d = sum_list (map left_size d)"

text \<open>No file of the directory carries this process's node id.\<close>

definition new_node :: "spool_cfg \<Rightarrow> (string \<times> entry) list \<Rightarrow> bool" where
  "new_node cfg d \<longleftrightarrow> (\<forall>t. map_of d (base_name cfg t @ ''.jsonl'') = None \<and> map_of d (base_name cfg t @ ''.jsonl.part'') = None)"

text \<open>
  Recovery part of the way, with the entries \<open>es\<close> still to come: they are as they were, the counter covers the ready
  files among the others, and it is covered by what the earlier run left.
\<close>

definition recovering :: "spool_cfg \<Rightarrow> int \<Rightarrow> (string \<times> entry) list \<Rightarrow> 'e spool \<Rightarrow> bool" where
  "recovering cfg L es s \<longleftrightarrow>
     no_pair (sp_dir s) \<and> new_node cfg (sp_dir s) \<and> distinct (map fst es)
     \<and> (\<forall>e \<in> set es. map_of (sp_dir s) (fst e) = Some (snd e))
     \<and> sum_list (map ready_size (sp_dir s)) \<le> sp_spooled s + sum_list (map ready_size es)
     \<and> sp_spooled s + left_bytes es \<le> L
     \<and> sp_active s = None \<and> sp_objects s = [] \<and> sp_lastStart s = - zero_time"

lemma recovering_skip:
  assumes "recovering cfg L (e # es) s" "ready_size e = 0" "0 \<le> left_size e"
  shows "recovering cfg L es s"
  using assms by (auto simp: recovering_def left_bytes_def)

lemma ready_size_left: "ready_size e \<le> left_size e" "0 \<le> left_size e"
  by (auto simp: ready_size_def left_size_def is_ready_def split: option.splits prod.splits entry.splits)

lemma recovering_delete:
  assumes "recovering cfg L es s" "path \<notin> fst ` set es" "map_of (sp_dir s) path = Some e" "ready_size (path, e) = 0"
  shows "recovering cfg L es (s\<lparr>sp_dir := AList.delete path (sp_dir s)\<rparr>)"
proof -
  have d: "distinct (map fst (sp_dir s))" using assms(1) by (simp add: recovering_def no_pair_def)
  have "sum_list (map ready_size (AList.delete path (sp_dir s))) = sum_list (map ready_size (sp_dir s))"
    using sum_delete [OF d assms(3), of ready_size] assms(4) by simp
  then show ?thesis using assms(1,2) d unfolding recovering_def no_pair_def new_node_def
    by (auto simp: distinct_delete AList.delete_conv image_iff)
qed

lemma recovering_replace:
  assumes "recovering cfg L es s" "path \<notin> fst ` set es" "path = p @ ''.jsonl.part''" "map_of (sp_dir s) path = Some e"
  shows "recovering cfg L es (s\<lparr>sp_dir := AList.update path (Regular x) (sp_dir s)\<rparr>)"
proof -
  have d: "distinct (map fst (sp_dir s))" using assms(1) by (simp add: recovering_def no_pair_def)
  have other: "q @ ''.jsonl'' \<noteq> path" for q using ready_not_part assms(3) by metis
  have own: "base_name cfg t @ ''.jsonl.part'' \<noteq> path" for t
    using assms(1,4) by (auto simp: recovering_def new_node_def)
  have z: "ready_size (path, y) = 0" for y using assms(3) by simp
  have "sum_list (map ready_size (AList.update path (Regular x) (sp_dir s))) = sum_list (map ready_size (sp_dir s))"
    using sum_update [OF d, of ready_size path "Regular x"] sum_delete [OF d assms(4), of ready_size] by (simp add: z)
  then show ?thesis using assms(1,2,4) d other own unfolding recovering_def no_pair_def new_node_def
    by (auto simp: distinct_update update_conv image_iff)
qed

lemma recovering_rename:
  assumes "recovering cfg L es s" "path \<notin> fst ` set es" "path = p @ ''.jsonl.part''"
    "map_of (sp_dir s) path = Some (Regular c)" "sp_spooled s + int (length c) + left_bytes es \<le> L"
  shows "recovering cfg L es (s\<lparr>sp_dir := rename path (strip_part path) (sp_dir s), sp_spooled := sp_spooled s + int (length c)\<rparr>)"
proof -
  let ?d = "AList.delete path (sp_dir s)" and ?r = "p @ ''.jsonl''"
  have d: "distinct (map fst (sp_dir s))" using assms(1) by (simp add: recovering_def no_pair_def)
  have ren: "rename path (strip_part path) (sp_dir s) = AList.update ?r (Regular c) ?d"
    using assms(3,4) by (simp add: rename_def)
  have free: "map_of (sp_dir s) ?r = None" using assms(1,3,4) by (auto simp: recovering_def no_pair_def)
  have other: "q @ ''.jsonl.part'' \<noteq> ?r" "q @ ''.jsonl'' \<noteq> path" for q using ready_not_part assms(3) by metis+
  have own: "base_name cfg t @ ''.jsonl'' \<noteq> ?r" for t
    using assms(1,3,4) by (auto simp: recovering_def new_node_def)
  have es: "?r \<notin> fst ` set es" using assms(1) free by (auto simp: recovering_def)
  have del: "recovering cfg L es (s\<lparr>sp_dir := ?d\<rparr>)" using recovering_delete [OF assms(1,2,4)] assms(3) by simp
  have dd: "distinct (map fst ?d)" "map_of ?d ?r = None" using d free by (simp_all add: distinct_delete AList.delete_conv)
  have "AList.delete ?r ?d = ?d" using dd(2) by (intro AList.delete_id) (auto simp: map_of_eq_None_iff)
  then have "sum_list (map ready_size (AList.update ?r (Regular c) ?d)) = ready_size (?r, Regular c) + sum_list (map ready_size ?d)"
    using sum_update [OF dd(1), of ready_size ?r "Regular c"] by simp
  moreover note ready_size_le(1) [of ?r c]
  moreover have "no_pair (AList.update ?r (Regular c) ?d)"
    using del dd other assms(3) unfolding recovering_def no_pair_def by (auto simp: distinct_update update_conv AList.delete_conv)
  moreover have "new_node cfg (AList.update ?r (Regular c) ?d)"
    using del other own unfolding recovering_def new_node_def by (auto simp: update_conv)
  ultimately show ?thesis using del assms(5) es unfolding recovering_def ren by (auto simp: update_conv image_iff)
qed

lemma recover_entry_recovering:
  assumes "recovering cfg L (e # es) s" "\<not> ri_stat (io (fst e))"
  shows "recovering cfg L es (recover_entry io e s)"
proof (cases "\<exists>ts node part c. spoolName (fst e) = Some (ts, node, part) \<and> snd e = Regular c")
  case False
  then have "recover_entry io e s = s" "ready_size e = 0"
    by (auto simp: recover_entry_def ready_size_def is_ready_def split: option.splits prod.splits entry.splits)
  then show ?thesis using recovering_skip [OF assms(1)] ready_size_left by simp
next
  case True
  then obtain ts node part c where n: "spoolName (fst e) = Some (ts, node, part)" "snd e = Regular c" by blast
  obtain path where e: "e = (path, Regular c)" using n(2) by (cases e) simp
  have notin: "path \<notin> fst ` set es" and at: "map_of (sp_dir s) path = Some (Regular c)"
    and left: "sp_spooled s + int (length c) + left_bytes es \<le> L"
    using assms(1) e n(1) by (auto simp: recovering_def left_bytes_def left_size_def)
  show ?thesis
  proof (cases part)
    case False
    then have "ready_size e = int (length c)" using n by (simp add: ready_size_def is_ready_def)
    then show ?thesis using assms n e False left
      by (simp add: recover_entry_def) (auto simp: recovering_def left_bytes_def)
  next
    case True
    obtain p where path: "path = p @ ''.jsonl.part''" using spoolName_part n(1) e True by fastforce
    have skip: "recovering cfg L es s"
      by (rule recovering_skip [OF assms(1)]) (simp_all add: e path ready_size_left(2))
    let ?io = "io path" and ?k = "last_newline c"
    let ?d = "if ?k < length c then AList.update path (Regular (take ?k c)) (sp_dir s) else sp_dir s"
    have r: "recover_entry io e s = recoverPart ?io path s" using n True e by (simp add: recover_entry_def)
    have at': "file_at (sp_dir s) path = Some c" using at by (simp add: file_at_def)
    have trunc: "recovering cfg L es (s\<lparr>sp_dir := ?d\<rparr>)"
      using recovering_replace [OF skip notin path at, of "take ?k c"] skip by simp
    have m: "map_of ?d path = Some (Regular (take ?k c))"
      using at last_newline_le [of c] by (simp add: update_conv)
    have "recovering cfg L es (s\<lparr>sp_dir := rename path (strip_part path) ?d, sp_spooled := sp_spooled s + int ?k\<rparr>)"
      using recovering_rename [OF trunc notin path, of "take ?k c"] m left last_newline_le [of c] by simp
    moreover have "recovering cfg L es (s\<lparr>sp_dir := AList.delete path (sp_dir s)\<rparr>)"
      using recovering_delete [OF skip notin at] path by simp
    moreover note skip trunc
    moreover have "recoverPart ?io path s \<in> {s, s\<lparr>sp_dir := AList.delete path (sp_dir s)\<rparr>, s\<lparr>sp_dir := ?d\<rparr>,
        s\<lparr>sp_dir := rename path (strip_part path) ?d, sp_spooled := sp_spooled s + int ?k\<rparr>}"
      unfolding recoverPart_def at' option.case Let_def by simp
    ultimately show ?thesis unfolding r by (elim insertE emptyE) (simp_all only:)
  qed
qed

lemma NewConnLogSpool_capped:
  assumes "NewConnLogSpool cfg io d = Some s" "no_pair d" "new_node cfg d" "\<forall>n. \<not> ri_stat (io n)"
  shows "spool_inv cfg s" "capped (left_bytes d) s"
proof -
  let ?es = "sort_key fst d" and ?L = "left_bytes d"
  let ?s0 = "spool_start d :: 'a spool"
  have "recovering cfg ?L [] (fold (recover_entry io) es t)" if "recovering cfg ?L es t" for es and t :: "'a spool"
    using that by (induction es arbitrary: t) (simp_all add: recover_entry_recovering assms(4))
  moreover have "recovering cfg ?L ?es ?s0"
  proof -
    have dist: "distinct (map fst d)" using assms(2) by (simp add: no_pair_def)
    then have "distinct (map fst ?es)" by (metis distinct_map distinct_sort set_sort)
    moreover have "sum_list (map f ?es) = sum_list (map f d)" for f :: "string \<times> entry \<Rightarrow> int"
      by (metis mset_map mset_sort sum_mset_sum_list)
    ultimately show ?thesis using assms(2,3) dist
      by (auto simp: recovering_def spool_start_def left_bytes_def intro: map_of_is_SomeI)
  qed
  ultimately have r: "recovering cfg ?L [] (recoverSpool io ?s0)" by (simp add: recoverSpool_def spool_start_def)
  have s: "s = (recoverSpool io ?s0)\<lparr>sp_kick := True\<rparr>"
    using assms(1) by (simp add: NewConnLogSpool_def Let_def split: if_splits)
  show "spool_inv cfg s" using r unfolding s recovering_def
    by (auto simp: spool_inv_def dirs_ok_def active_ok_def no_pair_def new_node_def key_new_def)
  show "capped ?L s" using r unfolding s recovering_def by (auto simp: capped_def disk_bytes_def left_bytes_def)
qed


text \<open>A directory with one cut-off file of another node; its complete line counts, and a new event is dropped at the cap.\<close>

definition demo_left :: "(string \<times> entry) list" where
  "demo_left = [(''20260101T000000.000000000Z-cd.jsonl.part'', Regular (''xyz'' @ [newline] @ ''w''))]"

definition demo_recover :: "string \<Rightarrow> recover_io" where
  "demo_recover n = \<lparr>ri_stat = False, ri_read = False, ri_remove = False, ri_truncate = False, ri_rename = False\<rparr>"

lemma demo_left_ok: "no_pair demo_left" "new_node demo_spool_cfg demo_left" "left_bytes demo_left = 5"
proof -
  show "no_pair demo_left" using ready_not_part by (auto simp: no_pair_def demo_left_def)
  have n: "base_name demo_spool_cfg t @ ''.jsonl.part'' \<noteq> ''20260101T000000.000000000Z-cd.jsonl.part''" for t
  proof
    assume "base_name demo_spool_cfg t @ ''.jsonl.part'' = ''20260101T000000.000000000Z-cd.jsonl.part''"
    then have "take 13 (rev (base_name demo_spool_cfg t @ ''.jsonl.part'')) = take 13 (rev ''20260101T000000.000000000Z-cd.jsonl.part'')"
      by (rule arg_cong)
    then show False by (simp add: base_name_def demo_spool_cfg_def)
  qed
  have "base_name demo_spool_cfg t @ ''.jsonl'' \<noteq> ''20260101T000000.000000000Z-cd'' @ ''.jsonl.part''" for t
    by (rule ready_not_part)
  with n show "new_node demo_spool_cfg demo_left" unfolding new_node_def demo_left_def by simp
  show "left_bytes demo_left = 5" by code_simp
qed

lemma demo_recovered:
  "map_option sp_dir (NewConnLogSpool demo_spool_cfg demo_recover demo_left :: string spool option)
   = Some [(''20260101T000000.000000000Z-cd.jsonl'', Regular (''xyz'' @ [newline]))]"
  by code_simp


end
