(* ===== verification/Phone_Handler.thy ===== *)
theory Phone_Handler
  imports Phone_Manager Dial_Backs Edge_Tunnel
begin

text \<open>
  The phone-facing HTTP handler (\<^verbatim>\<open>src/internal/phoneconn/listener.go\<close>, the handler part of \<^verbatim>\<open>dialback.go\<close>, and the role
  marker of \<^verbatim>\<open>src/internal/ca/e2e.go\<close>): who is admitted, the control stream from registration to teardown, the certificate
  endpoint and the data dial-back. A request carries what the TLS layer verified; JSON decoding of a body, the
  issuance behind the endpoint and the parsing of an address are arguments.
\<close>

subsection \<open>Requests and answers\<close>

record certificate =
  ct_CommonName :: string
  ct_OrganizationalUnit :: "string list"
  ct_KeyFingerprint :: "string option"
  ct_SerialHex :: string
  ct_NotAfter :: int

definition MeshRoleOU :: string where "MeshRoleOU = ''tunneld-mesh''"

definition HasMeshRole :: "certificate \<Rightarrow> bool" where
  "HasMeshRole c \<longleftrightarrow> MeshRoleOU \<in> set (ct_OrganizationalUnit c)"

record request =
  rq_Path :: string
  rq_Method :: string
  rq_ProtoMajor :: int
  rq_ProtoMinor :: int
  rq_RemoteAddr :: string
  rq_PeerCertificates :: "certificate list option"
  rq_NegotiatedProtocol :: string
  rq_meta :: "ConnMeta option"
  rq_DialToken :: string
  rq_Upgrade :: string

datatype 'r response =
    JSON nat string bool "int option"
  | HttpError nat
  | NotFound
  | IssueOK 'r
  | ControlStream
  | MoveOnly bytes
  | Hijacked
  | NoAnswer

definition DialBackPath :: string where "DialBackPath = ''/api/v1/data''"
definition DialUpgrade :: string where "DialUpgrade = ''tunneld-dial''"

record IssueError =
  ie_Reason :: string
  ie_Retryable :: bool
  ie_Unauthorized :: bool
  ie_RetryAfter :: duration

record 'ip handler =
  h_validName :: "(string \<Rightarrow> bool) option"
  h_banIP :: "('ip \<Rightarrow> bool) option"
  h_banTunnel :: "(string \<Rightarrow> bool) option"
  h_pingInterval :: duration
  h_streamPending :: int
  h_issueBody :: int
  h_issueDeadline :: duration
  h_dialBackMTLS :: bool

text \<open>\<^verbatim>\<open>NewHandler\<close> fills in the defaults.\<close>

definition NewHandler :: "'ip handler \<Rightarrow> 'ip handler" where
  "NewHandler h =
     h\<lparr>h_streamPending := if h_streamPending h < 1 then 64 else h_streamPending h,
       h_issueBody := if h_issueBody h < 1 then 256 * 1024 else h_issueBody h,
       h_issueDeadline := if h_issueDeadline h \<le> 0 then 390 * Second else h_issueDeadline h\<rparr>"

record phoneIdentity =
  id_name :: string
  id_keyFP :: string
  id_certSerial :: string
  id_notAfter :: int

definition identity :: "'ip handler \<Rightarrow> request \<Rightarrow> phoneIdentity option" where
  "identity h r =
     (case rq_PeerCertificates r of
        Some (leaf # _) \<Rightarrow>
          if HasMeshRole leaf then None
          else if (case h_validName h of Some valid \<Rightarrow> \<not> valid (ct_CommonName leaf) | None \<Rightarrow> False) then None
          else Some \<lparr>id_name = ct_CommonName leaf,
                     id_keyFP = (case ct_KeyFingerprint leaf of Some fp \<Rightarrow> fp | None \<Rightarrow> []),
                     id_certSerial = ct_SerialHex leaf, id_notAfter = ct_NotAfter leaf\<rparr>
      | _ \<Rightarrow> None)"

definition peerIP :: "request \<Rightarrow> string" where
  "peerIP r = (case SplitHostPort (rq_RemoteAddr r) of None \<Rightarrow> rq_RemoteAddr r | Some (host, _) \<Rightarrow> host)"

definition metaFromRequest :: "request \<Rightarrow> ConnMeta" where
  "metaFromRequest r =
     (case rq_meta r of
        Some m \<Rightarrow> if cm_ALPN m = [] \<and> rq_PeerCertificates r \<noteq> None then m\<lparr>cm_ALPN := rq_NegotiatedProtocol r\<rparr> else m
      | None \<Rightarrow> \<lparr>cm_SNI = [], cm_ALPN = (if rq_PeerCertificates r \<noteq> None then rq_NegotiatedProtocol r else []),
                 cm_TLSVersion = [], cm_JA4 = [], cm_SrcIP = [], cm_SrcPort = 0\<rparr>)"

text \<open>The node's state the handler works on: manager, dial-back table, held pre-bind slots, running issuances, rejections.\<close>

record ('s, 'c) phone_node =
  pn_mgr :: "'s manager"
  pn_db :: "'c dialbacks"
  pn_sem :: nat
  pn_issuing :: int
  pn_rejects :: "(string \<times> string \<times> string) list"

definition reject :: "string \<Rightarrow> string \<Rightarrow> string \<Rightarrow> ('s, 'c) phone_node \<Rightarrow> ('s, 'c) phone_node" where
  "reject why name ip st = st\<lparr>pn_rejects := pn_rejects st @ [(why, name, ip)]\<rparr>"

definition draining_refusal :: "'r response" where
  "draining_refusal = JSON 503 ''draining'' True (Some 1)"

subsection \<open>Certificate endpoint\<close>

text \<open>What the network gives: the body, or a read error.\<close>

definition issue_status :: "IssueError \<Rightarrow> nat" where
  "issue_status e = (if ie_Unauthorized e then 401 else if ie_Retryable e then 503 else 400)"

definition serveIssue ::
  "'ip handler \<Rightarrow> (bytes \<Rightarrow> 'q option) \<Rightarrow> (string \<Rightarrow> string \<Rightarrow> 'q \<Rightarrow> 's \<Rightarrow> (IssueError + 'r) \<times> 's) option
   \<Rightarrow> bytes option \<Rightarrow> request \<Rightarrow> string \<Rightarrow> ('s, 'c) phone_node \<Rightarrow> 'r response \<times> ('s, 'c) phone_node" where
  "serveIssue h unmarshal onIssue body r name st =
     (if rq_Method r \<noteq> ''POST'' then (JSON 405 ''method_not_allowed'' False None, st)
      else
        let st1 = st\<lparr>pn_issuing := pn_issuing st + 1\<rparr>;
            done = (\<lambda>st. st\<lparr>pn_issuing := pn_issuing st - 1\<rparr>)
        in if m_draining (pn_mgr st1) then (draining_refusal, done st1)
        else case onIssue of
          None \<Rightarrow> (JSON 503 ''issuance_unavailable'' True None, done st1)
        | Some issue \<Rightarrow>
            (case body of
               None \<Rightarrow> (JSON 400 ''bad_request'' False None, done st1)
             | Some raw \<Rightarrow>
                 (case unmarshal (take (nat (h_issueBody h)) raw) of
                    None \<Rightarrow> (JSON 400 ''bad_json'' False None, done st1)
                  | Some req \<Rightarrow>
                      (case issue name (peerIP r) req (m_vk (pn_mgr st1)) of
                         (res, s) \<Rightarrow>
                           let st2 = done (st1\<lparr>pn_mgr := (pn_mgr st1)\<lparr>m_vk := s\<rparr>\<rparr>) in
                           (case res of
                              Inl e \<Rightarrow> (JSON (issue_status e) (ie_Reason e) (ie_Retryable e)
                                         (if ie_RetryAfter e > 0 then Some (ie_RetryAfter e div Second) else None), st2)
                            | Inr resp \<Rightarrow> (IssueOK resp, st2))))))"

subsection \<open>Control stream\<close>

definition livenessMissedPings :: int where "livenessMissedPings = 3"

text \<open>
  One turn of the write loop: the context ends, a queued frame is taken, or the ping timer fires at a time. The
  flag says whether writing to the phone fails. The result tells whether the loop goes on.
\<close>

datatype control_event = CtxDone | SendReady bool | PingTick int bool

definition control_step ::
  "'ip handler \<Rightarrow> nat \<Rightarrow> control_event \<Rightarrow> 's manager \<Rightarrow> bool \<times> bytes list \<times> 's manager" where
  "control_step h i ev m =
     (case ev of
        CtxDone \<Rightarrow> (False, [], m)
      | SendReady err \<Rightarrow>
          (case m_objs m i of
             Some c \<Rightarrow>
               (case cn_send c of
                  [] \<Rightarrow> (True, [], m)
                | f # _ \<Rightarrow>
                    let m1 = updc i (\<lambda>c. c\<lparr>cn_send := tl (cn_send c)\<rparr>) m
                    in if err then (False, [], m1) else (True, [f], m1))
           | None \<Rightarrow> (False, [], m))
      | PingTick now err \<Rightarrow>
          (case m_objs m i of
             Some c \<Rightarrow>
               if cn_notAfter c \<noteq> - zero_time \<and> now > cn_notAfter c then (False, [], closec ''cert-expired'' i m)
               else if now - cn_lastPong c > livenessMissedPings * h_pingInterval h
               then (False, [], closec ''liveness-timeout'' i m)
               else (case EncodeControl CtrlPing None of
                       Inl _ \<Rightarrow> (False, [], m)
                     | Inr pf \<Rightarrow> if err then (False, [], m) else (True, [pf], m))
           | None \<Rightarrow> (False, [], m)))"

text \<open>
  The loop, with what the rest of the node does to the manager before each turn. \<open>None\<close> while it has not returned.
\<close>

fun runControl ::
  "'ip handler \<Rightarrow> nat \<Rightarrow> (('s manager \<Rightarrow> 's manager) \<times> control_event) list \<Rightarrow> 's manager
   \<Rightarrow> (bytes list \<times> 's manager) option" where
  "runControl h i [] m = None"
| "runControl h i ((others, ev) # evs) m =
     (case control_step h i ev (others m) of
        (False, out, m1) \<Rightarrow> Some (out, m1)
      | (True, out, m1) \<Rightarrow> map_option (\<lambda>(out', m2). (out @ out', m2)) (runControl h i evs m1))"

text \<open>The reader, on the bytes the phone sends; \<open>t\<close> is the clock when a given number of bytes is left.\<close>

function readPump :: "(nat \<Rightarrow> int) \<Rightarrow> nat \<Rightarrow> bytes \<Rightarrow> 's manager \<Rightarrow> 's manager" where
  "readPump t i inp m =
     (case readControlFrame inp of
        Inl ReadTooLarge \<Rightarrow> closec ''protocol-error'' i m
      | Inl ReadErr \<Rightarrow> closec ''phone-close'' i m
      | Inr (frame, rest) \<Rightarrow>
          (case DecodeControl frame of
             Inl _ \<Rightarrow> closec ''protocol-error'' i m
           | Inr (typ, _) \<Rightarrow>
               readPump t i rest (if typ = CtrlPong then updc i (\<lambda>c. c\<lparr>cn_lastPong := t (length rest)\<rparr>) m else m)))"
  by pat_completeness auto
termination
  by (relation "measure (\<lambda>(t, i, inp, m). length inp)") (auto dest: readControlFrame_shorter)

declare readPump.simps [simp del]

text \<open>What the outside gives to one control request.\<close>

record 's control_io =
  ci_flusher :: bool
  ci_rnd :: "nat \<Rightarrow> nat option"
  ci_marshal :: "string list \<Rightarrow> string + bytes"
  ci_connID :: string
  ci_now :: int
  ci_oid :: nat
  ci_mints :: "nat \<Rightarrow> nat \<Rightarrow> string"
  ci_cancels :: "nat \<Rightarrow> nat \<Rightarrow> bool"
  ci_remint :: "nat \<Rightarrow> string"
  ci_bound :: "'s manager \<Rightarrow> 's manager"
  ci_events :: "(('s manager \<Rightarrow> 's manager) \<times> control_event) list"
  ci_end_mint :: "nat \<Rightarrow> string"
  ci_end_cancel :: "nat \<Rightarrow> bool"
  ci_end :: int

definition refuseDraining :: "'s control_io \<Rightarrow> 's manager \<Rightarrow> 'r response" where
  "refuseDraining io m =
     (case moveFrame (ci_rnd io) (ci_marshal io) m of Inl _ \<Rightarrow> HttpError 503 | Inr frame \<Rightarrow> MoveOnly frame)"

definition new_conn :: "phoneIdentity \<Rightarrow> request \<Rightarrow> 's control_io \<Rightarrow> conn" where
  "new_conn pid r io =
     \<lparr>cn_name = id_name pid, cn_keyFP = id_keyFP pid, cn_certSerial = id_certSerial pid, cn_connID = ci_connID io,
      cn_sessionStart = ci_now io, cn_meta = metaFromRequest r, cn_notAfter = id_notAfter pid, cn_send = [],
      cn_lastPong = ci_now io, cn_closed = False, cn_reason = [], cn_moveDue = False\<rparr>"

text \<open>
  \<^verbatim>\<open>serveControl\<close>: the answer, the frames written and the new state; \<open>None\<close> while the stream runs. \<open>ci_bound\<close> is what the
  rest of the node does between the registration and the drain check.
\<close>

definition serveControl ::
  "'ip handler \<Rightarrow> mgr_config \<Rightarrow> 's client \<Rightarrow> request \<Rightarrow> phoneIdentity \<Rightarrow> 's control_io \<Rightarrow> ('s, 'c) phone_node
   \<Rightarrow> ('r response \<times> bytes list \<times> ('s, 'c) phone_node) option" where
  "serveControl h cfg ex r pid io st =
     (if m_draining (pn_mgr st) then Some (refuseDraining io (pn_mgr st), [], st)
      else if int (pn_sem st) \<ge> h_streamPending h then Some (HttpError 503, [], st)
      else
        let st1 = st\<lparr>pn_sem := pn_sem st + 1\<rparr>;
            free = (\<lambda>st. st\<lparr>pn_sem := pn_sem st - 1\<rparr>)
        in if \<not> ci_flusher io then Some (HttpError 400, [], free st1)
        else
          let i = ci_oid io; m0 = (pn_mgr st1)\<lparr>m_objs := (m_objs (pn_mgr st1))(i \<mapsto> new_conn pid r io)\<rparr> in
          (case register cfg ex (ci_mints io) (ci_cancels io) (ci_remint io) i m0 of
             (Inl e, m1) \<Rightarrow> Some (HttpError 503, [], free (st1\<lparr>pn_mgr := m1\<rparr>))
           | (Inr _, m1) \<Rightarrow>
               let st2 = free (st1\<lparr>pn_mgr := ci_bound io m1\<rparr>);
                   m2 = (if m_draining (pn_mgr st2) then sendMove (ci_rnd io) (ci_marshal io) i (pn_mgr st2) else pn_mgr st2)
               in map_option (\<lambda>(out, m3). (ControlStream, out,
                      st2\<lparr>pn_mgr := teardown cfg ex (ci_end_mint io) (ci_end_cancel io) (ci_end io) i m3\<rparr>))
                    (runControl h i (ci_events io) m2)))"

subsection \<open>Dial-back\<close>

text \<open>
  \<^verbatim>\<open>serveDialBack\<close> with a connection \<open>c\<close> to hijack; \<open>hijack_ok\<close> and \<open>upgrade_ok\<close> are the outcomes of taking the connection over
  and answering 101. The delivery may find the waiter gone. \<^verbatim>\<open>strings.EqualFold\<close> against the ASCII \<^verbatim>\<open>DialUpgrade\<close>, which has neither k nor s, is
  equality of the ASCII lower-case forms.
\<close>

definition serveDialBack ::
  "'ip handler \<Rightarrow> request \<Rightarrow> bool \<Rightarrow> bool \<Rightarrow> 'c \<Rightarrow> ('s, 'c) phone_node \<Rightarrow> 'r response \<times> ('s, 'c) phone_node" where
  "serveDialBack h r hijack_ok upgrade_ok c st =
     (if rq_Method r \<noteq> ''GET'' then (HttpError 405, st)
      else if rq_ProtoMajor r \<noteq> 1 \<or> rq_ProtoMinor r \<noteq> 1 \<or> rq_DialToken r = [] \<or> map lower_char (rq_Upgrade r) \<noteq> DialUpgrade
      then (HttpError 400, st)
      else
        let go = (\<lambda>tunnel st.
              if \<not> expects (rq_DialToken r) tunnel (pn_db st) then (HttpError 404, st)
              else if \<not> hijack_ok then (NoAnswer, st)
              else if \<not> upgrade_ok then (Hijacked, st\<lparr>pn_db := close_conn c (pn_db st)\<rparr>)
              else case deliver (rq_DialToken r) tunnel c (pn_db st) of
                Delivered d \<Rightarrow> (Hijacked, st\<lparr>pn_db := d\<rparr>)
              | _ \<Rightarrow> (Hijacked, st\<lparr>pn_db := close_conn c (pn_db st)\<rparr>))
        in if \<not> h_dialBackMTLS h then go [] st
        else case identity h r of
          None \<Rightarrow> (HttpError 403, st)
        | Some pid \<Rightarrow>
            if (case h_banTunnel h of Some ban \<Rightarrow> ban (id_name pid) | None \<Rightarrow> False)
            then (HttpError 403, reject ''ban'' (id_name pid) (peerIP r) st)
            else go (id_name pid) st)"

subsection \<open>Admission\<close>

text \<open>Where a request goes: an answer given at once, or one of the three services, for a name.\<close>

datatype 'r route = Answer "'r response" | ToDialBack | ToControl phoneIdentity | ToIssue string

definition admit_request ::
  "'ip handler \<Rightarrow> (string \<Rightarrow> 'ip option) \<Rightarrow> request \<Rightarrow> ('s, 'c) phone_node \<Rightarrow> 'r route \<times> ('s, 'c) phone_node" where
  "admit_request h ParseAddr r st =
     (let ip = peerIP r in
      case ParseAddr ip of
        None \<Rightarrow> (Answer (JSON 400 ''bad_source_ip'' False None), st)
      | Some addr \<Rightarrow>
          if (case h_banIP h of Some ban \<Rightarrow> ban addr | None \<Rightarrow> False)
          then (Answer (JSON 403 ''banned'' False None), reject ''ban'' [] ip st)
          else if rq_Path r = DialBackPath then (ToDialBack, st)
          else case identity h r of
            None \<Rightarrow> (Answer (JSON 403 ''forbidden'' False None), st)
          | Some pid \<Rightarrow>
              if (case h_banTunnel h of Some ban \<Rightarrow> ban (id_name pid) | None \<Rightarrow> False)
              then (Answer (JSON 403 ''banned'' False None), reject ''ban'' (id_name pid) ip st)
              else if rq_Path r = ''/api/v1/control'' then
                if rq_Method r \<noteq> ''POST'' then (Answer (HttpError 405), st)
                else if rq_ProtoMajor r \<noteq> 2 then (Answer (HttpError 505), st)
                else (ToControl pid, st)
              else if rq_Path r = ''/api/v1/issue'' then (ToIssue (id_name pid), st)
              else (Answer NotFound, st))"

definition phone_ServeHTTP ::
  "'ip handler \<Rightarrow> mgr_config \<Rightarrow> 's client \<Rightarrow> (string \<Rightarrow> 'ip option) \<Rightarrow> (bytes \<Rightarrow> 'q option)
   \<Rightarrow> (string \<Rightarrow> string \<Rightarrow> 'q \<Rightarrow> 's \<Rightarrow> (IssueError + 'r) \<times> 's) option \<Rightarrow> bytes option \<Rightarrow> bool \<Rightarrow> bool \<Rightarrow> 'c \<Rightarrow> 's control_io
   \<Rightarrow> request \<Rightarrow> ('s, 'c) phone_node \<Rightarrow> ('r response \<times> bytes list \<times> ('s, 'c) phone_node) option" where
  "phone_ServeHTTP h cfg ex ParseAddr unmarshal onIssue body hijack_ok upgrade_ok c io r st =
     (case admit_request h ParseAddr r st of
        (Answer resp, st1) \<Rightarrow> Some (resp, [], st1)
      | (ToDialBack, st1) \<Rightarrow> (let (resp, st2) = serveDialBack h r hijack_ok upgrade_ok c st1 in Some (resp, [], st2))
      | (ToControl pid, st1) \<Rightarrow> serveControl h cfg ex r pid io st1
      | (ToIssue name, st1) \<Rightarrow> (let (resp, st2) = serveIssue h unmarshal onIssue body r name st1 in Some (resp, [], st2)))"

subsection \<open>What the rest of the node does to a connection\<close>

text \<open>An operation that keeps the manager's contract and never puts connection \<open>i\<close> into the live map.\<close>

locale bystander = mgr_op op for op :: "'s manager \<Rightarrow> 's manager" +
  fixes i :: nat
  assumes no_insert: "(n, i) \<in> set (m_conns (op m)) \<Longrightarrow> (n, i) \<in> set (m_conns m)"

lemma m_conns_keeps [simp]:
  "m_conns (updc j f m) = m_conns m" "m_conns (emit e m) = m_conns m" "m_conns (closec r j m) = m_conns m"
  "m_conns (writeEvent cfg j ev r now m) = m_conns m"
  by (auto simp: updc_def emit_def closec_def writeEvent_def split: option.split)

lemma m_conns_drop_own: "p \<in> set (m_conns (drop_own j n m)) \<Longrightarrow> p \<in> set (m_conns m)"
  by (auto simp: drop_own_def AList.delete_eq split: if_splits)

lemma m_conns_fold: "(\<And>x m. m_conns (f x m) = m_conns m) \<Longrightarrow> m_conns (fold f xs m) = m_conns m"
  by (induction xs arbitrary: m) auto

lemma m_conns_sendMoves [simp]: "m_conns (sendMoves rnd marshal is m) = m_conns m"
  unfolding sendMoves_def by (rule m_conns_fold) simp

interpretation other_teardown: bystander "teardown cfg ex mint cancelled now j" i for cfg ex mint cancelled now j i
proof unfold_locales
  fix n and m :: "'a manager"
  show "(n, i) \<in> set (m_conns (teardown cfg ex mint cancelled now j m)) \<Longrightarrow> (n, i) \<in> set (m_conns m)"
    using m_conns_drop_own [of "(n, i)" j _ "closec ''phone-close'' j m"]
    by (auto simp: teardown_def Let_def split: option.splits)
qed

interpretation other_heartbeat: bystander "\<lambda>m. snd (heartbeat_tick cfg ex mint cancelled j m)" i for cfg ex mint cancelled j i
  by unfold_locales (auto simp: heartbeat_tick_def split: option.splits prod.splits HeartbeatResult.splits if_splits)

interpretation other_drain: bystander "StartDrain rnd marshal addrs" i for rnd marshal addrs i
  by unfold_locales (auto simp: StartDrain_def Let_def split: if_splits)

interpretation other_retry: bystander "RetryMoves rnd marshal" i for rnd marshal i
  by unfold_locales (simp add: RetryMoves_def)

interpretation other_close_all: bystander "CloseAll reason" i for reason i
  by unfold_locales (simp add: CloseAll_def Let_def m_conns_fold)

interpretation other_evict: bystander "EvictBanned match" i for match i
  by unfold_locales (simp add: EvictBanned_def m_conns_fold)

interpretation other_close: bystander "\<lambda>m. snd (Closem name reason m)" i for name reason i
  by unfold_locales (auto simp: Closem_def split: option.splits if_splits)

interpretation other_open: bystander "\<lambda>m. snd (SendOpen name connID payload ctx_done m)" i for name connID payload ctx_done i
  by unfold_locales (auto simp: SendOpen_def split: option.splits sum.splits if_splits)

interpretation other_nudge: bystander "\<lambda>m. snd (SendRenewNudge name payload m)" i for name payload i
  by unfold_locales (auto simp: SendRenewNudge_def split: option.splits sum.splits if_splits)

interpretation other_none: bystander "\<lambda>m. m" i for i
  by unfold_locales simp_all

subsection \<open>The life of a control connection\<close>

text \<open>The reader always returns, having closed the connection.\<close>

lemma readPump_spec: "keeps m (readPump t i inp m) \<and> (m_objs m i \<noteq> None \<longrightarrow> isClosed i (readPump t i inp m))"
proof (induction t i inp m rule: readPump.induct)
  case (1 t i inp m)
  have c: "isClosed i (closec reason i m)" for reason
    by (simp add: isClosed_def closec_def updc_def close1_def split: option.split)
  show ?case
  proof (cases "readControlFrame inp")
    case (Inl e)
    then show ?thesis using c by (subst (1 2) readPump.simps) (cases e; simp)
  next
    case (Inr p)
    obtain frame rest where p: "p = (frame, rest)" by (cases p)
    show ?thesis
    proof (cases "DecodeControl frame")
      case (Inl e)
      then show ?thesis using Inr p c by (subst (1 2) readPump.simps) simp
    next
      case d: (Inr q)
      obtain ty pl where q: "q = (ty, pl)" by (cases q)
      define m1 where "m1 = (if ty = CtrlPong then updc i (\<lambda>c. c\<lparr>cn_lastPong := t (length rest)\<rparr>) m else m)"
      have "good_upd (\<lambda>c. c\<lparr>cn_lastPong := x\<rparr>)" for x by (simp add: good_upd_def conn_le_def)
      then have k: "keeps m m1" "m_objs m i \<noteq> None \<Longrightarrow> m_objs m1 i \<noteq> None"
        by (simp_all add: m1_def keeps_updc) (simp add: updc_def)
      have "readPump t i inp m = readPump t i rest m1"
        using Inr p d q by (subst readPump.simps) (simp add: m1_def)
      moreover have "keeps m1 (readPump t i rest m1) \<and> (m_objs m1 i \<noteq> None \<longrightarrow> isClosed i (readPump t i rest m1))"
        unfolding m1_def using "1.IH" [OF Inr p [symmetric] d q [symmetric]] by blast
      ultimately show ?thesis using keeps_trans [OF k(1)] k(2) by auto
    qed
  qed
qed

lemma control_step_keeps: "control_step h i ev m = (b, out, m') \<Longrightarrow> keeps m m' \<and> m_conns m' = m_conns m"
proof -
  have "good_upd (\<lambda>c. c\<lparr>cn_send := tl (cn_send c)\<rparr>)" by (auto simp: good_upd_def conn_le_def)
  then have "keeps m (updc i (\<lambda>c. c\<lparr>cn_send := tl (cn_send c)\<rparr>) m)" by (rule keeps_updc)
  then show "control_step h i ev m = (b, out, m') \<Longrightarrow> ?thesis"
    by (auto simp: control_step_def Let_def split: control_event.splits option.splits list.splits sum.splits if_splits)
qed

lemma runControl_keeps:
  "runControl h i evs m = Some (out, m') \<Longrightarrow> (\<And>op. op \<in> fst ` set evs \<Longrightarrow> bystander op j) \<Longrightarrow>
     keeps m m' \<and> (\<forall>n. (n, j) \<in> set (m_conns m') \<longrightarrow> (n, j) \<in> set (m_conns m))"
proof (induction h i evs m arbitrary: out rule: runControl.induct)
  case (2 h i others ev evs m)
  have b: "bystander others j" using 2(3) by simp
  obtain go o1 m1 where s: "control_step h i ev (others m) = (go, o1, m1)" by (metis prod_cases3)
  have k: "keeps m (others m)" using b by (simp add: bystander_def mgr_op_def)
  have k1: "keeps m m1" "m_conns m1 = m_conns (others m)"
    using control_step_keeps [OF s] keeps_trans [OF k] by auto
  have ins: "(n, j) \<in> set (m_conns m1) \<Longrightarrow> (n, j) \<in> set (m_conns m)" for n
    using bystander.no_insert [OF b] k1(2) by simp
  show ?case
  proof (cases go)
    case False
    then show ?thesis using 2(2) s k1 ins by simp
  next
    case True
    then obtain o2 where r: "runControl h i evs m1 = Some (o2, m')" using 2(2) s by auto
    have "keeps m1 m' \<and> (\<forall>n. (n, j) \<in> set (m_conns m') \<longrightarrow> (n, j) \<in> set (m_conns m1))"
      by (rule 2(1) [OF s [symmetric] _ _ r]) (use True 2(3) in auto)
    then show ?thesis using keeps_trans [OF k1(1)] ins by blast
  qed
qed simp

lemma bind_loop_conns: "bind_loop cfg ex mint cancelled remint i left m = (r, m') \<Longrightarrow> m_conns m' = m_conns m"
proof (induction left arbitrary: m)
  case 0
  then show ?case by (subst (asm) bind_loop.simps) (auto split: option.splits prod.splits sum.splits)
next
  case (Suc left)
  show ?case
  proof (cases "m_objs m i")
    case None
    then show ?thesis using Suc.prems by (subst (asm) bind_loop.simps) simp
  next
    case (Some c)
    obtain r0 s where b: "BindRoute ex (mint (Suc left)) (cancelled (Suc left)) (mc_routeTTL cfg) (cn_name c)
        (mc_nodeID cfg) (cn_connID c) (m_vk m) = (r0, s)" by (meson surj_pair)
    show ?thesis
    proof (cases "r0 = Inl ErrConnIDCollision")
      case True
      then have "bind_loop cfg ex mint cancelled remint i left (updc i (\<lambda>c. c\<lparr>cn_connID := remint (Suc left)\<rparr>) (m\<lparr>m_vk := s\<rparr>)) = (r, m')"
        using Suc.prems Some b by (subst (asm) bind_loop.simps) simp
      from Suc.IH [OF this] show ?thesis by simp
    next
      case False
      then have "m' = m\<lparr>m_vk := s\<rparr>"
        using Suc.prems Some b by (subst (asm) bind_loop.simps) (auto split: sum.splits)
      then show ?thesis by simp
    qed
  qed
qed

lemma register_fails_conns: "register cfg ex mints cancels remint i m = (Inl e, m') \<Longrightarrow> m_conns m' = m_conns m"
proof -
  obtain r m1 where b: "bind_loop cfg ex mints cancels remint i 2 m = (r, m1)" by (meson surj_pair)
  show "register cfg ex mints cancels remint i m = (Inl e, m') \<Longrightarrow> ?thesis"
    using bind_loop_conns [OF b] b by (cases r) (auto simp: register_def Let_def split: option.splits)
qed

lemma mgr_inv_entry: "mgr_inv m \<Longrightarrow> (n, i) \<in> set (m_conns m) \<Longrightarrow> map_option cn_name (m_objs m i) = Some n"
  unfolding mgr_inv_def by blast

lemma drop_own_removes:
  assumes "mgr_inv m" "m_objs m i = Some c"
  shows "(n, i) \<notin> set (m_conns (drop_own i (cn_name c) m))"
proof
  assume a: "(n, i) \<in> set (m_conns (drop_own i (cn_name c) m))"
  then have e: "(n, i) \<in> set (m_conns m)" by (rule m_conns_drop_own)
  then have n: "n = cn_name c" using mgr_inv_entry [OF assms(1)] assms(2) by fastforce
  then have "mlookup (cn_name c) m = Some i" using e assms(1) by (simp add: mlookup_def mgr_inv_def)
  then show False using a n by (simp add: drop_own_def AList.delete_eq)
qed

lemma teardown_removes:
  assumes "mgr_inv m"
  shows "(n, i) \<notin> set (m_conns (teardown cfg ex mint cancelled now i m)) \<and> isClosed i (teardown cfg ex mint cancelled now i m)"
proof -
  define m1 where "m1 = closec ''phone-close'' i m"
  have inv: "mgr_inv m1" using keeps_closec [of m "''phone-close''" i] assms by (simp add: keeps_def m1_def)
  show ?thesis
  proof (cases "m_objs m1 i")
    case None
    then have "teardown cfg ex mint cancelled now i m = m1" by (simp add: teardown_def m1_def)
    then show ?thesis using mgr_inv_entry [OF inv, of n i] None by (auto simp: isClosed_def)
  next
    case (Some c)
    have "isClosed i m1" by (simp add: m1_def isClosed_def closec_def updc_def close1_def split: option.split)
    then have "cn_closed c" using Some by (simp add: isClosed_def)
    have w: "m_conns (teardown cfg ex mint cancelled now i m) = m_conns (drop_own i (cn_name c) m1)"
      "m_objs (teardown cfg ex mint cancelled now i m) = m_objs (drop_own i (cn_name c) m1)"
      using Some by (simp_all add: teardown_def m1_def [symmetric] Let_def emit_def writeEvent_def split: option.split)
    then show ?thesis using drop_own_removes [OF inv Some] Some \<open>cn_closed c\<close>
      by (auto simp: isClosed_def drop_own_def split: option.split)
  qed
qed

text \<open>
  C24. A control request leaves nothing behind. Whatever the rest of the node does meanwhile (evictions, drains, heartbeats,
  other phones), when the handler returns it has given back its pre-bind slot, its connection is in no entry of the live map,
  and if the stream ran its connection is closed; on every early refusal the number of held slots is unchanged as well.
\<close>

theorem serveControl_cleanup:
  assumes "mgr_inv (pn_mgr st)" "m_objs (pn_mgr st) (ci_oid io) = None"
    and "\<And>op. op \<in> insert (ci_bound io) (fst ` set (ci_events io)) \<Longrightarrow> bystander op (ci_oid io)"
    and run: "serveControl h cfg ex r pid io st = Some (resp, out, st')"
  shows "pn_sem st' = pn_sem st \<and> (\<forall>n. (n, ci_oid io) \<notin> set (m_conns (pn_mgr st')))
     \<and> (resp = ControlStream \<longrightarrow> isClosed (ci_oid io) (pn_mgr st'))"
proof -
  let ?i = "ci_oid io"
  define m0 where "m0 = (pn_mgr st)\<lparr>m_objs := (m_objs (pn_mgr st))(?i \<mapsto> new_conn pid r io)\<rparr>"
  have none: "(n, ?i) \<notin> set (m_conns (pn_mgr st))" for n using mgr_inv_entry [OF assms(1)] assms(2) by fastforce
  have inv0: "mgr_inv m0" using keeps_accepted [OF assms(2), of "new_conn pid r io"] assms(1)
    by (simp add: keeps_def m0_def new_conn_def)
  obtain res m1 where reg: "register cfg ex (ci_mints io) (ci_cancels io) (ci_remint io) ?i m0 = (res, m1)" by (meson surj_pair)
  have inv1: "mgr_inv m1" using register_op.inv [OF inv0, of cfg ex "ci_mints io" "ci_cancels io" "ci_remint io" ?i] reg by simp
  consider "st' = st" "resp \<noteq> ControlStream" | "\<not> m_draining (pn_mgr st)" "\<not> int (pn_sem st) \<ge> h_streamPending h" "ci_flusher io"
    using run by (auto simp: serveControl_def refuseDraining_def Let_def split: if_splits sum.splits)
  then show ?thesis
  proof cases
    case 1
    then show ?thesis using none by simp
  next
    case 2
    note eq = run [unfolded serveControl_def Let_def, simplified 2 if_True if_False, simplified, folded m0_def, unfolded reg prod.case]
    show ?thesis
    proof (cases res)
      case (Inl e)
      then have "st' = st\<lparr>pn_mgr := m1\<rparr>" "resp \<noteq> ControlStream" using eq by auto
      then show ?thesis using register_fails_conns [OF reg [unfolded Inl]] none by (simp add: m0_def)
    next
      case (Inr u)
      define mb where "mb = ci_bound io m1"
      define m2 where "m2 = (if m_draining mb then sendMove (ci_rnd io) (ci_marshal io) ?i mb else mb)"
      obtain m3 where m3: "runControl h ?i (ci_events io) m2 = Some (out, m3)"
        and st': "pn_sem st' = pn_sem st" "pn_mgr st' = teardown cfg ex (ci_end_mint io) (ci_end_cancel io) (ci_end io) ?i m3"
        using eq Inr by (auto simp: mb_def m2_def cong: if_cong)
      have "keeps m1 mb" using assms(3) [of "ci_bound io"] by (simp add: mb_def bystander_def mgr_op_def)
      moreover have "keeps mb m2" by (simp add: m2_def)
      moreover have "keeps m2 m3" using runControl_keeps [OF m3] assms(3) by blast
      ultimately have "mgr_inv m3" using inv1 by (simp add: keeps_def)
      then show ?thesis by (simp add: teardown_removes st')
    qed
  qed
qed

text \<open>
  C25. No request touches a phone's state without a verified and unbanned identity: if a request changes the manager (its live map, its connections, the
  routing table behind it), opens a control stream or is issued certificates, then its source address is readable and not banned, it
  presented a client certificate without the mesh role whose name is a valid tunnel name, and that name is not banned.
\<close>

theorem phone_gate:
  fixes resp :: "'r response"
  assumes "phone_ServeHTTP h cfg ex ParseAddr unmarshal onIssue body hijack_ok upgrade_ok c io r st = Some (resp, out, st')"
    and "pn_mgr st' \<noteq> pn_mgr st \<or> resp = ControlStream \<or> (\<exists>x. resp = IssueOK x)"
  shows "\<exists>addr leaf rest. ParseAddr (peerIP r) = Some addr \<and> (\<forall>ban. h_banIP h = Some ban \<longrightarrow> \<not> ban addr)
     \<and> rq_PeerCertificates r = Some (leaf # rest) \<and> MeshRoleOU \<notin> set (ct_OrganizationalUnit leaf)
     \<and> (\<forall>valid. h_validName h = Some valid \<longrightarrow> valid (ct_CommonName leaf))
     \<and> (\<forall>ban. h_banTunnel h = Some ban \<longrightarrow> \<not> ban (ct_CommonName leaf))"
proof -
  obtain rt :: "'r route" and st1 where a: "admit_request h ParseAddr r st = (rt, st1)" by (meson surj_pair)
  have m1: "pn_mgr st1 = pn_mgr st"
    using a by (auto simp: admit_request_def reject_def Let_def split: option.splits if_splits)
  have db: "pn_mgr (snd (serveDialBack h r hijack_ok upgrade_ok c st1 :: 'r response \<times> _)) = pn_mgr st1"
    "fst (serveDialBack h r hijack_ok upgrade_ok c st1) \<noteq> (ControlStream :: 'r response)"
    "fst (serveDialBack h r hijack_ok upgrade_ok c st1) \<noteq> IssueOK x" for x :: 'r
    by (auto simp: serveDialBack_def reject_def Let_def split: option.split deliver_result.split)
  have "\<not> (\<exists>x. rt = Answer x) \<and> rt \<noteq> ToDialBack"
  proof
    show "\<not> (\<exists>x. rt = Answer x)"
    proof
      assume "\<exists>x. rt = Answer x"
      then obtain x where x: "rt = Answer x" by blast
      then have "x \<noteq> ControlStream \<and> (\<forall>y. x \<noteq> IssueOK y)"
        using a by (auto simp: admit_request_def Let_def split: option.splits if_splits)
      then show False using assms a x m1 by (auto simp: phone_ServeHTTP_def)
    qed
    show "rt \<noteq> ToDialBack"
      using assms a m1 db by (auto simp: phone_ServeHTTP_def split: prod.splits)
  qed
  then obtain pid addr where p: "identity h r = Some pid" "ParseAddr (peerIP r) = Some addr"
    "\<And>ban. h_banIP h = Some ban \<Longrightarrow> \<not> ban addr" "\<And>ban. h_banTunnel h = Some ban \<Longrightarrow> \<not> ban (id_name pid)"
    using a by (auto simp: admit_request_def Let_def split: option.splits if_splits)
  obtain leaf rest where l: "rq_PeerCertificates r = Some (leaf # rest)" "\<not> HasMeshRole leaf"
    "\<And>valid. h_validName h = Some valid \<Longrightarrow> valid (ct_CommonName leaf)" "id_name pid = ct_CommonName leaf"
    using p(1) by (auto simp: identity_def split: option.splits list.splits if_splits)
  then show ?thesis using p(2-4) by (auto simp: HasMeshRole_def)
qed

subsection \<open>Witnesses\<close>

definition demo_handler :: "nat handler" where
  "demo_handler = \<lparr>h_validName = Some (\<lambda>n. n = ''quiet-fox''), h_banIP = Some (\<lambda>a. a = 0), h_banTunnel = None, h_pingInterval = 20 * Second,
     h_streamPending = 1, h_issueBody = 100, h_issueDeadline = Minute, h_dialBackMTLS = True\<rparr>"

definition demo_request :: request where
  "demo_request = \<lparr>rq_Path = ''/api/v1/control'', rq_Method = ''POST'', rq_ProtoMajor = 2, rq_ProtoMinor = 0, rq_RemoteAddr = ''1.2.3.4:5'',
     rq_PeerCertificates = Some [\<lparr>ct_CommonName = ''quiet-fox'', ct_OrganizationalUnit = [], ct_KeyFingerprint = None, ct_SerialHex = ''1f'', ct_NotAfter = 0\<rparr>],
     rq_NegotiatedProtocol = ''h2'', rq_meta = None, rq_DialToken = [], rq_Upgrade = []\<rparr>"

definition demo_phone_io :: "vstate control_io" where
  "demo_phone_io = \<lparr>ci_flusher = True, ci_rnd = \<lambda>k. Some 0, ci_marshal = demo_marshal, ci_connID = ''c1'', ci_now = 0, ci_oid = 0,
     ci_mints = \<lambda>_ _. ''t'', ci_cancels = \<lambda>_ _. False, ci_remint = \<lambda>_. ''c9'', ci_bound = \<lambda>m. m,
     ci_events = [(\<lambda>m. m, SendReady False), (EvictBanned (\<lambda>n. True), CtxDone)], ci_end_mint = \<lambda>_. ''u'', ci_end_cancel = \<lambda>_. False, ci_end = 7\<rparr>"

definition demo_node :: "(vstate, nat) phone_node" where
  "demo_node = \<lparr>pn_mgr = NewManager \<lparr>clock = 0, keyspace = Map.empty\<rparr>, pn_db = NewDialBacks, pn_sem = 0, pn_issuing = 0, pn_rejects = []\<rparr>"

definition demo_identity :: phoneIdentity where
  "demo_identity = \<lparr>id_name = ''quiet-fox'', id_keyFP = [], id_certSerial = ''1f'', id_notAfter = - zero_time\<rparr>"

lemma demo_control_runs:
  "case serveControl demo_handler demo_cfg_m mem_exec demo_request demo_identity demo_phone_io demo_node of
     Some (resp, out, st') \<Rightarrow> (resp :: unit response) = ControlStream \<and> pn_sem st' = 0 | None \<Rightarrow> False"
  by code_simp

theorem serveControl_cleanup_witness:
  "\<exists>out st'. serveControl demo_handler demo_cfg_m mem_exec demo_request demo_identity demo_phone_io demo_node
        = Some (ControlStream :: unit response, out, st')
     \<and> pn_sem st' = pn_sem demo_node \<and> (\<forall>n. (n, 0) \<notin> set (m_conns (pn_mgr st'))) \<and> isClosed 0 (pn_mgr st')"
proof -
  obtain out st' where run: "serveControl demo_handler demo_cfg_m mem_exec demo_request demo_identity demo_phone_io demo_node
      = Some (ControlStream :: unit response, out, st')"
    using demo_control_runs by (auto split: option.splits prod.splits)
  have "mgr_inv (pn_mgr demo_node)" "m_objs (pn_mgr demo_node) (ci_oid demo_phone_io) = None"
    by (simp_all add: demo_node_def NewManager_inv) (simp add: NewManager_def)
  moreover have "bystander op (ci_oid demo_phone_io)" if "op \<in> insert (ci_bound demo_phone_io) (fst ` set (ci_events demo_phone_io))" for op
    using that other_none.bystander_axioms other_evict.bystander_axioms by (auto simp: demo_phone_io_def)
  ultimately have "pn_sem st' = pn_sem demo_node \<and> (\<forall>n. (n, ci_oid demo_phone_io) \<notin> set (m_conns (pn_mgr st')))
     \<and> ((ControlStream :: unit response) = ControlStream \<longrightarrow> isClosed (ci_oid demo_phone_io) (pn_mgr st'))"
    by (rule serveControl_cleanup [OF _ _ _ run])
  then show ?thesis using run by (simp add: demo_phone_io_def)
qed

definition demo_parse :: "string \<Rightarrow> nat option" where
  "demo_parse s = (if s = ''1.2.3.4'' then Some 7 else None)"

definition demo_serve :: "(unit response \<times> bytes list \<times> (vstate, nat) phone_node) option" where
  "demo_serve = phone_ServeHTTP demo_handler demo_cfg_m mem_exec demo_parse (\<lambda>_. None :: unit option) None None True True 3 demo_phone_io demo_request demo_node"

lemma demo_serve_runs: "case demo_serve of Some (resp, out, st') \<Rightarrow> resp = ControlStream | None \<Rightarrow> False"
  by code_simp

theorem phone_gate_witness:
  "(\<exists>out st'. demo_serve = Some (ControlStream, out, st')) \<and>
   (\<exists>addr leaf rest. demo_parse (peerIP demo_request) = Some addr \<and> (\<forall>ban. h_banIP demo_handler = Some ban \<longrightarrow> \<not> ban addr)
     \<and> rq_PeerCertificates demo_request = Some (leaf # rest) \<and> MeshRoleOU \<notin> set (ct_OrganizationalUnit leaf)
     \<and> (\<forall>valid. h_validName demo_handler = Some valid \<longrightarrow> valid (ct_CommonName leaf))
     \<and> (\<forall>ban. h_banTunnel demo_handler = Some ban \<longrightarrow> \<not> ban (ct_CommonName leaf)))"
proof -
  obtain out st' where run: "demo_serve = Some (ControlStream, out, st')"
    using demo_serve_runs by (auto split: option.splits prod.splits)
  show ?thesis using phone_gate [OF run [unfolded demo_serve_def]] run by blast
qed

subsection \<open>A silent phone\<close>

text \<open>The last PONG of connection \<open>i\<close> is not after \<open>t\<close>, and operations that do not bring a later one.\<close>

definition pong_by :: "int \<Rightarrow> nat \<Rightarrow> 's manager \<Rightarrow> bool" where
  "pong_by t i m \<longleftrightarrow> (case m_objs m i of None \<Rightarrow> True | Some c \<Rightarrow> cn_lastPong c \<le> t)"

definition brings_no_pong :: "int \<Rightarrow> nat \<Rightarrow> ('s manager \<Rightarrow> 's manager) \<Rightarrow> bool" where
  "brings_no_pong t i op \<longleftrightarrow> (\<forall>m. pong_by t i m \<longrightarrow> pong_by t i (op m))"

lemma pong_by_objs: "m_objs m' i = m_objs m i \<Longrightarrow> pong_by t i m' = pong_by t i m"
  by (simp add: pong_by_def)

lemma pong_by_updc: "(\<And>c. cn_lastPong (f c) = cn_lastPong c) \<Longrightarrow> pong_by t i (updc j f m) = pong_by t i m"
  by (auto simp: pong_by_def updc_def split: option.split)

lemma pong_by_closec [simp]: "pong_by t i (closec r j m) = pong_by t i m"
  by (simp add: closec_def pong_by_updc close1_def)

lemma pong_by_emit [simp]: "pong_by t i (emit e m) = pong_by t i m" "pong_by t i (m\<lparr>m_vk := s\<rparr>) = pong_by t i m"
  "pong_by t i (m\<lparr>m_conns := cs\<rparr>) = pong_by t i m"
  by (simp_all add: pong_by_def emit_def)

lemma pong_by_writeEvent [simp]: "pong_by t i (writeEvent cfg j ev r now m) = pong_by t i m"
  by (simp add: writeEvent_def split: option.split)

lemma pong_by_sendMove [simp]: "pong_by t i (sendMove rnd marshal j m) = pong_by t i m"
  by (auto simp: sendMove_def pong_by_updc split: sum.split move_err.split)

lemma pong_by_bind_loop: "pong_by t i (snd (bind_loop cfg ex mint cancelled remint j left m)) = pong_by t i m"
proof (induction left arbitrary: m)
  case 0
  show ?case by (subst bind_loop.simps) (auto split: option.split prod.split sum.split)
next
  case (Suc n)
  show ?case by (subst bind_loop.simps) (auto simp: Suc.IH pong_by_updc split: option.split prod.split sum.split)
qed

lemma pong_by_register: "register cfg ex mint cancelled remint j m = (res, m') \<Longrightarrow> pong_by t i m' = pong_by t i m"
  using pong_by_bind_loop [of t i cfg ex mint cancelled remint j 2 m]
  by (auto simp: register_def Let_def split: prod.splits sum.splits option.splits if_splits)

lemma pong_by_control_step: "control_step h i ev m = (go, out, m') \<Longrightarrow> pong_by t j m' = pong_by t j m"
  by (auto simp: control_step_def pong_by_updc Let_def split: control_event.splits option.splits list.splits if_splits sum.splits)

lemma dead_tick_stops:
  assumes "pong_by t i m" "now > t + livenessMissedPings * h_pingInterval h"
  shows "\<not> fst (control_step h i (PingTick now err) m)"
  using assms by (auto simp: control_step_def pong_by_def split: option.splits)

lemma runControl_ends:
  assumes "\<forall>op ev. (op, ev) \<in> set evs \<longrightarrow> brings_no_pong t i op" "pong_by t i m" "(op0, PingTick now err) \<in> set evs"
    and "now > t + livenessMissedPings * h_pingInterval h"
  shows "\<exists>res. runControl h i evs m = Some res"
  using assms(1-3)
proof (induction evs arbitrary: m)
  case (Cons e evs)
  obtain op ev where e: "e = (op, ev)" by (cases e)
  obtain go out m1 where s: "control_step h i ev (op m) = (go, out, m1)" by (metis prod_cases3)
  have p: "pong_by t i (op m)" using Cons.prems(1,2) e unfolding brings_no_pong_def by auto
  show ?case
  proof (cases go)
    case True
    then have "ev \<noteq> PingTick now err" using dead_tick_stops [OF p assms(4), of err] s by auto
    then have "(op0, PingTick now err) \<in> set evs" using Cons.prems(3) e by auto
    moreover have "pong_by t i m1" using pong_by_control_step [OF s] p by simp
    ultimately obtain res where "runControl h i evs m1 = Some res" using Cons.IH [of m1] Cons.prems(1) by auto
    then show ?thesis using s True e by simp
  qed (use s e in simp)
qed simp

text \<open>
  C26. A silent phone is let go. If after some time no PONG of the phone arrives, whatever else happens on the node, then the control stream ends at
  the latest at the first ping tick more than three ping intervals later: the handler returns.
\<close>

theorem control_stream_ends:
  assumes "brings_no_pong t (ci_oid io) (ci_bound io)"
    and "\<forall>op ev. (op, ev) \<in> set (ci_events io) \<longrightarrow> brings_no_pong t (ci_oid io) op"
    and "ci_now io \<le> t" "(op0, PingTick now err) \<in> set (ci_events io)" "now > t + livenessMissedPings * h_pingInterval h"
  shows "\<exists>resp out st'. serveControl h cfg ex r pid io st = Some (resp, out, st')"
proof -
  define m0 where "m0 = (pn_mgr st)\<lparr>m_objs := (m_objs (pn_mgr st))(ci_oid io \<mapsto> new_conn pid r io)\<rparr>"
  obtain res m1 where reg: "register cfg ex (ci_mints io) (ci_cancels io) (ci_remint io) (ci_oid io) m0 = (res, m1)"
    by (meson surj_pair)
  have "pong_by t (ci_oid io) m0" using assms(3) by (simp add: pong_by_def m0_def new_conn_def)
  then have "pong_by t (ci_oid io) (ci_bound io m1)" using pong_by_register [OF reg] assms(1) unfolding brings_no_pong_def by blast
  then have "\<exists>res. runControl h (ci_oid io) (ci_events io) m = Some res"
    if "m = ci_bound io m1 \<or> m = sendMove (ci_rnd io) (ci_marshal io) (ci_oid io) (ci_bound io m1)" for m
    using runControl_ends [OF assms(2) _ assms(4,5), of m] that by auto
  then obtain r1 r2 where "runControl h (ci_oid io) (ci_events io) (ci_bound io m1) = Some r1"
    "runControl h (ci_oid io) (ci_events io) (sendMove (ci_rnd io) (ci_marshal io) (ci_oid io) (ci_bound io m1)) = Some r2" by blast
  then show ?thesis using reg
    by (cases res; cases r1; cases r2) (auto simp: serveControl_def Let_def m0_def [symmetric])
qed

lemma no_pong_id: "brings_no_pong t i (\<lambda>m. m)"
  by (simp add: brings_no_pong_def)

lemma no_pong_EvictBanned: "brings_no_pong t i (EvictBanned ban)"
proof -
  have "pong_by t i (fold (closec r) js m) = pong_by t i m" for r js and m :: "'a manager"
    by (induction js arbitrary: m) simp_all
  then show ?thesis by (auto simp: brings_no_pong_def EvictBanned_def)
qed

theorem control_stream_ends_witness:
  "\<exists>resp out st'. serveControl demo_handler demo_cfg_m mem_exec demo_request demo_identity
      (demo_phone_io\<lparr>ci_events := [(\<lambda>m. m, SendReady False), (EvictBanned (\<lambda>n. False), PingTick (10 ^ 12) False)]\<rparr>) demo_node
      = Some (resp :: unit response, out, st')"
  by (rule control_stream_ends [where t = 5 and now = "10 ^ 12" and err = False and ?op0.0 = "EvictBanned (\<lambda>n. False)"])
    (auto simp: demo_phone_io_def demo_handler_def livenessMissedPings_def no_pong_id no_pong_EvictBanned)

end
