(* ===== verification/Go_Asn1.thy ===== *)
theory Go_Asn1
  imports Go_Strings "HOL-Library.Monad_Syntax"
begin

text \<open>
  The part of Go's \<^verbatim>\<open>encoding/asn1\<close> the attestation code uses: the DER header (\<^verbatim>\<open>parseTagAndLength\<close>), the
  primitive values, a raw value of any tag, a field of a given universal tag, and the elements of a SET or SEQUENCE OF.
  A parser takes the bytes that are left and returns the value with the bytes after it; every error is \<open>None\<close>.
\<close>

subsection \<open>Header\<close>

record tagAndLength =
  tl_class :: int
  tl_isCompound :: bool
  tl_tag :: int
  tl_length :: int

text \<open>\<^verbatim>\<open>parseBase128Int\<close>: at most five bytes, minimal, and within 31 bits.\<close>

fun parseBase128Int :: "nat \<Rightarrow> int \<Rightarrow> bytes \<Rightarrow> (int \<times> bytes) option" where
  "parseBase128Int shifted acc [] = None"
| "parseBase128Int shifted acc (b # bs) =
     (if shifted = 5 then None
      else if shifted = 0 \<and> b = 0x80 then None
      else
        let acc = acc * 128 + uint b mod 128
        in if uint b < 128 then (if acc > 0x7fffffff then None else Some (acc, bs))
           else parseBase128Int (Suc shifted) acc bs)"

text \<open>The bytes of a long-form length: below \<open>2\<^sup>3\<^sup>1\<close> and without leading zeros.\<close>

fun long_length :: "nat \<Rightarrow> int \<Rightarrow> bytes \<Rightarrow> (int \<times> bytes) option" where
  "long_length 0 acc bs = Some (acc, bs)"
| "long_length (Suc n) acc [] = None"
| "long_length (Suc n) acc (b # bs) =
     (if acc \<ge> 0x800000 then None
      else let acc = acc * 256 + uint b in if acc = 0 then None else long_length n acc bs)"

definition next_byte :: "bytes \<Rightarrow> (byte \<times> bytes) option" where
  "next_byte bs = (case bs of [] \<Rightarrow> None | b # r \<Rightarrow> Some (b, r))"

definition long_tag :: "byte \<Rightarrow> bytes \<Rightarrow> (int \<times> bytes) option" where
  "long_tag b r =
     (if uint b mod 32 = 31 then
        do { (t, r) \<leftarrow> parseBase128Int 0 0 r; if t < 31 then None else Some (t, r) }
      else Some (uint b mod 32, r))"

definition der_length :: "byte \<Rightarrow> bytes \<Rightarrow> (int \<times> bytes) option" where
  "der_length l r =
     (if uint l < 128 then Some (uint l, r)
      else if uint l = 128 then None
      else do { (n, r) \<leftarrow> long_length (nat (uint l mod 128)) 0 r; if n < 128 then None else Some (n, r) })"

definition parseTagAndLength :: "bytes \<Rightarrow> (tagAndLength \<times> bytes) option" where
  "parseTagAndLength bs = do {
     (b, r) \<leftarrow> next_byte bs;
     (tag, r) \<leftarrow> long_tag b r;
     (l, r) \<leftarrow> next_byte r;
     (len, r) \<leftarrow> der_length l r;
     Some (\<lparr>tl_class = uint b div 64, tl_isCompound = (uint b div 32 mod 2 = 1), tl_tag = tag, tl_length = len\<rparr>, r) }"

subsection \<open>Fields\<close>

record RawValue =
  rv_Class :: int
  rv_Tag :: int
  rv_IsCompound :: bool
  rv_Bytes :: bytes

text \<open>\<^verbatim>\<open>parseField\<close> of a \<^verbatim>\<open>RawValue\<close>, which matches any tag.\<close>

definition parse_raw :: "bytes \<Rightarrow> (RawValue \<times> bytes) option" where
  "parse_raw bs = do {
     (t, r) \<leftarrow> parseTagAndLength bs;
     if tl_length t > int (length r) then None
     else Some (\<lparr>rv_Class = tl_class t, rv_Tag = tl_tag t, rv_IsCompound = tl_isCompound t,
                 rv_Bytes = take (nat (tl_length t)) r\<rparr>, drop (nat (tl_length t)) r) }"

text \<open>\<^verbatim>\<open>parseField\<close> of a type with a universal tag: the contents.\<close>

definition parse_univ :: "int \<Rightarrow> bool \<Rightarrow> bytes \<Rightarrow> (bytes \<times> bytes) option" where
  "parse_univ tag compound bs = do {
     (rv, r) \<leftarrow> parse_raw bs;
     if rv_Class rv \<noteq> 0 \<or> rv_Tag rv \<noteq> tag \<or> rv_IsCompound rv \<noteq> compound then None else Some (rv_Bytes rv, r) }"

definition TagBoolean :: int where "TagBoolean = 1"
definition TagInteger :: int where "TagInteger = 2"
definition TagOctetString :: int where "TagOctetString = 4"
definition TagEnum :: int where "TagEnum = 10"
definition TagSequence :: int where "TagSequence = 16"
definition TagSet :: int where "TagSet = 17"

definition be_int :: "bytes \<Rightarrow> int" where
  "be_int bs = foldl (\<lambda>n b. n * 256 + uint b) 0 bs"

text \<open>\<^verbatim>\<open>parseInt64\<close>: two's complement, minimal, at most eight bytes.\<close>

definition parseInt64 :: "bytes \<Rightarrow> int option" where
  "parseInt64 bs =
     (case bs of
        [] \<Rightarrow> None
      | b # r \<Rightarrow>
          if (case r of c # _ \<Rightarrow> b = 0 \<and> uint c < 128 \<or> b = 0xff \<and> uint c \<ge> 128 | [] \<Rightarrow> False) then None
          else if length bs > 8 then None
          else Some (if uint b < 128 then be_int bs else be_int bs - 256 ^ length bs))"

definition parseInt32 :: "bytes \<Rightarrow> int option" where
  "parseInt32 bs = do { v \<leftarrow> parseInt64 bs; if v < - 0x80000000 \<or> v > 0x7fffffff then None else Some v }"

definition parseBool :: "bytes \<Rightarrow> bool option" where
  "parseBool bs = (if bs = [0] then Some False else if bs = [0xff] then Some True else None)"

definition field_int :: "bytes \<Rightarrow> (int \<times> bytes) option" where
  "field_int bs = do { (c, r) \<leftarrow> parse_univ TagInteger False bs; v \<leftarrow> parseInt64 c; Some (v, r) }"

definition field_enum :: "bytes \<Rightarrow> (int \<times> bytes) option" where
  "field_enum bs = do { (c, r) \<leftarrow> parse_univ TagEnum False bs; v \<leftarrow> parseInt32 c; Some (v, r) }"

definition field_bool :: "bytes \<Rightarrow> (bool \<times> bytes) option" where
  "field_bool bs = do { (c, r) \<leftarrow> parse_univ TagBoolean False bs; v \<leftarrow> parseBool c; Some (v, r) }"

definition field_octets :: "bytes \<Rightarrow> (bytes \<times> bytes) option" where
  "field_octets = parse_univ TagOctetString False"

text \<open>An optional octet string: absent at the end of the sequence or before an element of another tag.\<close>

definition field_octets_optional :: "bytes \<Rightarrow> (bytes \<times> bytes) option" where
  "field_octets_optional bs =
     (if bs = [] then Some ([], [])
      else do {
        (t, _) \<leftarrow> parseTagAndLength bs;
        if tl_class t \<noteq> 0 \<or> tl_tag t \<noteq> TagOctetString \<or> tl_isCompound t then Some ([], bs) else field_octets bs })"

lemma parseBase128Int_shorter: "parseBase128Int n acc bs = Some (v, r) \<Longrightarrow> length r < length bs"
  by (induction n acc bs rule: parseBase128Int.induct) (auto simp: Let_def less_SucI split: if_splits)

lemma long_length_shorter: "long_length n acc bs = Some (v, r) \<Longrightarrow> length r \<le> length bs"
  by (induction n acc bs rule: long_length.induct) (auto simp: Let_def le_SucI split: if_splits)

lemma header_shorter:
  "next_byte bs = Some (b, r) \<Longrightarrow> length r < length bs"
  "long_tag c bs = Some (v, r) \<Longrightarrow> length r \<le> length bs"
  "der_length c bs = Some (v, r) \<Longrightarrow> length r \<le> length bs"
  by (auto simp: next_byte_def long_tag_def der_length_def bind_eq_Some_conv split: list.splits if_splits
      dest!: parseBase128Int_shorter long_length_shorter)

lemma parseTagAndLength_shorter: "parseTagAndLength bs = Some (t, r) \<Longrightarrow> length r < length bs"
  by (auto simp: parseTagAndLength_def bind_eq_Some_conv dest!: header_shorter)

lemma parse_raw_shorter: "parse_raw bs = Some (rv, r) \<Longrightarrow> length r < length bs"
  by (auto simp: parse_raw_def bind_eq_Some_conv split: if_splits dest!: parseTagAndLength_shorter)

text \<open>
  \<^verbatim>\<open>parseSequenceOf\<close>: elements until the contents are used up. The length test never fails for the parsers of the model,
  which all consume a header.
\<close>

function parse_elems :: "(bytes \<Rightarrow> ('a \<times> bytes) option) \<Rightarrow> bytes \<Rightarrow> 'a list option" where
  "parse_elems p bs =
     (if bs = [] then Some []
      else case p bs of
        None \<Rightarrow> None
      | Some (x, r) \<Rightarrow> if length r < length bs then map_option ((#) x) (parse_elems p r) else None)"
  by pat_completeness auto
termination
  by (relation "measure (\<lambda>(p, bs). length bs)") auto

declare parse_elems.simps [simp del]

end
