(* ===== verification/Attestation.thy ===== *)
theory Attestation
  imports Go_Asn1 Go_Time
begin

text \<open>
  The hardware-attestation verifier (\<^verbatim>\<open>src/internal/attest\<close>): the KeyDescription parser (\<^verbatim>\<open>keydescription.go\<close>), the
  seven-point predicate (\<^verbatim>\<open>verify.go\<close>), the signer allowlist with its reload (\<^verbatim>\<open>signers.go\<close>) and the snapshots of roots and
  revocation status (\<^verbatim>\<open>refreshers.go\<close>). A certificate is what \<^verbatim>\<open>crypto/x509\<close> parsed; path validation to the root pool is an
  argument. A public key of an algorithm \<^verbatim>\<open>crypto/x509\<close> does not know is \<open>None\<close>, as it is \<^verbatim>\<open>nil\<close> there.
\<close>

subsection \<open>Certificates\<close>

datatype public_key = EcdsaKey string bytes | DsaKey bytes | OtherKey string bytes

record attest_cert =
  ac_Raw :: bytes
  ac_SerialHex :: string
  ac_Extensions :: "(int list \<times> bytes) list"
  ac_PublicKey :: "public_key option"

definition attestOID :: "int list" where
  "attestOID = [1, 3, 6, 1, 4, 1, 11129, 2, 1, 17]"

subsection \<open>KeyDescription\<close>

definition SecurityTrustedEnvironment :: int where "SecurityTrustedEnvironment = 1"
definition SecurityStrongBox :: int where "SecurityStrongBox = 2"
definition BootVerified :: int where "BootVerified = 0"

definition tagOSVersion :: int where "tagOSVersion = 705"
definition tagPatchLevel :: int where "tagPatchLevel = 706"
definition tagAttestationAppID :: int where "tagAttestationAppID = 709"
definition tagRootOfTrust :: int where "tagRootOfTrust = 704"
definition tagVendorPatch :: int where "tagVendorPatch = 718"
definition tagBootPatch :: int where "tagBootPatch = 719"

lemmas auth_tags = tagOSVersion_def tagPatchLevel_def tagAttestationAppID_def tagRootOfTrust_def tagVendorPatch_def
  tagBootPatch_def

text \<open>The DER structures, as \<^verbatim>\<open>asn1.Unmarshal\<close> fills them; bytes after the last field of a sequence are allowed.\<close>

record keyDescription =
  rk_AttestationVersion :: int
  rk_AttestationSecurityLevel :: int
  rk_KeymasterVersion :: int
  rk_AttestationChallenge :: bytes
  rk_SoftwareEnforced :: bytes
  rk_TeeEnforced :: bytes

definition unmarshal_keyDescription :: "bytes \<Rightarrow> keyDescription option" where
  "unmarshal_keyDescription bs = do {
     (c, _) \<leftarrow> parse_univ TagSequence True bs;
     (ver, r) \<leftarrow> field_int c;
     (lvl, r) \<leftarrow> field_enum r;
     (kmv, r) \<leftarrow> field_int r;
     (_, r) \<leftarrow> field_enum r;
     (chal, r) \<leftarrow> field_octets r;
     (_, r) \<leftarrow> field_octets r;
     (sw, r) \<leftarrow> parse_raw r;
     (tee, _) \<leftarrow> parse_raw r;
     Some \<lparr>rk_AttestationVersion = ver, rk_AttestationSecurityLevel = lvl, rk_KeymasterVersion = kmv,
           rk_AttestationChallenge = chal, rk_SoftwareEnforced = rv_Bytes sw, rk_TeeEnforced = rv_Bytes tee\<rparr> }"

record rootOfTrust =
  rt_DeviceLocked :: bool
  rt_VerifiedBootState :: int

definition unmarshal_rootOfTrust :: "bytes \<Rightarrow> rootOfTrust option" where
  "unmarshal_rootOfTrust bs = do {
     (c, _) \<leftarrow> parse_univ TagSequence True bs;
     (_, r) \<leftarrow> field_octets c;
     (locked, r) \<leftarrow> field_bool r;
     (boot, r) \<leftarrow> field_enum r;
     _ \<leftarrow> field_octets_optional r;
     Some \<lparr>rt_DeviceLocked = locked, rt_VerifiedBootState = boot\<rparr> }"

definition field_packageInfo :: "bytes \<Rightarrow> ((bytes \<times> int) \<times> bytes) option" where
  "field_packageInfo bs = do {
     (c, rest) \<leftarrow> parse_univ TagSequence True bs;
     (name, r) \<leftarrow> field_octets c;
     (ver, _) \<leftarrow> field_int r;
     Some ((name, ver), rest) }"

record attestationApplicationID =
  aa_PackageInfos :: "(bytes \<times> int) list"
  aa_SignatureDigests :: "bytes list"

definition unmarshal_appID :: "bytes \<Rightarrow> attestationApplicationID option" where
  "unmarshal_appID bs = do {
     (c, _) \<leftarrow> parse_univ TagSequence True bs;
     (pkgs, r) \<leftarrow> parse_univ TagSet True c;
     infos \<leftarrow> parse_elems field_packageInfo pkgs;
     (digs, _) \<leftarrow> parse_univ TagSet True r;
     rvs \<leftarrow> parse_elems parse_raw digs;
     Some \<lparr>aa_PackageInfos = infos, aa_SignatureDigests = map rv_Bytes rvs\<rparr> }"

record KeyDescription =
  kd_AttestationVersion :: int
  kd_KeymasterVersion :: int
  kd_SecurityLevel :: int
  kd_Challenge :: bytes
  kd_Package :: string
  kd_PackageVersion :: int
  kd_SignatureDigests :: "bytes list"
  kd_DeviceLocked :: bool
  kd_VerifiedBootState :: int
  kd_HasRootOfTrust :: bool
  kd_OSVersion :: int
  kd_OSPatch :: int
  kd_VendorPatch :: int
  kd_BootPatch :: int

definition decodeInt :: "bytes \<Rightarrow> int option" where
  "decodeInt b = map_option fst (field_int b)"

definition app_entry :: "attestationApplicationID \<Rightarrow> KeyDescription \<Rightarrow> KeyDescription" where
  "app_entry aaid out =
     (let out = (case aa_PackageInfos aaid of
                   [] \<Rightarrow> out
                 | (name, ver) # _ \<Rightarrow> out\<lparr>kd_Package := string_of_bytes name, kd_PackageVersion := ver\<rparr>)
      in out\<lparr>kd_SignatureDigests := kd_SignatureDigests out @ aa_SignatureDigests aaid\<rparr>)"

text \<open>One entry of an authorization list: the body of the switch in \<^verbatim>\<open>walkAuthList\<close>.\<close>

definition auth_entry :: "bool \<Rightarrow> RawValue \<Rightarrow> KeyDescription \<Rightarrow> KeyDescription option" where
  "auth_entry tee rv out =
     (if rv_Tag rv = tagRootOfTrust then
        (if \<not> tee then Some out
         else do {
           rot \<leftarrow> unmarshal_rootOfTrust (rv_Bytes rv);
           Some (out\<lparr>kd_HasRootOfTrust := True, kd_DeviceLocked := rt_DeviceLocked rot,
                     kd_VerifiedBootState := rt_VerifiedBootState rot\<rparr>) })
      else if rv_Tag rv = tagAttestationAppID then
        do {
          (inner, _) \<leftarrow> parse_raw (rv_Bytes rv);
          aaid \<leftarrow> unmarshal_appID (rv_Bytes inner);
          Some (app_entry aaid out) }
      else if rv_Tag rv = tagOSVersion then do { v \<leftarrow> decodeInt (rv_Bytes rv); Some (out\<lparr>kd_OSVersion := v\<rparr>) }
      else if rv_Tag rv = tagPatchLevel then do { v \<leftarrow> decodeInt (rv_Bytes rv); Some (out\<lparr>kd_OSPatch := v\<rparr>) }
      else if rv_Tag rv = tagVendorPatch then do { v \<leftarrow> decodeInt (rv_Bytes rv); Some (out\<lparr>kd_VendorPatch := v\<rparr>) }
      else if rv_Tag rv = tagBootPatch then do { v \<leftarrow> decodeInt (rv_Bytes rv); Some (out\<lparr>kd_BootPatch := v\<rparr>) }
      else Some out)"

function walkAuthList :: "bytes \<Rightarrow> KeyDescription \<Rightarrow> bool \<Rightarrow> KeyDescription option" where
  "walkAuthList rest out tee =
     (if rest = [] then Some out
      else case parse_raw rest of
        None \<Rightarrow> None
      | Some (rv, rest') \<Rightarrow>
          (case auth_entry tee rv out of None \<Rightarrow> None | Some out' \<Rightarrow> walkAuthList rest' out' tee))"
  by pat_completeness auto
termination
  by (relation "measure (\<lambda>(rest, out, tee). length rest)") (auto dest: parse_raw_shorter)

declare walkAuthList.simps [simp del]

definition attest_extension :: "attest_cert \<Rightarrow> bytes option" where
  "attest_extension leaf = map_option snd (find (\<lambda>e. fst e = attestOID) (ac_Extensions leaf))"

definition ParseKeyDescription :: "attest_cert \<Rightarrow> KeyDescription option" where
  "ParseKeyDescription leaf = do {
     raw \<leftarrow> attest_extension leaf;
     kd \<leftarrow> unmarshal_keyDescription raw;
     let out = \<lparr>kd_AttestationVersion = rk_AttestationVersion kd, kd_KeymasterVersion = rk_KeymasterVersion kd,
                kd_SecurityLevel = rk_AttestationSecurityLevel kd, kd_Challenge = rk_AttestationChallenge kd,
                kd_Package = [], kd_PackageVersion = 0, kd_SignatureDigests = [], kd_DeviceLocked = False,
                kd_VerifiedBootState = 0, kd_HasRootOfTrust = False, kd_OSVersion = 0, kd_OSPatch = 0,
                kd_VendorPatch = 0, kd_BootPatch = 0\<rparr>;
     out \<leftarrow> walkAuthList (rk_SoftwareEnforced kd) out False;
     walkAuthList (rk_TeeEnforced kd) out True }"

subsection \<open>Roots, revocation status, signers\<close>

text \<open>A fetch gives the response body or fails; the pool and the JSON decoders are arguments.\<close>

definition fetch_roots :: "(bytes \<Rightarrow> string list option) \<Rightarrow> ('p \<Rightarrow> string \<Rightarrow> 'p option) \<Rightarrow> 'p \<Rightarrow> bytes option \<Rightarrow> 'p option" where
  "fetch_roots unmarshal AppendCertsFromPEM NewCertPool body = do {
     b \<leftarrow> body;
     pems \<leftarrow> unmarshal b;
     if pems = [] then None
     else fold (\<lambda>p pool. Option.bind pool (\<lambda>pl. AppendCertsFromPEM pl p)) pems (Some NewCertPool) }"

definition NewRootSet :: "'p \<Rightarrow> 'p option \<Rightarrow> 'p option" where
  "NewRootSet NewCertPool fetched = (case fetched of None \<Rightarrow> Some NewCertPool | Some pool \<Rightarrow> Some pool)"

definition refresh_snapshot :: "'x option \<Rightarrow> 'x option \<Rightarrow> 'x option" where
  "refresh_snapshot fetched old = (case fetched of Some x \<Rightarrow> Some x | None \<Rightarrow> old)"

definition trimHexPrefix :: "string \<Rightarrow> string" where
  "trimHexPrefix s =
     (case s of a # b # r \<Rightarrow> if a = CHR ''0'' \<and> (b = CHR ''x'' \<or> b = CHR ''X'') then r else s | _ \<Rightarrow> s)"

definition in_range :: "char \<Rightarrow> char \<Rightarrow> char \<Rightarrow> bool" where
  "in_range a b c \<longleftrightarrow> (of_char a :: nat) \<le> of_char c \<and> (of_char c :: nat) \<le> of_char b"

text \<open>Lower-case hexadecimal digits; everything else is dropped, a rune above 127 with all its bytes.\<close>

definition normalizeSerial :: "string \<Rightarrow> string" where
  "normalizeSerial s =
     concat (map (\<lambda>c. if in_range CHR ''A'' CHR ''F'' c then [lower_char c]
                      else if in_range CHR ''0'' CHR ''9'' c \<or> in_range CHR ''a'' CHR ''f'' c then [c] else [])
       (trimHexPrefix s))"

record statusSnapshot =
  ss_entries :: "(string \<times> string) list"
  ss_fetchedAt :: int

definition fetch_status :: "(bytes \<Rightarrow> (string \<times> string) list option) \<Rightarrow> bytes option \<Rightarrow> int \<Rightarrow> statusSnapshot option" where
  "fetch_status unmarshal body now = do {
     b \<leftarrow> body;
     es \<leftarrow> unmarshal b;
     Some \<lparr>ss_entries = map (apfst normalizeSerial) es, ss_fetchedAt = now\<rparr> }"

definition Revoked :: "statusSnapshot option \<Rightarrow> string \<Rightarrow> bool" where
  "Revoked snap serialHex =
     (case snap of None \<Rightarrow> True | Some s \<Rightarrow> normalizeSerial serialHex \<in> fst ` set (ss_entries s))"

definition FetchedAt :: "statusSnapshot option \<Rightarrow> int" where
  "FetchedAt snap = (case snap of None \<Rightarrow> - zero_time | Some s \<Rightarrow> ss_fetchedAt s)"

text \<open>The allowlist file: one hexadecimal digest a line, \<^verbatim>\<open>#\<close> comments. The scanner refuses a line of 64 KiB or more.
  Trimming a line with bytes above 127 goes through \<open>uni\<close>. Lower-casing is written out for ASCII: a line with other bytes is no digest.\<close>

definition newline :: char where "newline = char_of (10 :: nat)"
definition carriage :: char where "carriage = char_of (13 :: nat)"

fun scan_lines :: "string \<Rightarrow> string list" where
  "scan_lines s =
     (if s = [] then []
      else let l = takeWhile (\<lambda>c. c \<noteq> newline) s in l # scan_lines (drop (Suc (length l)) s))"

declare scan_lines.simps [simp del]

definition dropCR :: "string \<Rightarrow> string" where
  "dropCR l = (if l \<noteq> [] \<and> last l = carriage then butlast l else l)"

definition maxScanTokenSize :: int where "maxScanTokenSize = 65536"

definition hex_value :: "char \<Rightarrow> nat option" where
  "hex_value c =
     (if in_range CHR ''0'' CHR ''9'' c then Some (of_char c - 48)
      else if in_range CHR ''a'' CHR ''f'' c then Some (of_char c - 87)
      else if in_range CHR ''A'' CHR ''F'' c then Some (of_char c - 55) else None)"

fun hex_DecodeString :: "string \<Rightarrow> bytes option" where
  "hex_DecodeString [] = Some []"
| "hex_DecodeString [c] = None"
| "hex_DecodeString (a # b # s) = do {
     h \<leftarrow> hex_value a; l \<leftarrow> hex_value b; bs \<leftarrow> hex_DecodeString s; Some (word_of_nat (16 * h + l) # bs) }"

definition digest_line :: "(string \<Rightarrow> string) \<Rightarrow> string \<Rightarrow> string" where
  "digest_line uni raw = (let line = TrimSpace uni raw in
     if CHR ''#'' \<in> set line then TrimSpace uni (takeWhile (\<lambda>c. c \<noteq> CHR ''#'') line) else line)"

fun parse_digest_lines :: "(string \<Rightarrow> string) \<Rightarrow> string list \<Rightarrow> string list option" where
  "parse_digest_lines uni [] = Some []"
| "parse_digest_lines uni (l # ls) =
     (if int (length l) \<ge> maxScanTokenSize then None
      else let line = map lower_char (digest_line uni (dropCR l)) in
        if line = [] then parse_digest_lines uni ls
        else if hex_DecodeString line = None then None
        else map_option ((#) line) (parse_digest_lines uni ls))"

definition parseDigests :: "(string \<Rightarrow> string) \<Rightarrow> string \<Rightarrow> string list option" where
  "parseDigests uni data = parse_digest_lines uni (scan_lines data)"

record SignerAllowlist =
  sa_set :: "string list option"
  sa_mtime :: int

text \<open>\<^verbatim>\<open>reload\<close> with the outcomes of \<^verbatim>\<open>os.Stat\<close> and \<^verbatim>\<open>os.ReadFile\<close>.\<close>

definition reload :: "(string \<Rightarrow> string) \<Rightarrow> int option \<Rightarrow> string option \<Rightarrow> SignerAllowlist \<Rightarrow> bool \<times> SignerAllowlist" where
  "reload uni stat file a =
     (case stat of
        None \<Rightarrow> (False, a)
      | Some mtime \<Rightarrow>
          (case Option.bind file (parseDigests uni) of
             None \<Rightarrow> (False, a)
           | Some ds \<Rightarrow> (True, a\<lparr>sa_set := Some ds, sa_mtime := mtime\<rparr>)))"

definition LoadSignerAllowlist :: "(string \<Rightarrow> string) \<Rightarrow> int option \<Rightarrow> string option \<Rightarrow> SignerAllowlist option" where
  "LoadSignerAllowlist uni stat file =
     (case reload uni stat file \<lparr>sa_set = None, sa_mtime = 0\<rparr> of (True, a) \<Rightarrow> Some a | _ \<Rightarrow> None)"

definition Allowed :: "SignerAllowlist \<Rightarrow> string \<Rightarrow> bool" where
  "Allowed a digestHex \<longleftrightarrow> (case sa_set a of None \<Rightarrow> False | Some ds \<Rightarrow> map lower_char digestHex \<in> set ds)"

text \<open>One tick of \<^verbatim>\<open>Watch\<close>: the first stat decides whether to reload, which stats again.\<close>

definition watch_signers :: "(string \<Rightarrow> string) \<Rightarrow> int option \<Rightarrow> int option \<Rightarrow> string option \<Rightarrow> SignerAllowlist \<Rightarrow> SignerAllowlist" where
  "watch_signers uni stat stat2 file a =
     (case stat of
        None \<Rightarrow> a
      | Some mtime \<Rightarrow> if mtime \<noteq> sa_mtime a then snd (reload uni stat2 file a) else a)"

subsection \<open>The seven points\<close>

datatype attest_err =
    ErrChainUntrusted | ErrChallengeMismatch | ErrSignerNotAllowed | ErrSecurityLevel | ErrBootState
  | ErrDeviceUnlocked | ErrRevoked | ErrStatusStale | ErrEmptyChain

record DeviceInfo =
  dv_OSVersion :: int
  dv_OSPatch :: int
  dv_VendorPatch :: int
  dv_BootPatch :: int
  dv_AttestationVersion :: int
  dv_KeymintVersion :: int
  dv_SecurityLevel :: string

record attest_result =
  ar_Package :: string
  ar_Device :: DeviceInfo
  ar_LeafPublicKey :: "public_key option"

record 'p verifier =
  vf_roots :: "'p option"
  vf_status :: "statusSnapshot option"
  vf_signers :: SignerAllowlist
  vf_maxStale :: duration

definition securityLevelString :: "int \<Rightarrow> string" where
  "securityLevelString level =
     (if level = SecurityStrongBox then ''strongbox''
      else if level = SecurityTrustedEnvironment then ''tee'' else ''software'')"

definition bytesEqualConst :: "bytes \<Rightarrow> bytes \<Rightarrow> bool" where
  "bytesEqualConst a b \<longleftrightarrow> a \<noteq> [] \<and> b \<noteq> [] \<and> a = b"

definition signerAllowed :: "SignerAllowlist \<Rightarrow> bytes list \<Rightarrow> bool" where
  "signerAllowed a digests \<longleftrightarrow> list_ex (\<lambda>d. Allowed a (hex_EncodeToString d)) digests"

definition Verify ::
  "('p \<Rightarrow> attest_cert list \<Rightarrow> attest_cert \<Rightarrow> int \<Rightarrow> bool) \<Rightarrow> 'p verifier \<Rightarrow> attest_cert list \<Rightarrow> bytes \<Rightarrow> int
   \<Rightarrow> attest_err + attest_result" where
  "Verify path_ok v chain nonce now =
     (case chain of
        [] \<Rightarrow> Inl ErrEmptyChain
      | leaf # inters \<Rightarrow>
          if \<not> distinct (map ac_Raw chain) then Inl ErrChainUntrusted
          else case vf_roots v of
            None \<Rightarrow> Inl ErrChainUntrusted
          | Some roots \<Rightarrow>
              if \<not> path_ok roots inters leaf now then Inl ErrChainUntrusted
              else case ParseKeyDescription leaf of
                None \<Rightarrow> Inl ErrChainUntrusted
              | Some kd \<Rightarrow>
                  if \<not> bytesEqualConst (kd_Challenge kd) nonce then Inl ErrChallengeMismatch
                  else if \<not> signerAllowed (vf_signers v) (kd_SignatureDigests kd) then Inl ErrSignerNotAllowed
                  else if kd_SecurityLevel kd < SecurityTrustedEnvironment then Inl ErrSecurityLevel
                  else if \<not> kd_HasRootOfTrust kd then Inl ErrBootState
                  else if kd_VerifiedBootState kd \<noteq> BootVerified then Inl ErrBootState
                  else if \<not> kd_DeviceLocked kd then Inl ErrDeviceUnlocked
                  else if FetchedAt (vf_status v) = - zero_time \<or> now - FetchedAt (vf_status v) > vf_maxStale v
                  then Inl ErrStatusStale
                  else if list_ex (\<lambda>c. Revoked (vf_status v) (ac_SerialHex c)) chain then Inl ErrRevoked
                  else Inr \<lparr>ar_Package = kd_Package kd,
                            ar_Device = \<lparr>dv_OSVersion = kd_OSVersion kd, dv_OSPatch = kd_OSPatch kd,
                              dv_VendorPatch = kd_VendorPatch kd, dv_BootPatch = kd_BootPatch kd,
                              dv_AttestationVersion = kd_AttestationVersion kd, dv_KeymintVersion = kd_KeymasterVersion kd,
                              dv_SecurityLevel = securityLevelString (kd_SecurityLevel kd)\<rparr>,
                            ar_LeafPublicKey = ac_PublicKey leaf\<rparr>)"

subsection \<open>What the walk reads\<close>

text \<open>The entries of an authorization list, and the fields they give: the last root of trust, all signer digests.\<close>

definition auth_entries :: "bytes \<Rightarrow> RawValue list option" where
  "auth_entries = parse_elems parse_raw"

definition entry_digests :: "RawValue \<Rightarrow> bytes list" where
  "entry_digests rv =
     (if rv_Tag rv = tagAttestationAppID then
        (case Option.bind (parse_raw (rv_Bytes rv)) (\<lambda>(inner, _). unmarshal_appID (rv_Bytes inner)) of
           None \<Rightarrow> [] | Some aaid \<Rightarrow> aa_SignatureDigests aaid)
      else [])"

definition list_digests :: "bytes \<Rightarrow> bytes list" where
  "list_digests raw = (case auth_entries raw of None \<Rightarrow> [] | Some es \<Rightarrow> concat (map entry_digests es))"

definition list_root :: "bytes \<Rightarrow> rootOfTrust option" where
  "list_root raw = Option.bind (auth_entries raw) (\<lambda>es.
     case filter (\<lambda>rv. rv_Tag rv = tagRootOfTrust) es of
       [] \<Rightarrow> None | rs \<Rightarrow> unmarshal_rootOfTrust (rv_Bytes (last rs)))"

fun walk_entries :: "bool \<Rightarrow> RawValue list \<Rightarrow> KeyDescription \<Rightarrow> KeyDescription option" where
  "walk_entries tee [] out = Some out"
| "walk_entries tee (rv # es) out = Option.bind (auth_entry tee rv out) (walk_entries tee es)"

lemma auth_entries_Nil: "auth_entries [] = Some []"
  by (simp add: auth_entries_def parse_elems.simps)

lemma auth_entries_step:
  assumes "raw \<noteq> []"
  shows "auth_entries raw = (case parse_raw raw of None \<Rightarrow> None | Some (rv, r) \<Rightarrow> map_option ((#) rv) (auth_entries r))"
  using assms parse_raw_shorter [of raw] unfolding auth_entries_def
  by (subst parse_elems.simps) (auto split: option.split)

lemma walkAuthList_Some:
  "walkAuthList raw out tee = Some out' \<longleftrightarrow> (\<exists>es. auth_entries raw = Some es \<and> walk_entries tee es out = Some out')"
proof (induction raw out tee rule: walkAuthList.induct)
  case (1 raw out tee)
  show ?case
  proof (cases "raw = []")
    case True
    then show ?thesis by (simp add: walkAuthList.simps [of "[]"] auth_entries_Nil)
  next
    case False
    show ?thesis
    proof (cases "parse_raw raw")
      case None
      then show ?thesis using False by (simp add: walkAuthList.simps [of raw] auth_entries_step)
    next
      case (Some p)
      obtain rv r where p: "p = (rv, r)" by (cases p)
      show ?thesis
      proof (cases "auth_entry tee rv out")
        case None
        then show ?thesis using False Some p by (auto simp: walkAuthList.simps [of raw] auth_entries_step)
      next
        case (Some o1)
        then show ?thesis using "1.IH" [OF False \<open>parse_raw raw = Some p\<close> p [symmetric] Some] False \<open>parse_raw raw = Some p\<close> p
          by (auto simp: walkAuthList.simps [of raw] auth_entries_step)
      qed
    qed
  qed
qed

text \<open>What an entry leaves alone, and what it adds.\<close>

lemma app_entry_simps [simp]:
  "kd_Challenge (app_entry a out) = kd_Challenge out" "kd_SecurityLevel (app_entry a out) = kd_SecurityLevel out"
  "kd_SignatureDigests (app_entry a out) = kd_SignatureDigests out @ aa_SignatureDigests a"
  "kd_HasRootOfTrust (app_entry a out) = kd_HasRootOfTrust out" "kd_DeviceLocked (app_entry a out) = kd_DeviceLocked out"
  "kd_VerifiedBootState (app_entry a out) = kd_VerifiedBootState out"
  by (simp_all add: app_entry_def split: list.split prod.split)

lemma auth_entry_fields:
  assumes "auth_entry tee rv out = Some out'"
  shows "kd_Challenge out' = kd_Challenge out" "kd_SecurityLevel out' = kd_SecurityLevel out"
    and "kd_SignatureDigests out' = kd_SignatureDigests out @ entry_digests rv"
  using assms unfolding auth_entry_def entry_digests_def
  by (auto simp: auth_tags bind_eq_Some_conv split: if_splits)

lemma auth_entry_root:
  assumes "auth_entry tee rv out = Some out'" "\<not> (tee \<and> rv_Tag rv = tagRootOfTrust)"
  shows "kd_HasRootOfTrust out' = kd_HasRootOfTrust out" "kd_DeviceLocked out' = kd_DeviceLocked out"
    and "kd_VerifiedBootState out' = kd_VerifiedBootState out"
  using assms unfolding auth_entry_def
  by (auto simp: auth_tags bind_eq_Some_conv split: if_splits)

lemma auth_entry_tee_root:
  assumes "auth_entry True rv out = Some out'" "rv_Tag rv = tagRootOfTrust"
  obtains rot where "unmarshal_rootOfTrust (rv_Bytes rv) = Some rot" "kd_HasRootOfTrust out'"
    "kd_DeviceLocked out' = rt_DeviceLocked rot" "kd_VerifiedBootState out' = rt_VerifiedBootState rot"
  using assms unfolding auth_entry_def by (auto simp: bind_eq_Some_conv)

lemma walk_entries_fields:
  "walk_entries tee es out = Some out' \<Longrightarrow>
     kd_Challenge out' = kd_Challenge out \<and> kd_SecurityLevel out' = kd_SecurityLevel out
     \<and> kd_SignatureDigests out' = kd_SignatureDigests out @ concat (map entry_digests es)"
proof (induction tee es out rule: walk_entries.induct)
  case (2 tee rv es out)
  then obtain o1 where o1: "auth_entry tee rv out = Some o1" and w: "walk_entries tee es o1 = Some out'"
    by (auto simp: bind_eq_Some_conv)
  show ?case using "2.IH" [OF o1 w] auth_entry_fields [OF o1] by simp
qed simp

definition root_state :: "KeyDescription \<Rightarrow> rootOfTrust option" where
  "root_state kd = (if kd_HasRootOfTrust kd
     then Some \<lparr>rt_DeviceLocked = kd_DeviceLocked kd, rt_VerifiedBootState = kd_VerifiedBootState kd\<rparr> else None)"

lemma walk_entries_root:
  "walk_entries tee es out = Some out' \<Longrightarrow>
     root_state out' = (if tee \<and> filter (\<lambda>rv. rv_Tag rv = tagRootOfTrust) es \<noteq> []
       then unmarshal_rootOfTrust (rv_Bytes (last (filter (\<lambda>rv. rv_Tag rv = tagRootOfTrust) es))) else root_state out)"
proof (induction tee es out rule: walk_entries.induct)
  case (2 tee rv es out)
  then obtain o1 where o1: "auth_entry tee rv out = Some o1" and w: "walk_entries tee es o1 = Some out'"
    by (auto simp: bind_eq_Some_conv)
  have IH: "root_state out' = (if tee \<and> filter (\<lambda>rv. rv_Tag rv = tagRootOfTrust) es \<noteq> []
       then unmarshal_rootOfTrust (rv_Bytes (last (filter (\<lambda>rv. rv_Tag rv = tagRootOfTrust) es))) else root_state o1)"
    using "2.IH" [OF o1 w] .
  show ?case
  proof (cases "tee \<and> rv_Tag rv = tagRootOfTrust")
    case True
    then have tag: "rv_Tag rv = tagRootOfTrust" and o1': "auth_entry True rv out = Some o1" using o1 by simp_all
    obtain rot where "unmarshal_rootOfTrust (rv_Bytes rv) = Some rot" "kd_HasRootOfTrust o1"
      "kd_DeviceLocked o1 = rt_DeviceLocked rot" "kd_VerifiedBootState o1 = rt_VerifiedBootState rot"
      by (rule auth_entry_tee_root [OF o1' tag])
    then have "root_state o1 = unmarshal_rootOfTrust (rv_Bytes rv)" by (simp add: root_state_def)
    then show ?thesis using IH True by simp
  next
    case False
    then have "root_state o1 = root_state out" using auth_entry_root [OF o1] by (auto simp: root_state_def)
    then show ?thesis using IH False by auto
  qed
qed simp

lemma ParseKeyDescription_Some:
  assumes "ParseKeyDescription leaf = Some kd"
  obtains raw k where "attest_extension leaf = Some raw" "unmarshal_keyDescription raw = Some k"
    "kd_Challenge kd = rk_AttestationChallenge k" "kd_SecurityLevel kd = rk_AttestationSecurityLevel k"
    "kd_SignatureDigests kd = list_digests (rk_SoftwareEnforced k) @ list_digests (rk_TeeEnforced k)"
    "root_state kd = list_root (rk_TeeEnforced k)"
proof -
  obtain raw k where raw: "attest_extension leaf = Some raw" and k: "unmarshal_keyDescription raw = Some k"
    using assms by (auto simp: ParseKeyDescription_def bind_eq_Some_conv)
  define out where "out = \<lparr>kd_AttestationVersion = rk_AttestationVersion k, kd_KeymasterVersion = rk_KeymasterVersion k,
    kd_SecurityLevel = rk_AttestationSecurityLevel k, kd_Challenge = rk_AttestationChallenge k,
    kd_Package = [], kd_PackageVersion = 0, kd_SignatureDigests = [], kd_DeviceLocked = False,
    kd_VerifiedBootState = 0, kd_HasRootOfTrust = False, kd_OSVersion = 0, kd_OSPatch = 0, kd_VendorPatch = 0, kd_BootPatch = 0\<rparr>"
  have "Option.bind (walkAuthList (rk_SoftwareEnforced k) out False) (\<lambda>out. walkAuthList (rk_TeeEnforced k) out True) = Some kd"
    using assms by (simp add: ParseKeyDescription_def raw k out_def)
  then obtain sw where "walkAuthList (rk_SoftwareEnforced k) out False = Some sw" "walkAuthList (rk_TeeEnforced k) sw True = Some kd"
    by (auto simp: bind_eq_Some_conv)
  then obtain es1 es2 where e1: "auth_entries (rk_SoftwareEnforced k) = Some es1" and e2: "auth_entries (rk_TeeEnforced k) = Some es2"
    and w1: "walk_entries False es1 out = Some sw" and w2: "walk_entries True es2 sw = Some kd"
    by (auto simp: walkAuthList_Some)
  have o: "kd_Challenge out = rk_AttestationChallenge k" "kd_SecurityLevel out = rk_AttestationSecurityLevel k"
    "kd_SignatureDigests out = []" "root_state out = None" by (simp_all add: out_def root_state_def)
  show thesis
  proof (rule that [OF raw k])
    show "root_state kd = list_root (rk_TeeEnforced k)"
      using walk_entries_root [OF w1] walk_entries_root [OF w2] o e2 by (auto simp: list_root_def split: list.split)
  qed (use walk_entries_fields [OF w1] walk_entries_fields [OF w2] o e1 e2 in \<open>simp_all add: list_digests_def\<close>)
qed

text \<open>
  C11. Attestation is accepted exactly on the seven points. The verifier accepts a chain for a nonce if and only if the chain has
  no repeated certificate, its leaf validates to the current root pool, the KeyDescription extension of the leaf decodes and its
  challenge is the non-empty nonce, some signer digest of its application ids is on the allowlist, the security level is at least
  that of a trusted environment, the last root of trust of the list the secure hardware enforces (never the software list) says
  locked and verified boot, the revocation list was fetched and is recent enough, and it lists no serial of the chain.
\<close>

theorem Verify_seven_points:
  "(\<exists>r. Verify path_ok v chain nonce now = Inr r) \<longleftrightarrow>
     (\<exists>leaf inters roots raw k s. chain = leaf # inters \<and> distinct (map ac_Raw chain)
        \<and> vf_roots v = Some roots \<and> path_ok roots inters leaf now
        \<and> attest_extension leaf = Some raw \<and> unmarshal_keyDescription raw = Some k \<and> ParseKeyDescription leaf \<noteq> None
        \<and> rk_AttestationChallenge k = nonce \<and> nonce \<noteq> []
        \<and> (\<exists>d \<in> set (list_digests (rk_SoftwareEnforced k)) \<union> set (list_digests (rk_TeeEnforced k)).
             Allowed (vf_signers v) (hex_EncodeToString d))
        \<and> rk_AttestationSecurityLevel k \<ge> SecurityTrustedEnvironment
        \<and> list_root (rk_TeeEnforced k) = Some \<lparr>rt_DeviceLocked = True, rt_VerifiedBootState = BootVerified\<rparr>
        \<and> vf_status v = Some s \<and> ss_fetchedAt s \<noteq> - zero_time \<and> now - ss_fetchedAt s \<le> vf_maxStale v
        \<and> (\<forall>c \<in> set chain. normalizeSerial (ac_SerialHex c) \<notin> fst ` set (ss_entries s)))"
  (is "?L \<longleftrightarrow> ?R")
proof (cases "\<exists>leaf inters kd. chain = leaf # inters \<and> ParseKeyDescription leaf = Some kd")
  case True
  then obtain leaf inters kd where c: "chain = leaf # inters" and kd: "ParseKeyDescription leaf = Some kd" by blast
  obtain raw k where k: "attest_extension leaf = Some raw" "unmarshal_keyDescription raw = Some k"
    "kd_Challenge kd = rk_AttestationChallenge k" "kd_SecurityLevel kd = rk_AttestationSecurityLevel k"
    "kd_SignatureDigests kd = list_digests (rk_SoftwareEnforced k) @ list_digests (rk_TeeEnforced k)"
    and root: "root_state kd = list_root (rk_TeeEnforced k)" by (rule ParseKeyDescription_Some [OF kd])
  have r: "list_root (rk_TeeEnforced k) = Some \<lparr>rt_DeviceLocked = True, rt_VerifiedBootState = BootVerified\<rparr>
      \<longleftrightarrow> kd_HasRootOfTrust kd \<and> kd_VerifiedBootState kd = BootVerified \<and> kd_DeviceLocked kd"
    using root [symmetric] by (auto simp: root_state_def)
  show ?thesis
  proof (cases "vf_roots v"; cases "vf_status v")
    fix roots s assume a: "vf_roots v = Some roots" "vf_status v = Some s"
    let ?C = "distinct (map ac_Raw chain) \<and> path_ok roots inters leaf now \<and> rk_AttestationChallenge k = nonce \<and> nonce \<noteq> []
      \<and> (\<exists>d \<in> set (list_digests (rk_SoftwareEnforced k)) \<union> set (list_digests (rk_TeeEnforced k)). Allowed (vf_signers v) (hex_EncodeToString d))
      \<and> rk_AttestationSecurityLevel k \<ge> SecurityTrustedEnvironment
      \<and> list_root (rk_TeeEnforced k) = Some \<lparr>rt_DeviceLocked = True, rt_VerifiedBootState = BootVerified\<rparr>
      \<and> ss_fetchedAt s \<noteq> - zero_time \<and> now - ss_fetchedAt s \<le> vf_maxStale v
      \<and> (\<forall>c \<in> set chain. normalizeSerial (ac_SerialHex c) \<notin> fst ` set (ss_entries s))"
    have cm: "bytesEqualConst (kd_Challenge kd) nonce \<longleftrightarrow> rk_AttestationChallenge k = nonce \<and> nonce \<noteq> []"
      by (auto simp: bytesEqualConst_def k)
    have sg: "signerAllowed (vf_signers v) (kd_SignatureDigests kd) \<longleftrightarrow> (\<exists>d \<in> set (list_digests (rk_SoftwareEnforced k))
        \<union> set (list_digests (rk_TeeEnforced k)). Allowed (vf_signers v) (hex_EncodeToString d))"
      by (auto simp: signerAllowed_def list_ex_iff k)
    have rv: "list_ex (\<lambda>c. Revoked (vf_status v) (ac_SerialHex c)) chain
        \<longleftrightarrow> \<not> (\<forall>c \<in> set chain. normalizeSerial (ac_SerialHex c) \<notin> fst ` set (ss_entries s))"
      by (simp add: list_ex_iff Revoked_def a)
    have "?L \<longleftrightarrow> ?C"
      unfolding Verify_def c list.case a option.case kd cm sg [unfolded c] r rv [unfolded c a]
      by (simp add: FetchedAt_def k not_less)
    moreover have "?R \<longleftrightarrow> ?C" using c a k kd by auto
    ultimately show ?thesis by simp
  qed (auto simp: c Verify_def FetchedAt_def kd)
next
  case False
  have "\<not> ?L"
  proof (cases chain)
    case (Cons leaf inters)
    then have "ParseKeyDescription leaf = None" using False by (cases "ParseKeyDescription leaf") auto
    then show ?thesis by (simp add: Cons Verify_def split: option.split)
  qed (simp add: Verify_def)
  moreover have "\<not> ?R" using False by blast
  ultimately show ?thesis by blast
qed

definition demo_key_description :: bytes where
  "demo_key_description =
     [0x30, 0x3e, 0x02, 0x01, 0x04, 0x0a, 0x01, 0x01, 0x02, 0x01, 0x29, 0x0a, 0x01, 0x01, 0x04, 0x03, 0x01, 0x02, 0x03, 0x04, 0x00,
      0x30, 0x18, 0xbf, 0x85, 0x45, 0x14, 0x04, 0x12, 0x30, 0x10, 0x31, 0x08, 0x30, 0x06, 0x04, 0x01, 0x61, 0x02, 0x01, 0x01,
      0x31, 0x04, 0x04, 0x02, 0xab, 0xcd,
      0x30, 0x0f, 0xbf, 0x85, 0x40, 0x0b, 0x30, 0x09, 0x04, 0x01, 0x00, 0x01, 0x01, 0xff, 0x0a, 0x01, 0x00]"

definition demo_leaf :: attest_cert where
  "demo_leaf = \<lparr>ac_Raw = [1], ac_SerialHex = ''1f'', ac_Extensions = [([2, 5], [0]), (attestOID, demo_key_description)],
     ac_PublicKey = Some (EcdsaKey ''P-256'' [7])\<rparr>"

definition demo_verifier :: "unit verifier" where
  "demo_verifier = \<lparr>vf_roots = Some (), vf_status = Some \<lparr>ss_entries = [(''2a'', ''REVOKED'')], ss_fetchedAt = 5\<rparr>,
     vf_signers = \<lparr>sa_set = Some [''abcd''], sa_mtime = 0\<rparr>, vf_maxStale = 10\<rparr>"

lemma demo_verify:
  "case Verify (\<lambda>_ _ _ _. True) demo_verifier [demo_leaf] [1, 2, 3] 7 of
     Inr r \<Rightarrow> ar_Package r = ''a'' \<and> ar_LeafPublicKey r = Some (EcdsaKey ''P-256'' [7]) | Inl _ \<Rightarrow> False"
  by code_simp

lemma demo_extension: "attest_extension demo_leaf = Some demo_key_description"
  by code_simp

theorem Verify_seven_points_witness:
  "\<exists>k. unmarshal_keyDescription demo_key_description = Some k
     \<and> list_root (rk_TeeEnforced k) = Some \<lparr>rt_DeviceLocked = True, rt_VerifiedBootState = BootVerified\<rparr>"
proof -
  have "\<exists>r. Verify (\<lambda>_ _ _ _. True) demo_verifier [demo_leaf] [1, 2, 3] 7 = Inr r"
    using demo_verify by (auto split: sum.splits)
  then show ?thesis unfolding Verify_seven_points using demo_extension by auto
qed

end
