(* ===== verification/Enrollment.thy ===== *)
theory Enrollment
  imports Attestation Limiter
begin

text \<open>
  Attested enrollment and issuance (\<^verbatim>\<open>src/internal/enroll\<close>), with the name generator (\<^verbatim>\<open>src/internal/ca/name.go\<close>), identity
  signing (\<^verbatim>\<open>src/internal/ca/e2e.go\<close>), the registry record (\<^verbatim>\<open>src/internal/store/name_record.go\<close>) and the name validator
  (\<^verbatim>\<open>validNameFunc\<close> of \<^verbatim>\<open>src/internal/server/serve.go\<close>). The outside state holds Valkey, reached through the client, and the object
  store, reached through the three registry operations; the certificate chain behind \<^verbatim>\<open>PublicIssuer\<close>, the signature of a
  certificate and the key fingerprint are arguments. A clock reading, a random draw or a cancelled request is part of the
  \<open>io\<close> record of one call.
\<close>

subsection \<open>Names\<close>

definition base32_digit :: "nat \<Rightarrow> char" where
  "base32_digit n = ''ABCDEFGHIJKLMNOPQRSTUVWXYZ234567'' ! (n mod 32)"

definition byte_bits :: "byte \<Rightarrow> bool list" where
  "byte_bits b = map (\<lambda>i. odd (unat b div 2 ^ i)) (rev [0..<8])"

definition bits_val :: "bool list \<Rightarrow> nat" where
  "bits_val bs = foldl (\<lambda>n b. 2 * n + of_bool b) 0 bs"

fun base32_groups :: "bool list \<Rightarrow> string" where
  "base32_groups bs =
     (if bs = [] then []
      else base32_digit (bits_val (take 5 (bs @ replicate 4 False))) # base32_groups (drop 5 bs))"

declare base32_groups.simps [simp del]

text \<open>\<^verbatim>\<open>base32.StdEncoding\<close> without padding: groups of five bits, the last filled with zeros.\<close>

definition noPadBase32 :: "bytes \<Rightarrow> string" where
  "noPadBase32 bs = base32_groups (concat (map byte_bits bs))"

definition reserved :: "string list" where
  "reserved = [''enroll'', ''connect'', ''tunnel'', ''grafana'', ''prometheus'', ''alertmanager'', ''ntfy'', ''www'',
     ''api'', ''admin'']"

definition label_char :: "char \<Rightarrow> bool" where
  "label_char c \<longleftrightarrow> in_range CHR ''a'' CHR ''z'' c \<or> in_range CHR ''0'' CHR ''9'' c \<or> c = CHR ''-''"

definition labelRe :: "string \<Rightarrow> bool" where
  "labelRe s \<longleftrightarrow> s \<noteq> [] \<and> length s \<le> 63 \<and> list_all label_char s"

text \<open>\<^verbatim>\<open>strings.EqualFold\<close>: written out for ASCII; \<open>fold\<close> is Unicode folding for other strings.\<close>

definition EqualFold :: "(string \<Rightarrow> string \<Rightarrow> bool) \<Rightarrow> string \<Rightarrow> string \<Rightarrow> bool" where
  "EqualFold uni s t = (if is_ascii s \<and> is_ascii t then map lower_char s = map lower_char t else uni s t)"

definition isExtraReserved :: "(string \<Rightarrow> string \<Rightarrow> bool) \<Rightarrow> string \<Rightarrow> string list \<Rightarrow> bool" where
  "isExtraReserved uni name extra \<longleftrightarrow> list_ex (\<lambda>e. EqualFold uni name e) extra"

text \<open>
  \<^verbatim>\<open>generateName\<close> with the random source as a function from the attempt: at most eight draws, \<open>None\<close> when the source
  fails or every draw is refused.
\<close>

fun generate_attempts ::
  "(string \<Rightarrow> string \<Rightarrow> bool) \<Rightarrow> string \<Rightarrow> nat \<Rightarrow> (nat \<Rightarrow> bytes option) \<Rightarrow> string list \<Rightarrow> nat \<Rightarrow> nat \<Rightarrow> string option" where
  "generate_attempts uni prefix len rnd extra attempt 0 = None"
| "generate_attempts uni prefix len rnd extra attempt (Suc n) =
     (case rnd attempt of
        None \<Rightarrow> None
      | Some buf \<Rightarrow>
          let nbytes = (len * 5 + 7) div 8;
              enc = map lower_char (noPadBase32 (take nbytes buf));
              name = prefix @ take len enc
          in if length buf < nbytes then None
             else if length enc < len \<or> name \<in> set reserved \<or> isExtraReserved uni name extra \<or> \<not> labelRe name
             then generate_attempts uni prefix len rnd extra (Suc attempt) n
             else Some name)"

definition generateName ::
  "(string \<Rightarrow> string \<Rightarrow> bool) \<Rightarrow> string \<Rightarrow> nat \<Rightarrow> (nat \<Rightarrow> bytes option) \<Rightarrow> string list \<Rightarrow> string option" where
  "generateName uni prefix len rnd extra = generate_attempts uni prefix len rnd extra 0 8"

definition before :: "char \<Rightarrow> string \<Rightarrow> string" where
  "before c s = takeWhile (\<lambda>x. x \<noteq> c) s"

definition firstLabel :: "(string \<Rightarrow> string) \<Rightarrow> string \<Rightarrow> string" where
  "firstLabel uni host = ToLower uni (before (CHR ''.'') (before (CHR '':'') host))"

definition base32_lower :: "char \<Rightarrow> bool" where
  "base32_lower c \<longleftrightarrow> in_range CHR ''a'' CHR ''z'' c \<or> in_range CHR ''2'' CHR ''7'' c"

definition validNameFunc :: "(string \<Rightarrow> string) \<Rightarrow> string \<Rightarrow> nat \<Rightarrow> string \<Rightarrow> string \<Rightarrow> string \<Rightarrow> bool" where
  "validNameFunc uni prefix len enrollHost controlHost name \<longleftrightarrow>
     length name = length prefix + len \<and> take (length prefix) name = prefix
     \<and> name \<noteq> firstLabel uni enrollHost \<and> name \<noteq> firstLabel uni controlHost
     \<and> list_all base32_lower (drop (length prefix) name)"

subsection \<open>Registry records\<close>

record CertInfo =
  ci_CA :: string
  ci_Serial :: string
  ci_NotBefore :: int
  ci_NotAfter :: int
  ci_ARIID :: string

record CertRecord =
  cr_Serial :: string
  cr_NotBefore :: int
  cr_NotAfter :: int
  cr_ARIID :: string

record NameRecord =
  nr_Schema :: int
  nr_EnrolledAt :: int
  nr_LastRenewedAt :: int
  nr_IdentityKeyFP :: string
  nr_CA :: string
  nr_Cert :: CertRecord
  nr_Device :: DeviceInfo

definition SetCert :: "CertInfo \<Rightarrow> NameRecord \<Rightarrow> NameRecord" where
  "SetCert info r =
     r\<lparr>nr_CA := ci_CA info,
       nr_Cert := \<lparr>cr_Serial = ci_Serial info, cr_NotBefore = ci_NotBefore info, cr_NotAfter = ci_NotAfter info,
                   cr_ARIID = ci_ARIID info\<rparr>\<rparr>"

definition CertInfo_of :: "NameRecord \<Rightarrow> CertInfo" where
  "CertInfo_of r =
     \<lparr>ci_CA = nr_CA r, ci_Serial = cr_Serial (nr_Cert r), ci_NotBefore = cr_NotBefore (nr_Cert r),
      ci_NotAfter = cr_NotAfter (nr_Cert r), ci_ARIID = cr_ARIID (nr_Cert r)\<rparr>"

lemma CertInfo_SetCert [simp]: "CertInfo_of (SetCert info r) = info"
  by (simp add: CertInfo_of_def SetCert_def)

definition no_device :: DeviceInfo where
  "no_device = \<lparr>dv_OSVersion = 0, dv_OSPatch = 0, dv_VendorPatch = 0, dv_BootPatch = 0, dv_AttestationVersion = 0,
     dv_KeymintVersion = 0, dv_SecurityLevel = []\<rparr>"

definition no_cert :: CertRecord where
  "no_cert = \<lparr>cr_Serial = [], cr_NotBefore = - zero_time, cr_NotAfter = - zero_time, cr_ARIID = []\<rparr>"

datatype store_err = ErrNotFound | StoreErr string

subsection \<open>Requests and the service\<close>

text \<open>A certificate request as \<^verbatim>\<open>crypto/x509\<close> parsed it, with the outcome of its signature check.\<close>

record CSR =
  csr_CommonName :: string
  csr_DNSNames :: "string list"
  csr_IPAddresses :: "string list"
  csr_EmailAddresses :: "string list"
  csr_URIs :: "string list"
  csr_PublicKey :: "public_key option"
  csr_SignatureOK :: bool

record enroll_request =
  rq_Nonce :: bytes
  rq_AttestChainPEM :: bytes
  rq_AttestChain :: "attest_cert list"
  rq_IdentityCSR :: CSR
  rq_TLSCSR :: CSR

record enroll_result =
  rs_Name :: string
  rs_IdentityCert :: bytes
  rs_PublicCert :: bytes
  rs_CA :: string

record enroll_error =
  er_Reason :: string
  er_Retryable :: bool
  er_RetryAfter :: duration

abbreviation refused :: "string \<Rightarrow> enroll_error" where
  "refused why \<equiv> \<lparr>er_Reason = why, er_Retryable = False, er_RetryAfter = 0\<rparr>"

abbreviation retry_later :: "string \<Rightarrow> duration \<Rightarrow> enroll_error" where
  "retry_later why d \<equiv> \<lparr>er_Reason = why, er_Retryable = True, er_RetryAfter = d\<rparr>"

definition refusal :: "string \<Rightarrow> bool" where
  "refusal reason \<longleftrightarrow> reason \<notin> {''internal'', ''name_unavailable'', ''identity_sign_failed'', ''acme_rate_limited'',
     ''acme_transient'', ''acme_failed''}"

datatype sign_err = ErrUnsupportedKeyType | SignErr string

text \<open>\<^verbatim>\<open>IssuerClass\<close> and \<^verbatim>\<open>RetryAfter\<close> of a classified issuer error; \<open>None\<close> for any other error.\<close>

type_synonym issuer_err = "(string \<times> duration) option"

record RejectedEnrollment =
  re_TS :: int
  re_SrcIP :: string
  re_Reason :: string
  re_AttestChainPEM :: string
  re_ClaimedPackage :: string
  re_SignerDigestHex :: string
  re_NonceHex :: string

record 's service =
  sv_ex :: "'s client"
  sv_GetName :: "string \<Rightarrow> 's \<Rightarrow> (store_err + NameRecord) \<times> 's"
  sv_PutName :: "string \<Rightarrow> NameRecord \<Rightarrow> 's \<Rightarrow> bool \<times> 's"
  sv_DeleteName :: "string \<Rightarrow> 's \<Rightarrow> bool \<times> 's"
  sv_Verify :: "attest_cert list \<Rightarrow> bytes \<Rightarrow> int \<Rightarrow> attest_err + attest_result"
  sv_CreateCertificate :: "string \<Rightarrow> public_key \<Rightarrow> bytes option"
  sv_Obtain :: "CSR \<Rightarrow> string \<Rightarrow> 's \<Rightarrow> (issuer_err + bytes \<times> CertInfo) \<times> 's"
  sv_Renew :: "CSR \<Rightarrow> string \<Rightarrow> CertInfo \<Rightarrow> 's \<Rightarrow> (issuer_err + bytes \<times> CertInfo) \<times> 's"
  sv_ParseAddr :: "string \<Rightarrow> string option"
  sv_KeyFingerprint :: "public_key option \<Rightarrow> string option"
  sv_TunnelDomain :: string
  sv_IssuePerWeek :: int
  sv_EnrollHour :: int
  sv_EnrollMinute :: int
  sv_ClaimSettle :: duration
  sv_AttestOptional :: bool
  sv_Evidence :: bool

text \<open>The outside world, and what the recorder and the evidence store were given.\<close>

record 's enroll_state =
  en_out :: 's
  en_rejects :: "(string \<times> string \<times> string) list"
  en_attests :: "string list"
  en_renews :: "(string \<times> string) list"
  en_evidence :: "RejectedEnrollment list"
  en_results :: "string list"

definition en_reject :: "string \<Rightarrow> string \<Rightarrow> string \<Rightarrow> 's enroll_state \<Rightarrow> 's enroll_state" where
  "en_reject why name ip st = st\<lparr>en_rejects := en_rejects st @ [(why, name, ip)]\<rparr>"

text \<open>What one call meets: clock readings, random draws, and what happens to its context.\<close>

record enroll_io =
  io_now_minute :: int
  io_now_hour :: int
  io_now_verify :: int
  io_now_reject :: int
  io_now_claim :: "nat \<Rightarrow> int \<times> int"
  io_now_record :: int
  io_names :: "nat \<Rightarrow> string option"
  io_token :: string
  io_beats :: nat
  io_heartbeat_panicked :: bool
  io_cancelled :: bool

subsection \<open>Nonces\<close>

definition nonceTTL :: duration where "nonceTTL = 5 * Minute"

definition nonceKey :: "string \<Rightarrow> vkey" where "nonceKey nonce = ''enroll-nonce:'' @ nonce"

definition Nonce :: "'s service \<Rightarrow> bytes option \<Rightarrow> 's \<Rightarrow> bytes option \<times> 's" where
  "Nonce sv rnd s =
     (case rnd of
        None \<Rightarrow> (None, s)
      | Some nonce \<Rightarrow>
          (case do1 (sv_ex sv) (SET (nonceKey (hex_EncodeToString nonce)) ''1'' nonceTTL) s of
             (Inl e, s1) \<Rightarrow> (None, s1) | (Inr _, s1) \<Rightarrow> (Some nonce, s1)))"

definition consumeNonce :: "'s service \<Rightarrow> bytes \<Rightarrow> 's \<Rightarrow> (verr + bool) \<times> 's" where
  "consumeNonce sv nonce s =
     (case do1 (sv_ex sv) (DEL (nonceKey (hex_EncodeToString nonce))) s of
        (Inl e, s1) \<Rightarrow> (Inl e, s1)
      | (Inr (RInt n), s1) \<Rightarrow> (Inr (n = 1), s1)
      | (Inr _, s1) \<Rightarrow> (Inl (VErr ''reply''), s1))"

subsection \<open>Rejections and rate limits\<close>

definition attestReason :: "attest_err \<Rightarrow> string" where
  "attestReason e =
     (case e of
        ErrChainUntrusted \<Rightarrow> ''attest-untrusted'' | ErrChallengeMismatch \<Rightarrow> ''attest-challenge''
      | ErrSignerNotAllowed \<Rightarrow> ''attest-signer'' | ErrSecurityLevel \<Rightarrow> ''attest-security-level''
      | ErrBootState \<Rightarrow> ''attest-boot'' | ErrDeviceUnlocked \<Rightarrow> ''attest-device-unlocked''
      | ErrRevoked \<Rightarrow> ''attest-revoked'' | ErrStatusStale \<Rightarrow> ''attest-stale'' | ErrEmptyChain \<Rightarrow> ''attest-untrusted'')"

definition claimedIdentity :: "attest_cert list \<Rightarrow> string \<times> string" where
  "claimedIdentity chain =
     (case chain of
        [] \<Rightarrow> ([], [])
      | leaf # _ \<Rightarrow>
          (case ParseKeyDescription leaf of
             None \<Rightarrow> ([], [])
           | Some kd \<Rightarrow> (kd_Package kd,
               case kd_SignatureDigests kd of [] \<Rightarrow> [] | d # _ \<Rightarrow> hex_EncodeToString d)))"

definition recordRejection ::
  "'s service \<Rightarrow> int \<Rightarrow> string \<Rightarrow> string \<Rightarrow> string \<Rightarrow> enroll_request \<Rightarrow> 's enroll_state \<Rightarrow> 's enroll_state" where
  "recordRejection sv now ip name reason req st =
     (let st1 = en_reject reason name ip st; (pkg, digest) = claimedIdentity (rq_AttestChain req) in
      if sv_Evidence sv then
        st1\<lparr>en_evidence := en_evidence st1 @
          [\<lparr>re_TS = now, re_SrcIP = ip, re_Reason = reason, re_AttestChainPEM = string_of_bytes (rq_AttestChainPEM req),
            re_ClaimedPackage = pkg, re_SignerDigestHex = digest, re_NonceHex = hex_EncodeToString (rq_Nonce req)\<rparr>]\<rparr>
      else st1)"

definition enrollLimit :: "'s service \<Rightarrow> enroll_io \<Rightarrow> string \<Rightarrow> 's enroll_state \<Rightarrow> enroll_error option \<times> 's enroll_state" where
  "enrollLimit sv io ip st =
     (case sv_ParseAddr sv ip of
        None \<Rightarrow> (Some (refused ''bad_source_ip''), st)
      | Some addr \<Rightarrow>
          (case Allow (sv_ex sv) ''enroll-min'' addr (sv_EnrollMinute sv) Minute (io_now_minute io) (en_out st) of
             (Inr (False, ra), s1) \<Rightarrow>
               (Some (retry_later ''enroll_rate'' ra), en_reject ''enroll-limit'' [] ip (st\<lparr>en_out := s1\<rparr>))
           | (_, s1) \<Rightarrow>
               (case Allow (sv_ex sv) ''enroll-hour'' addr (sv_EnrollHour sv) Hour (io_now_hour io) s1 of
                  (Inr (False, ra), s2) \<Rightarrow>
                    (Some (retry_later ''enroll_rate'' ra), en_reject ''enroll-limit'' [] ip (st\<lparr>en_out := s2\<rparr>))
                | (_, s2) \<Rightarrow> (None, st\<lparr>en_out := s2\<rparr>))))"

definition enrollLimitCheck ::
  "'s service \<Rightarrow> enroll_io \<Rightarrow> string \<Rightarrow> 's enroll_state \<Rightarrow> enroll_error option \<times> 's enroll_state" where
  "enrollLimitCheck sv io ip st =
     (case sv_ParseAddr sv ip of
        None \<Rightarrow> (Some (refused ''bad_source_ip''), st)
      | Some addr \<Rightarrow>
          (case Over (sv_ex sv) ''enroll-min'' addr (sv_EnrollMinute sv) Minute (io_now_minute io) (en_out st) of
             (Inr (True, ra), s1) \<Rightarrow>
               (Some (retry_later ''enroll_rate'' ra), en_reject ''enroll-limit'' [] ip (st\<lparr>en_out := s1\<rparr>))
           | (_, s1) \<Rightarrow>
               (case Over (sv_ex sv) ''enroll-hour'' addr (sv_EnrollHour sv) Hour (io_now_hour io) s1 of
                  (Inr (True, ra), s2) \<Rightarrow>
                    (Some (retry_later ''enroll_rate'' ra), en_reject ''enroll-limit'' [] ip (st\<lparr>en_out := s2\<rparr>))
                | (_, s2) \<Rightarrow> (None, st\<lparr>en_out := s2\<rparr>))))"

subsection \<open>Keys and certificate requests\<close>

definition isECDSAP256 :: "public_key option \<Rightarrow> bool" where
  "isECDSAP256 pub \<longleftrightarrow> (case pub of Some (EcdsaKey curve _) \<Rightarrow> curve = ''P-256'' | _ \<Rightarrow> False)"

text \<open>A DSA key has no \<^verbatim>\<open>Equal\<close> method, and neither has an unknown key.\<close>

definition publicKeyEqual :: "public_key option \<Rightarrow> public_key option \<Rightarrow> bool" where
  "publicKeyEqual a b \<longleftrightarrow> (case a of None \<Rightarrow> False | Some (DsaKey _) \<Rightarrow> False | Some k \<Rightarrow> b = Some k)"

definition csrMatchesTunnel :: "CSR \<Rightarrow> string \<Rightarrow> string \<Rightarrow> bool" where
  "csrMatchesTunnel csr name tunnelDomain =
     (let want = name @ ''.'' @ tunnelDomain in
      if csr_CommonName csr \<noteq> [] \<and> csr_CommonName csr \<noteq> want then False
      else if csr_IPAddresses csr \<noteq> [] \<or> csr_EmailAddresses csr \<noteq> [] \<or> csr_URIs csr \<noteq> [] then False
      else case csr_DNSNames csr of
        [] \<Rightarrow> csr_CommonName csr = want
      | [d] \<Rightarrow> d = want
      | _ \<Rightarrow> False)"

definition SignIdentity :: "'s service \<Rightarrow> CSR \<Rightarrow> string \<Rightarrow> sign_err + bytes" where
  "SignIdentity sv csr name =
     (if \<not> csr_SignatureOK csr then Inl (SignErr ''signature'')
      else case csr_PublicKey csr of
        Some (EcdsaKey curve k) \<Rightarrow>
          if curve \<noteq> ''P-256'' then Inl ErrUnsupportedKeyType
          else (case sv_CreateCertificate sv name (EcdsaKey curve k) of
                  None \<Rightarrow> Inl (SignErr ''create'') | Some pem \<Rightarrow> Inr pem)
      | _ \<Rightarrow> Inl ErrUnsupportedKeyType)"

definition signError :: "sign_err \<Rightarrow> enroll_error" where
  "signError e = (if e = ErrUnsupportedKeyType then refused ''unsupported_key_type'' else retry_later ''identity_sign_failed'' 0)"

definition classifyIssuerError :: "issuer_err \<Rightarrow> enroll_error" where
  "classifyIssuerError e =
     (case e of
        Some (cls, after) \<Rightarrow>
          if cls = ''rate-limited'' then retry_later ''acme_rate_limited'' after
          else if cls = ''transient'' then retry_later ''acme_transient'' Minute
          else refused ''acme_failed''
      | None \<Rightarrow> refused ''acme_failed'')"

text \<open>The attestation gate and the binding of the identity key to the attested one.\<close>

definition attestAndBind ::
  "'s service \<Rightarrow> enroll_io \<Rightarrow> string \<Rightarrow> string \<Rightarrow> enroll_request \<Rightarrow> 's enroll_state
   \<Rightarrow> (enroll_error + DeviceInfo) \<times> 's enroll_state" where
  "attestAndBind sv io ip name req st =
     (let reject = (\<lambda>why st. (Inl (refused ''unauthorized''), recordRejection sv (io_now_reject io) ip name why req st));
          bind = (\<lambda>key dev st.
            if \<not> csr_SignatureOK (rq_IdentityCSR req) then reject ''csr-mismatch'' st
            else if key \<noteq> None \<and> \<not> publicKeyEqual (csr_PublicKey (rq_IdentityCSR req)) key then reject ''csr-mismatch'' st
            else (Inr dev, st))
      in if sv_AttestOptional sv then bind None no_device st
         else case sv_Verify sv (rq_AttestChain req) (rq_Nonce req) (io_now_verify io) of
           Inl e \<Rightarrow> reject (attestReason e) (st\<lparr>en_attests := en_attests st @ [attestReason e]\<rparr>)
         | Inr res \<Rightarrow> bind (ar_LeafPublicKey res) (ar_Device res) (st\<lparr>en_attests := en_attests st @ [''ok'']\<rparr>))"

subsection \<open>Claiming a name\<close>

definition claimLockKey :: "string \<Rightarrow> vkey" where "claimLockKey name = ''lock:claim:'' @ name"

text \<open>The record a claim writes; \<open>Inl\<close> is an error of one of the three calls.\<close>

definition claim_record :: "NameRecord \<Rightarrow> int \<times> int \<Rightarrow> NameRecord" where
  "claim_record rec now = rec\<lparr>nr_Schema := 1, nr_EnrolledAt := fst now, nr_LastRenewedAt := snd now\<rparr>"

definition claimCandidate :: "'s service \<Rightarrow> string \<Rightarrow> NameRecord \<Rightarrow> int \<times> int \<Rightarrow> 's \<Rightarrow> (string + bool) \<times> 's" where
  "claimCandidate sv cand rec now s =
     (case do1 (sv_ex sv) (SETNX (claimLockKey cand) ''1'' (sv_ClaimSettle sv)) s of
        (Inr (RBool True), s1) \<Rightarrow>
          (case sv_GetName sv cand s1 of
             (Inr _, s2) \<Rightarrow> (Inr False, s2)
           | (Inl (StoreErr e), s2) \<Rightarrow> (Inl e, s2)
           | (Inl ErrNotFound, s2) \<Rightarrow>
               (case sv_PutName sv cand (claim_record rec now) s2 of
                  (True, s3) \<Rightarrow> (Inr True, s3)
                | (False, s3) \<Rightarrow> (Inl ''claim write'', s3)))
      | (Inr (RBool False), s1) \<Rightarrow> (Inr False, s1)
      | (Inr _, s1) \<Rightarrow> (Inl ''reply'', s1)
      | (Inl e, s1) \<Rightarrow> (Inl ''claim lock'', s1))"

fun claim_attempts :: "'s service \<Rightarrow> enroll_io \<Rightarrow> NameRecord \<Rightarrow> nat \<Rightarrow> nat \<Rightarrow> 's \<Rightarrow> string option \<times> 's" where
  "claim_attempts sv io rec attempt 0 s = (None, s)"
| "claim_attempts sv io rec attempt (Suc n) s =
     (case io_names io attempt of
        None \<Rightarrow> (None, s)
      | Some cand \<Rightarrow>
          (case claimCandidate sv cand rec (io_now_claim io attempt) s of
             (Inr True, s1) \<Rightarrow> (Some cand, s1)
           | (_, s1) \<Rightarrow> claim_attempts sv io rec (Suc attempt) n s1))"

definition claimName :: "'s service \<Rightarrow> enroll_io \<Rightarrow> NameRecord \<Rightarrow> 's \<Rightarrow> string option \<times> 's" where
  "claimName sv io rec s = claim_attempts sv io rec 0 8 s"

subsection \<open>Enrollment\<close>

definition fingerprint :: "'s service \<Rightarrow> CSR \<Rightarrow> string" where
  "fingerprint sv csr = (case sv_KeyFingerprint sv (csr_PublicKey csr) of None \<Rightarrow> [] | Some fp \<Rightarrow> fp)"

definition new_record :: "'s service \<Rightarrow> enroll_request \<Rightarrow> DeviceInfo \<Rightarrow> NameRecord" where
  "new_record sv req dev =
     \<lparr>nr_Schema = 0, nr_EnrolledAt = - zero_time, nr_LastRenewedAt = - zero_time,
      nr_IdentityKeyFP = fingerprint sv (rq_IdentityCSR req), nr_CA = [], nr_Cert = no_cert, nr_Device = dev\<rparr>"

definition Enroll ::
  "'s service \<Rightarrow> enroll_io \<Rightarrow> string \<Rightarrow> enroll_request \<Rightarrow> 's enroll_state \<Rightarrow> (enroll_error + enroll_result) \<times> 's enroll_state" where
  "Enroll sv io ip req st =
     (case enrollLimit sv io ip st of
        (Some e, st1) \<Rightarrow> (Inl e, st1)
      | (None, st1) \<Rightarrow>
          (case consumeNonce sv (rq_Nonce req) (en_out st1) of
             (Inl _, s) \<Rightarrow> (Inl (retry_later ''internal'' 0), st1\<lparr>en_out := s\<rparr>)
           | (Inr False, s) \<Rightarrow> (Inl (retry_later ''invalid_nonce'' 0), st1\<lparr>en_out := s\<rparr>)
           | (Inr True, s) \<Rightarrow>
               (case attestAndBind sv io ip [] req (st1\<lparr>en_out := s\<rparr>) of
                  (Inl e, st2) \<Rightarrow> (Inl e, st2)
                | (Inr dev, st2) \<Rightarrow>
                    (case claimName sv io (new_record sv req dev) (en_out st2) of
                       (None, s3) \<Rightarrow> (Inl (retry_later ''name_unavailable'' 0), st2\<lparr>en_out := s3\<rparr>)
                     | (Some name, s3) \<Rightarrow>
                         (case SignIdentity sv (rq_IdentityCSR req) name of
                            Inl e \<Rightarrow> (Inl (signError e), st2\<lparr>en_out := snd (sv_DeleteName sv name s3)\<rparr>)
                          | Inr pem \<Rightarrow>
                              (Inr \<lparr>rs_Name = name, rs_IdentityCert = pem, rs_PublicCert = [], rs_CA = []\<rparr>,
                               st2\<lparr>en_out := s3\<rparr>))))))"

subsection \<open>Issuance\<close>

definition recordCert ::
  "'s service \<Rightarrow> enroll_io \<Rightarrow> string \<Rightarrow> NameRecord \<Rightarrow> enroll_request \<Rightarrow> CertInfo \<Rightarrow> DeviceInfo \<Rightarrow> 's \<Rightarrow> 's" where
  "recordCert sv io name cur req info dev s =
     (case sv_GetName sv name s of
        (res, s1) \<Rightarrow>
          let rec = (case res of Inl _ \<Rightarrow> cur | Inr rec \<Rightarrow> rec);
              rec = rec\<lparr>nr_Schema := 1, nr_LastRenewedAt := io_now_record io,
                        nr_EnrolledAt := if nr_EnrolledAt rec = - zero_time then io_now_record io else nr_EnrolledAt rec,
                        nr_IdentityKeyFP := fingerprint sv (rq_IdentityCSR req),
                        nr_Device := if dev \<noteq> no_device then dev else nr_Device rec\<rparr>
          in snd (sv_PutName sv name (SetCert info rec) s1))"

text \<open>Everything before the issuance lock: the nonce, the attestation, the request for the public certificate, the registry.\<close>

definition issue_gate ::
  "'s service \<Rightarrow> enroll_io \<Rightarrow> string \<Rightarrow> string \<Rightarrow> enroll_request \<Rightarrow> 's enroll_state
   \<Rightarrow> (enroll_error + DeviceInfo \<times> NameRecord) \<times> 's enroll_state" where
  "issue_gate sv io name ip req st =
     (case consumeNonce sv (rq_Nonce req) (en_out st) of
        (Inl _, s) \<Rightarrow> (Inl (retry_later ''internal'' 0), st\<lparr>en_out := s\<rparr>)
      | (Inr False, s) \<Rightarrow> (Inl (retry_later ''invalid_nonce'' 0), st\<lparr>en_out := s\<rparr>)
      | (Inr True, s) \<Rightarrow>
          (case attestAndBind sv io ip name req (st\<lparr>en_out := s\<rparr>) of
             (Inl e, st1) \<Rightarrow> (Inl e, st1)
           | (Inr dev, st1) \<Rightarrow>
               let reject = (\<lambda>why. (Inl (refused why), recordRejection sv (io_now_reject io) ip name ''csr-mismatch'' req st1))
               in if \<not> csr_SignatureOK (rq_TLSCSR req) then reject ''unauthorized''
                  else if \<not> csrMatchesTunnel (rq_TLSCSR req) name (sv_TunnelDomain sv) then reject ''csr_domain_mismatch''
                  else if \<not> isECDSAP256 (csr_PublicKey (rq_TLSCSR req)) then reject ''unsupported_key_type''
                  else (case sv_GetName sv name (en_out st1) of
                          (Inl ErrNotFound, s2) \<Rightarrow> (Inl (refused ''name_unknown''), st1\<lparr>en_out := s2\<rparr>)
                        | (Inl _, s2) \<Rightarrow> (Inl (retry_later ''internal'' 0), st1\<lparr>en_out := s2\<rparr>)
                        | (Inr cur, s2) \<Rightarrow> (Inr (dev, cur), st1\<lparr>en_out := s2\<rparr>))))"

text \<open>Under the lock: the identity certificate, the public certificate, the count and the registry record.\<close>

definition issue_locked ::
  "'s service \<Rightarrow> enroll_io \<Rightarrow> string \<Rightarrow> string \<Rightarrow> string \<Rightarrow> enroll_request \<Rightarrow> DeviceInfo \<Rightarrow> NameRecord \<Rightarrow> 's enroll_state
   \<Rightarrow> (enroll_error + enroll_result) \<times> 's enroll_state" where
  "issue_locked sv io orderID name ip req dev cur st =
     (case SignIdentity sv (rq_IdentityCSR req) name of
        Inl e \<Rightarrow> (Inl (signError e), st)
      | Inr identityPEM \<Rightarrow>
          let s = IssuanceHeartbeatLoop (sv_ex sv) name orderID (io_beats io) (en_out st);
              renewal = (nr_CA cur \<noteq> [])
          in (case (if renewal then sv_Renew sv (rq_TLSCSR req) name (CertInfo_of cur) s
                    else sv_Obtain sv (rq_TLSCSR req) name s) of
                (Inl e, s1) \<Rightarrow>
                  let st1 = st\<lparr>en_out := s1\<rparr> in
                  if io_heartbeat_panicked io then (Inl (retry_later ''internal'' 0), st1)
                  else let st2 = en_reject ''acme-failed'' name ip st1 in
                    (Inl (classifyIssuerError e),
                     if renewal then st2\<lparr>en_renews := en_renews st2 @ [(''all'', ''fail'')]\<rparr> else st2)
              | (Inr (pubChain, info), s1) \<Rightarrow>
                  let st1 = (if renewal then st\<lparr>en_renews := en_renews st @ [(ci_CA info, ''ok'')]\<rparr> else st);
                      s2 = snd (IssuanceRecord (sv_ex sv) name s1);
                      s3 = (if io_cancelled io then s2 else recordCert sv io name cur req info dev s2)
                  in (Inr \<lparr>rs_Name = name, rs_IdentityCert = identityPEM, rs_PublicCert = pubChain, rs_CA = ci_CA info\<rparr>,
                      st1\<lparr>en_out := s3\<rparr>)))"

definition Issue ::
  "'s service \<Rightarrow> enroll_io \<Rightarrow> string \<Rightarrow> string \<Rightarrow> enroll_request \<Rightarrow> 's enroll_state
   \<Rightarrow> (enroll_error + enroll_result) \<times> 's enroll_state" where
  "Issue sv io name ip req st =
     (case issue_gate sv io name ip req st of
        (Inl e, st1) \<Rightarrow> (Inl e, st1)
      | (Inr (dev, cur), st1) \<Rightarrow>
          (case IssuanceBegin (sv_ex sv) (io_token io) name (sv_IssuePerWeek sv) (en_out st1) of
             (Inl ErrIssuanceInFlight, s) \<Rightarrow>
               (Inl (retry_later ''issuance_cap'' (300 * Second)), en_reject ''issuance-cap'' name ip (st1\<lparr>en_out := s\<rparr>))
           | (Inl _, s) \<Rightarrow> (Inl (retry_later ''internal'' 0), st1\<lparr>en_out := s\<rparr>)
           | (Inr (Refused after), s) \<Rightarrow>
               (Inl (retry_later ''issuance_cap'' after), en_reject ''issuance-cap'' name ip (st1\<lparr>en_out := s\<rparr>))
           | (Inr (Granted orderID), s) \<Rightarrow>
               (case issue_locked sv io orderID name ip req dev cur (st1\<lparr>en_out := s\<rparr>) of
                  (res, st2) \<Rightarrow> (res, st2\<lparr>en_out := snd (IssuanceEnd (sv_ex sv) name orderID (en_out st2))\<rparr>))))"

subsection \<open>HTTP handler\<close>

text \<open>The answers: an error with its fields, the nonce, the enrollment result, the health text, or 404.\<close>

datatype enroll_answer =
    ErrorAnswer nat string bool int
  | NonceAnswer string
  | EnrollAnswer string string string
  | Health nat string
  | EnrollNotFound

record enroll_http =
  eh_Method :: string
  eh_Path :: string
  eh_RemoteAddr :: string
  eh_Body :: "bytes option"

record enroll_body =
  eb_Nonce :: string
  eb_AttestChainPEM :: string
  eb_IdentityCSR :: string

definition statusForError :: "enroll_error \<Rightarrow> nat" where
  "statusForError e = (if er_Reason e = ''unauthorized'' then 401 else if er_Retryable e then 503 else 400)"

definition writeErr :: "enroll_error \<Rightarrow> nat \<Rightarrow> enroll_answer" where
  "writeErr e status =
     ErrorAnswer status (er_Reason e) (er_Retryable e) (if er_RetryAfter e > 0 then er_RetryAfter e div Second else 0)"

text \<open>\<^verbatim>\<open>parsePEMChain\<close>: every PEM block must be a certificate; no block gives the empty chain.\<close>

fun parse_blocks :: "(bytes \<Rightarrow> 'c option) \<Rightarrow> bytes list \<Rightarrow> 'c list option" where
  "parse_blocks parse [] = Some []"
| "parse_blocks parse (b # bs) = do { c \<leftarrow> parse b; cs \<leftarrow> parse_blocks parse bs; Some (c # cs) }"

definition parsePEMChain :: "(bytes \<Rightarrow> bytes list) \<Rightarrow> (bytes \<Rightarrow> 'c option) \<Rightarrow> bytes \<Rightarrow> 'c list option" where
  "parsePEMChain pem_blocks parse pemBytes = parse_blocks parse (pem_blocks pemBytes)"

definition parseCSR :: "(bytes \<Rightarrow> bytes list) \<Rightarrow> (bytes \<Rightarrow> CSR option) \<Rightarrow> bytes \<Rightarrow> CSR option" where
  "parseCSR pem_blocks parse pemBytes = parse (case pem_blocks pemBytes of [] \<Rightarrow> pemBytes | b # _ \<Rightarrow> b)"

record enroll_codec =
  ec_unmarshal :: "bytes \<Rightarrow> enroll_body option"
  ec_pem_blocks :: "bytes \<Rightarrow> bytes list"
  ec_certificate :: "bytes \<Rightarrow> attest_cert option"
  ec_csr :: "bytes \<Rightarrow> CSR option"

definition handleNonce :: "'s service \<Rightarrow> enroll_io \<Rightarrow> bytes option \<Rightarrow> string \<Rightarrow> 's enroll_state \<Rightarrow> enroll_answer \<times> 's enroll_state" where
  "handleNonce sv io rnd ip st =
     (case enrollLimit sv io ip st of
        (Some e, st1) \<Rightarrow> (writeErr e (if er_Reason e = ''enroll_rate'' then 429 else statusForError e), st1)
      | (None, st1) \<Rightarrow>
          (case Nonce sv rnd (en_out st1) of
             (None, s) \<Rightarrow> (ErrorAnswer 503 ''internal'' True 0, st1\<lparr>en_out := s\<rparr>)
           | (Some n, s) \<Rightarrow> (NonceAnswer (hex_EncodeToString n), st1\<lparr>en_out := s\<rparr>)))"

definition handleEnroll ::
  "'s service \<Rightarrow> enroll_io \<Rightarrow> enroll_codec \<Rightarrow> nat \<Rightarrow> bytes option \<Rightarrow> bytes option \<Rightarrow> string \<Rightarrow> 's enroll_state
   \<Rightarrow> enroll_answer \<times> 's enroll_state" where
  "handleEnroll sv io ec maxBody rnd body ip st =
     (let bad = (\<lambda>why. (ErrorAnswer 400 why False 0, st));
          count = (\<lambda>why st. st\<lparr>en_results := en_results st @ [why]\<rparr>)
      in case body of
        None \<Rightarrow> bad ''bad_request''
      | Some raw \<Rightarrow>
          (case ec_unmarshal ec (take maxBody raw) of
             None \<Rightarrow> bad ''bad_json''
           | Some b \<Rightarrow>
               (case hex_DecodeString (eb_Nonce b) of
                  None \<Rightarrow> bad ''bad_nonce''
                | Some nonce \<Rightarrow>
                    (case parsePEMChain (ec_pem_blocks ec) (ec_certificate ec) (bytes_of_string (eb_AttestChainPEM b)) of
                       None \<Rightarrow> bad ''bad_attestation_chain''
                     | Some chain \<Rightarrow>
                         (case parseCSR (ec_pem_blocks ec) (ec_csr ec) (bytes_of_string (eb_IdentityCSR b)) of
                            None \<Rightarrow> bad ''bad_identity_csr''
                          | Some idCSR \<Rightarrow>
                              (case enrollLimitCheck sv io ip st of
                                 (Some e, st1) \<Rightarrow> (writeErr e (statusForError e), count (er_Reason e) st1)
                               | (None, st1) \<Rightarrow>
                                   (case Nonce sv rnd (en_out st1) of
                                      (None, s) \<Rightarrow> (ErrorAnswer 503 ''internal'' True 0, count ''internal'' (st1\<lparr>en_out := s\<rparr>))
                                    | (Some issueNonce, s) \<Rightarrow>
                                        (case Enroll sv io ip \<lparr>rq_Nonce = nonce,
                                                rq_AttestChainPEM = bytes_of_string (eb_AttestChainPEM b), rq_AttestChain = chain,
                                                rq_IdentityCSR = idCSR, rq_TLSCSR = idCSR\<rparr> (st1\<lparr>en_out := s\<rparr>) of
                                           (Inl e, st2) \<Rightarrow> (writeErr e (statusForError e), count (er_Reason e) st2)
                                         | (Inr r, st2) \<Rightarrow>
                                             (EnrollAnswer (rs_Name r) (string_of_bytes (rs_IdentityCert r))
                                                (hex_EncodeToString issueNonce), count ''ok'' st2)))))))))"

subsection \<open>Generated names\<close>

lemma length_byte_bits [simp]: "length (byte_bits b) = 8"
  by (simp add: byte_bits_def)

lemma length_base32_groups: "length (base32_groups bs) = (length bs + 4) div 5"
proof (induction bs rule: base32_groups.induct)
  case (1 bs)
  show ?case
  proof (cases "bs = []")
    case True
    then show ?thesis by (simp add: base32_groups.simps)
  next
    case False
    have "(length bs + 4) div 5 = Suc ((length bs - 5 + 4) div 5)"
      using False by (cases "length bs \<ge> 5") (auto simp: le_div_geq Suc_leI)
    moreover have "length (base32_groups bs) = Suc (length (base32_groups (drop 5 bs)))"
      using False by (subst base32_groups.simps) (simp only: if_False list.size add_0_right Suc_eq_plus1)
    ultimately show ?thesis using "1.IH" [OF False] by (simp only: length_drop)
  qed
qed

lemma base32_alphabet: "list_all (\<lambda>c. base32_lower (lower_char c)) ''ABCDEFGHIJKLMNOPQRSTUVWXYZ234567''"
  by (simp add: base32_lower_def in_range_def lower_char_def)

lemma base32_digit_lower: "base32_lower (lower_char (base32_digit n))"
proof -
  have "n mod 32 < length ''ABCDEFGHIJKLMNOPQRSTUVWXYZ234567''" by simp
  then show ?thesis using base32_alphabet unfolding list_all_length base32_digit_def by blast
qed

lemma base32_groups_lower: "list_all (\<lambda>c. base32_lower (lower_char c)) (base32_groups bs)"
  by (induction bs rule: base32_groups.induct) (subst base32_groups.simps, simp add: base32_digit_lower)

lemma base32_enough: "length buf = (len * 5 + 7) div 8 \<Longrightarrow> len \<le> length (noPadBase32 buf)"
  by (simp add: noPadBase32_def length_base32_groups length_concat comp_def sum_list_triv)

lemma EqualFold_refl: "is_ascii s \<Longrightarrow> EqualFold uni s s"
  by (simp add: EqualFold_def)

lemma label_ascii: "labelRe s \<Longrightarrow> is_ascii s"
  by (auto simp: labelRe_def is_ascii_def list_all_iff label_char_def in_range_def)

lemma generate_attempts_Some:
  assumes "generate_attempts uni prefix len rnd extra attempt n = Some name"
  obtains buf where "name = prefix @ take len (map lower_char (noPadBase32 buf))" "len \<le> length (noPadBase32 buf)"
    "name \<notin> set reserved" "\<not> isExtraReserved uni name extra" "labelRe name"
  using assms
proof (induction uni prefix len rnd extra attempt n rule: generate_attempts.induct)
  case (2 uni prefix len rnd extra attempt n)
  then show ?case by (auto simp: Let_def not_less split: option.splits if_splits)
qed simp

text \<open>
  C28. Every generated name is one the phone endpoint accepts: it has the configured prefix and length, its random part is lower-case
  base 32, it is a host label of at most 63 characters, and it is neither a reserved label nor the first label of the enrollment or the control host.
\<close>

theorem generateName_valid:
  assumes "generateName uni prefix len rnd [firstLabel low enrollHost, firstLabel low controlHost] = Some name"
  shows "validNameFunc low prefix len enrollHost controlHost name \<and> labelRe name \<and> name \<notin> set reserved"
proof -
  obtain buf where n: "name = prefix @ take len (map lower_char (noPadBase32 buf))" "len \<le> length (noPadBase32 buf)"
    and nr: "name \<notin> set reserved" and ex: "\<not> isExtraReserved uni name [firstLabel low enrollHost, firstLabel low controlHost]"
    and lab: "labelRe name"
    using assms unfolding generateName_def by (rule generate_attempts_Some)
  have "list_all base32_lower (take len (map lower_char (noPadBase32 buf)))"
    using base32_groups_lower [of "concat (map byte_bits buf)"]
    by (auto simp: list_all_iff noPadBase32_def dest!: in_set_takeD)
  moreover have "name \<noteq> firstLabel low enrollHost" "name \<noteq> firstLabel low controlHost"
    using ex EqualFold_refl [OF label_ascii [OF lab], of uni] by (auto simp: isExtraReserved_def)
  ultimately show ?thesis using n nr lab by (simp add: validNameFunc_def)
qed

definition demo_rnd :: "nat \<Rightarrow> bytes option" where
  "demo_rnd n = (if n = 0 then Some [0x03, 0xd0] else Some [0x11, 0x94])"

text \<open>The first draw of the example spells a reserved label and is passed over.\<close>

lemma demo_generate: "generateName (=) [] 3 demo_rnd [firstLabel id ''tun.example:443'', firstLabel id ''ctl.example''] = Some ''cgk''"
  by code_simp

theorem generateName_valid_witness:
  "validNameFunc id [] 3 ''tun.example:443'' ''ctl.example'' ''cgk'' \<and> labelRe ''cgk''"
  using generateName_valid [OF demo_generate] by blast

subsection \<open>What issuance checks\<close>

text \<open>All identifiers a certificate request asks for: the common name and every subject alternative name.\<close>

definition csr_identifiers :: "CSR \<Rightarrow> string set" where
  "csr_identifiers csr = (if csr_CommonName csr = [] then {} else {csr_CommonName csr}) \<union> set (csr_DNSNames csr)
     \<union> set (csr_IPAddresses csr) \<union> set (csr_EmailAddresses csr) \<union> set (csr_URIs csr)"

lemma csrMatchesTunnel_identifiers:
  "csrMatchesTunnel csr name domain \<Longrightarrow> csr_identifiers csr = {name @ ''.'' @ domain}"
  by (auto simp: csrMatchesTunnel_def csr_identifiers_def Let_def split: if_splits list.splits)

lemma publicKeyEqual_iff: "publicKeyEqual a b \<Longrightarrow> a = b"
  by (auto simp: publicKeyEqual_def split: option.splits public_key.splits)

lemma attestAndBind_Inr:
  assumes "attestAndBind sv io ip name req st = (Inr dev, st')"
  shows "csr_SignatureOK (rq_IdentityCSR req)"
    and "sv_AttestOptional sv \<or> (\<exists>res. sv_Verify sv (rq_AttestChain req) (rq_Nonce req) (io_now_verify io) = Inr res
       \<and> dev = ar_Device res \<and> (ar_LeafPublicKey res = None \<or> csr_PublicKey (rq_IdentityCSR req) = ar_LeafPublicKey res))"
    and "en_out st' = en_out st"
  using assms by (auto simp: attestAndBind_def Let_def dest: publicKeyEqual_iff split: if_splits sum.splits)

lemma SignIdentity_Inr:
  "SignIdentity sv csr name = Inr pem \<Longrightarrow> csr_SignatureOK csr \<and> isECDSAP256 (csr_PublicKey csr)
     \<and> sv_CreateCertificate sv name (the (csr_PublicKey csr)) = Some pem"
  by (auto simp: SignIdentity_def isECDSAP256_def split: if_splits option.splits public_key.splits)

lemma issue_gate_Inr:
  assumes "issue_gate sv io name ip req st = (Inr (dev, cur), st')"
  obtains s1 st1 s2 where "consumeNonce sv (rq_Nonce req) (en_out st) = (Inr True, s1)"
    "attestAndBind sv io ip name req (st\<lparr>en_out := s1\<rparr>) = (Inr dev, st1)"
    "csr_SignatureOK (rq_TLSCSR req)" "csrMatchesTunnel (rq_TLSCSR req) name (sv_TunnelDomain sv)"
    "isECDSAP256 (csr_PublicKey (rq_TLSCSR req))" "sv_GetName sv name (en_out st1) = (Inr cur, s2)" "st' = st1\<lparr>en_out := s2\<rparr>"
proof -
  obtain b s1 where c: "consumeNonce sv (rq_Nonce req) (en_out st) = (Inr b, s1)" "b"
    using assms by (auto simp: issue_gate_def split: prod.splits sum.splits bool.splits)
  obtain st1 where a: "attestAndBind sv io ip name req (st\<lparr>en_out := s1\<rparr>) = (Inr dev, st1)"
    using assms c by (auto simp: issue_gate_def Let_def split: prod.splits sum.splits if_splits store_err.splits)
  then show thesis using that [of s1 st1] assms c
    by (auto simp: issue_gate_def Let_def split: prod.splits sum.splits if_splits store_err.splits)
qed

lemma Issue_Inr:
  assumes "Issue sv io name ip req st = (Inr r, st')"
  obtains dev cur st1 orderID s st2 where "issue_gate sv io name ip req st = (Inr (dev, cur), st1)"
    "IssuanceBegin (sv_ex sv) (io_token io) name (sv_IssuePerWeek sv) (en_out st1) = (Inr (Granted orderID), s)"
    "issue_locked sv io orderID name ip req dev cur (st1\<lparr>en_out := s\<rparr>) = (Inr r, st2)"
proof -
  obtain dev cur st1 where g: "issue_gate sv io name ip req st = (Inr (dev, cur), st1)"
    using assms by (auto simp: Issue_def split: prod.splits sum.splits)
  then show thesis using that [OF g] assms
    by (auto simp: Issue_def split: prod.splits sum.splits issue_err.splits begin_result.splits)
qed

lemma issue_locked_Inr:
  assumes "issue_locked sv io orderID name ip req dev cur st = (Inr r, st')"
  shows "rs_Name r = name \<and> SignIdentity sv (rq_IdentityCSR req) name = Inr (rs_IdentityCert r)"
  using assms by (auto simp: issue_locked_def Let_def split: sum.splits prod.splits if_splits)

text \<open>A nonce that was accepted was there, and is not there afterwards.\<close>

lemma consumeNonce_True:
  assumes "valkey (sv_ex sv) view R" "k = nonceKey (hex_EncodeToString nonce)"
    and "\<forall>v v'. R v v' \<longrightarrow> live v k = None \<longrightarrow> live v' k = None"
    and "consumeNonce sv nonce s = (Inr True, s')"
  shows "live (view s) k \<noteq> None \<and> live (view s') k = None"
proof -
  have d: "do1 (sv_ex sv) (DEL k) s = (Inr (RInt 1), s')"
    using assms(2,4) by (auto simp: consumeNonce_def split: prod.splits sum.splits reply.splits)
  obtain v where v: "R (view s) v" "cmd_sem (DEL k) v = (RInt 1, view s')" by (rule valkey.do1_ok [OF assms(1) d])
  then have "live v k \<noteq> None" "view s' = del v k" by (auto split: if_splits)
  moreover from this(1) have "live (view s) k \<noteq> None" using assms(3) v(1) by metis
  ultimately show ?thesis by (simp add: live_del)
qed


text \<open>An example service over a key space and a registry, with a verifier that takes any chain over a nonce.\<close>

type_synonym demo_outside = "vstate \<times> (string \<rightharpoonup> NameRecord)"

definition demo_outside_exec :: "demo_outside client" where
  "demo_outside_exec cs s = (case mem_exec cs (fst s) of (r, v) \<Rightarrow> (r, (v, snd s)))"

definition demo_info :: CertInfo where
  "demo_info = \<lparr>ci_CA = ''letsencrypt'', ci_Serial = ''03'', ci_NotBefore = 1, ci_NotAfter = 9, ci_ARIID = ''x''\<rparr>"

definition demo_service :: "demo_outside service" where
  "demo_service =
     \<lparr>sv_ex = demo_outside_exec,
      sv_GetName = (\<lambda>n s. (case snd s n of None \<Rightarrow> Inl ErrNotFound | Some r \<Rightarrow> Inr r, s)),
      sv_PutName = (\<lambda>n r s. (True, (fst s, (snd s)(n \<mapsto> r)))),
      sv_DeleteName = (\<lambda>n s. (True, (fst s, (snd s)(n := None)))),
      sv_Verify = (\<lambda>chain nonce now. if chain = [] \<or> nonce = [] then Inl ErrEmptyChain
        else Inr \<lparr>ar_Package = ''a'', ar_Device = no_device, ar_LeafPublicKey = ac_PublicKey (hd chain)\<rparr>),
      sv_CreateCertificate = (\<lambda>n k. Some (bytes_of_string n)),
      sv_Obtain = (\<lambda>csr n s. (Inr ([1], demo_info), s)), sv_Renew = (\<lambda>csr n cur s. (Inr ([2], demo_info), s)),
      sv_ParseAddr = Some, sv_KeyFingerprint = (\<lambda>k. Some ''sha256:07''), sv_TunnelDomain = ''t.example'', sv_IssuePerWeek = 2,
      sv_EnrollHour = 10, sv_EnrollMinute = 2, sv_ClaimSettle = 5 * Second, sv_AttestOptional = False, sv_Evidence = True\<rparr>"

definition demo_id_csr :: CSR where
  "demo_id_csr = \<lparr>csr_CommonName = [], csr_DNSNames = [], csr_IPAddresses = [], csr_EmailAddresses = [], csr_URIs = [],
     csr_PublicKey = Some (EcdsaKey ''P-256'' [7]), csr_SignatureOK = True\<rparr>"

definition demo_issue_request :: enroll_request where
  "demo_issue_request = \<lparr>rq_Nonce = [1, 2, 3], rq_AttestChainPEM = [], rq_AttestChain = [demo_leaf\<lparr>ac_Extensions := []\<rparr>], rq_IdentityCSR = demo_id_csr,
     rq_TLSCSR = demo_id_csr\<lparr>csr_DNSNames := [''cgk.t.example''], csr_PublicKey := Some (EcdsaKey ''P-256'' [8])\<rparr>\<rparr>"

definition demo_enroll_io :: enroll_io where
  "demo_enroll_io = \<lparr>io_now_minute = 0, io_now_hour = 0, io_now_verify = 7, io_now_reject = 7, io_now_claim = (\<lambda>_. (7, 7)),
     io_now_record = 8, io_names = (\<lambda>_. Some ''cgk''), io_token = ''order'', io_beats = 0, io_heartbeat_panicked = False,
     io_cancelled = False\<rparr>"

definition demo_enrolled :: "demo_outside enroll_state" where
  "demo_enrolled =
     \<lparr>en_out = snd (Nonce demo_service (Some [1, 2, 3]) (\<lparr>clock = 0, keyspace = Map.empty\<rparr>,
        [''cgk'' \<mapsto> new_record demo_service demo_issue_request no_device])),
      en_rejects = [], en_attests = [], en_renews = [], en_evidence = [], en_results = []\<rparr>"

lemma demo_issue:
  "case Issue demo_service demo_enroll_io ''cgk'' ''192.0.2.1'' demo_issue_request demo_enrolled of
     (Inr r, st') \<Rightarrow> rs_PublicCert r = [1] \<and> en_rejects st' = [] | (Inl _, _) \<Rightarrow> False"
  by code_simp

lemma demo_outside_valkey: "valkey demo_outside_exec fst (=)"
proof
  fix cs s rs s' assume "demo_outside_exec cs s = (Inr rs, s')"
  then have "mem_exec cs (fst s) = (Inr rs, fst s')" by (auto simp: demo_outside_exec_def split: prod.splits)
  from mem.exec_ok [OF this] show "runs (=) cs (fst s) rs (fst s') \<and> (\<forall>r \<in> set rs. \<not> is_err r)" by simp
next
  fix cs s e s' assume "demo_outside_exec cs s = (Inl e, s')"
  then have "mem_exec cs (fst s) = (Inl e, fst s')" by (auto simp: demo_outside_exec_def split: prod.splits)
  from mem.exec_fail [OF this] show "\<exists>k rs. runs (=) (take k cs) (fst s) rs (fst s')" by simp
qed


end
