(* ===== verification/Name_Claim.thy ===== *)
theory Name_Claim
  imports Enrollment
begin

text \<open>
  The name claim of \<^verbatim>\<open>src/internal/enroll/enroll.go\<close> as many enrollments run it at once, on any number of nodes: each takes
  the Valkey lock of its candidate, reads the registry, writes its record, and later either owns the name or deletes it
  again because the identity certificate could not be signed. The steps are the calls of \<^verbatim>\<open>claimCandidate\<close> and
  \<^verbatim>\<open>Enroll\<close>, one at a time and in any order, with every failure and time-out the code allows for: a call may fail, a
  reply may be lost, a write whose caller gave up may still land for a while. The registry has no conditional write.
\<close>

subsection \<open>Processes\<close>

text \<open>Where a claim stands, and what became of its write.\<close>

datatype claim_pc = AtLock | AtGet | AtPut | PutSent | Claimed | Owned | Releasing | Released | GaveUp

datatype put_state = NoPut | InFlight | Landed | Died

record claim_proc =
  cp_cand :: string
  cp_rec :: NameRecord
  cp_start :: int
  cp_locked :: "int option"
  cp_pc :: claim_pc
  cp_put :: put_state

record claim_world =
  cw_vk :: vstate
  cw_names :: "string \<rightharpoonup> NameRecord"
  cw_procs :: "nat \<rightharpoonup> claim_proc"

definition set_proc :: "nat \<Rightarrow> claim_proc \<Rightarrow> claim_world \<Rightarrow> claim_world" where
  "set_proc p c w = w\<lparr>cw_procs := (cw_procs w)(p \<mapsto> c)\<rparr>"

definition new_claim :: "string \<Rightarrow> NameRecord \<Rightarrow> int \<Rightarrow> claim_proc" where
  "new_claim cand rec now =
     \<lparr>cp_cand = cand, cp_rec = rec, cp_start = now, cp_locked = None, cp_pc = AtLock, cp_put = NoPut\<rparr>"

definition claim_lock :: "duration \<Rightarrow> string \<Rightarrow> vstate \<Rightarrow> reply \<times> vstate" where
  "claim_lock settle cand v = cmd_sem (SETNX (claimLockKey cand) ''1'' settle) v"

text \<open>
  The deadline of the claim is \<open>timeout\<close> after its start. \<open>late\<close> is how long, in milliseconds of the server clock, a write
  whose deadline passed may still reach the store.
\<close>

inductive claim_step :: "duration \<Rightarrow> duration \<Rightarrow> int \<Rightarrow> claim_world \<Rightarrow> claim_world \<Rightarrow> bool"
  for timeout settle :: duration and late :: int where
  tick: "t \<ge> clock (cw_vk w) \<Longrightarrow> claim_step timeout settle late w (w\<lparr>cw_vk := (cw_vk w)\<lparr>clock := t\<rparr>\<rparr>)"
| other: "\<lbrakk>clock v' = clock (cw_vk w); \<And>cand. live v' (claimLockKey cand) = live (cw_vk w) (claimLockKey cand)\<rbrakk>
     \<Longrightarrow> claim_step timeout settle late w (w\<lparr>cw_vk := v'\<rparr>)"
| start: "cw_procs w p = None
     \<Longrightarrow> claim_step timeout settle late w (set_proc p (new_claim cand rec (clock (cw_vk w))) w)"
| lock_taken: "\<lbrakk>cw_procs w p = Some c; cp_pc c = AtLock; claim_lock settle (cp_cand c) (cw_vk w) = (RBool True, v')\<rbrakk>
     \<Longrightarrow> claim_step timeout settle late w
           (set_proc p (c\<lparr>cp_locked := Some (clock (cw_vk w)), cp_pc := AtGet\<rparr>) (w\<lparr>cw_vk := v'\<rparr>))"
| lock_lost: "\<lbrakk>cw_procs w p = Some c; cp_pc c = AtLock; claim_lock settle (cp_cand c) (cw_vk w) = (r, v')\<rbrakk>
     \<Longrightarrow> claim_step timeout settle late w (set_proc p (c\<lparr>cp_pc := GaveUp\<rparr>) (w\<lparr>cw_vk := v'\<rparr>))"
| get_absent: "\<lbrakk>cw_procs w p = Some c; cp_pc c = AtGet; cw_names w (cp_cand c) = None;
      clock (cw_vk w) \<le> cp_start c + to_ms timeout\<rbrakk>
     \<Longrightarrow> claim_step timeout settle late w (set_proc p (c\<lparr>cp_pc := AtPut\<rparr>) w)"
| put_send: "\<lbrakk>cw_procs w p = Some c; cp_pc c = AtPut; clock (cw_vk w) \<le> cp_start c + to_ms timeout\<rbrakk>
     \<Longrightarrow> claim_step timeout settle late w (set_proc p (c\<lparr>cp_pc := PutSent, cp_put := InFlight\<rparr>) w)"
| put_land: "\<lbrakk>cw_procs w p = Some c; cp_put c = InFlight; clock (cw_vk w) \<le> cp_start c + to_ms timeout + late\<rbrakk>
     \<Longrightarrow> claim_step timeout settle late w
           (set_proc p (c\<lparr>cp_put := Landed\<rparr>) (w\<lparr>cw_names := (cw_names w)(cp_cand c \<mapsto> cp_rec c)\<rparr>))"
| put_dies: "\<lbrakk>cw_procs w p = Some c; cp_put c = InFlight\<rbrakk>
     \<Longrightarrow> claim_step timeout settle late w (set_proc p (c\<lparr>cp_put := Died\<rparr>) w)"
| put_ok: "\<lbrakk>cw_procs w p = Some c; cp_pc c = PutSent; cp_put c = Landed; clock (cw_vk w) \<le> cp_start c + to_ms timeout\<rbrakk>
     \<Longrightarrow> claim_step timeout settle late w (set_proc p (c\<lparr>cp_pc := Claimed\<rparr>) w)"
| give_up: "\<lbrakk>cw_procs w p = Some c; cp_pc c \<in> {AtLock, AtGet, AtPut, PutSent}\<rbrakk>
     \<Longrightarrow> claim_step timeout settle late w (set_proc p (c\<lparr>cp_pc := GaveUp\<rparr>) w)"
| signed: "\<lbrakk>cw_procs w p = Some c; cp_pc c = Claimed\<rbrakk>
     \<Longrightarrow> claim_step timeout settle late w (set_proc p (c\<lparr>cp_pc := Owned\<rparr>) w)"
| recorded: "\<lbrakk>cw_procs w p = Some c; cp_pc c = Owned\<rbrakk>
     \<Longrightarrow> claim_step timeout settle late w (w\<lparr>cw_names := (cw_names w)(cp_cand c \<mapsto> rec)\<rparr>)"
| sign_failed: "\<lbrakk>cw_procs w p = Some c; cp_pc c = Claimed\<rbrakk>
     \<Longrightarrow> claim_step timeout settle late w (set_proc p (c\<lparr>cp_pc := Releasing\<rparr>) w)"
| delete_lands: "\<lbrakk>cw_procs w p = Some c; cp_pc c = Releasing\<rbrakk>
     \<Longrightarrow> claim_step timeout settle late w
           (set_proc p (c\<lparr>cp_pc := Released\<rparr>) (w\<lparr>cw_names := (cw_names w)(cp_cand c := None)\<rparr>))"

definition claim_reach :: "duration \<Rightarrow> duration \<Rightarrow> int \<Rightarrow> claim_world \<Rightarrow> claim_world \<Rightarrow> bool" where
  "claim_reach timeout settle late = (claim_step timeout settle late)\<^sup>*\<^sup>*"

subsection \<open>Invariant\<close>

text \<open>A claim whose write landed, from then on until it deletes it.\<close>

definition owner :: "claim_proc \<Rightarrow> bool" where
  "owner c \<longleftrightarrow> cp_put c = Landed \<and> cp_pc c \<in> {PutSent, Claimed, Owned, Releasing}"

text \<open>A claim that saw no record and may still write its own.\<close>

definition may_write :: "claim_proc \<Rightarrow> bool" where
  "may_write c \<longleftrightarrow> cp_pc c = AtPut \<or> cp_put c = InFlight"

definition lock_ok :: "duration \<Rightarrow> vstate \<Rightarrow> claim_proc \<Rightarrow> bool" where
  "lock_ok settle v c \<longleftrightarrow> cp_start c \<le> clock v \<and>
     (case cp_locked c of
        None \<Rightarrow> cp_pc c \<in> {AtLock, GaveUp} \<and> cp_put c = NoPut
      | Some t \<Rightarrow> cp_pc c \<noteq> AtLock \<and> cp_start c \<le> t \<and> t \<le> clock v
          \<and> (clock v < t + to_ms settle \<longrightarrow>
               live v (claimLockKey (cp_cand c)) = Some (VStr ''1'', Some (t + to_ms settle))))"

definition pc_ok :: "claim_proc \<Rightarrow> bool" where
  "pc_ok c \<longleftrightarrow> (cp_pc c \<in> {AtLock, AtGet, AtPut} \<longrightarrow> cp_put c = NoPut)
     \<and> (cp_pc c \<in> {Claimed, Owned, Releasing} \<longrightarrow> cp_put c = Landed)
     \<and> (cp_put c = InFlight \<longrightarrow> cp_pc c \<in> {PutSent, GaveUp})"

definition name_ok :: "duration \<Rightarrow> int \<Rightarrow> NameRecord option \<Rightarrow> claim_proc \<Rightarrow> bool" where
  "name_ok settle now rec c \<longleftrightarrow>
     (may_write c \<and> now < cp_start c + to_ms settle \<longrightarrow> rec = None)
     \<and> (owner c \<longrightarrow> rec \<noteq> None \<and> (cp_pc c = Owned \<or> rec = Some (cp_rec c)))"

definition proc_ok :: "duration \<Rightarrow> claim_world \<Rightarrow> claim_proc \<Rightarrow> bool" where
  "proc_ok settle w c \<longleftrightarrow> lock_ok settle (cw_vk w) c \<and> pc_ok c
     \<and> name_ok settle (clock (cw_vk w)) (cw_names w (cp_cand c)) c"

definition apart :: "duration \<Rightarrow> claim_proc \<Rightarrow> claim_proc \<Rightarrow> bool" where
  "apart settle c d \<longleftrightarrow>
     (\<forall>a b. cp_locked c = Some a \<longrightarrow> cp_locked d = Some b \<longrightarrow> a + to_ms settle \<le> b \<or> b + to_ms settle \<le> a)
     \<and> \<not> (owner c \<and> owner d)"

definition claim_inv :: "duration \<Rightarrow> claim_world \<Rightarrow> bool" where
  "claim_inv settle w \<longleftrightarrow>
     (\<forall>p c. cw_procs w p = Some c \<longrightarrow> proc_ok settle w c)
     \<and> (\<forall>p q c d. cw_procs w p = Some c \<longrightarrow> cw_procs w q = Some d \<longrightarrow> p \<noteq> q \<longrightarrow> cp_cand c = cp_cand d \<longrightarrow> apart settle c d)"

lemma apart_sym: "apart settle c d \<Longrightarrow> apart settle d c"
  unfolding apart_def by blast

lemma apart_keep:
  "apart settle c d \<Longrightarrow> cp_locked c' = cp_locked c \<Longrightarrow> (owner c' \<Longrightarrow> owner c) \<Longrightarrow> apart settle c' d"
  unfolding apart_def by auto

lemma inv_procD: "claim_inv settle w \<Longrightarrow> cw_procs w p = Some c \<Longrightarrow> proc_ok settle w c"
  unfolding claim_inv_def by blast

lemma inv_apartD:
  "claim_inv settle w \<Longrightarrow> cw_procs w p = Some c \<Longrightarrow> cw_procs w q = Some d \<Longrightarrow> p \<noteq> q \<Longrightarrow> cp_cand c = cp_cand d \<Longrightarrow> apart settle c d"
  unfolding claim_inv_def by blast

lemma inv_change:
  assumes "cw_procs w' = (cw_procs w)(p \<mapsto> c')" "proc_ok settle w' c'"
    and "\<And>q d. q \<noteq> p \<Longrightarrow> cw_procs w q = Some d \<Longrightarrow> proc_ok settle w' d"
    and "\<And>q d. q \<noteq> p \<Longrightarrow> cw_procs w q = Some d \<Longrightarrow> cp_cand d = cp_cand c' \<Longrightarrow> apart settle c' d"
    and "claim_inv settle w"
  shows "claim_inv settle w'"
  unfolding claim_inv_def
proof (intro conjI allI impI)
  fix q d assume "cw_procs w' q = Some d"
  then show "proc_ok settle w' d" using assms(1-3) by (cases "q = p") auto
next
  fix q r d e assume "cw_procs w' q = Some d" "cw_procs w' r = Some e" "q \<noteq> r" "cp_cand d = cp_cand e"
  then show "apart settle d e"
    using assms(1,4) inv_apartD [OF assms(5), of q d r e] by (cases "q = p"; cases "r = p") (auto intro: apart_sym)
qed

lemma proc_ok_same:
  assumes "clock (cw_vk w') = clock (cw_vk w)" "cw_names w' (cp_cand c) = cw_names w (cp_cand c)"
    and "live (cw_vk w') (claimLockKey (cp_cand c)) = live (cw_vk w) (claimLockKey (cp_cand c))"
  shows "proc_ok settle w' c = proc_ok settle w c"
  by (simp only: proc_ok_def lock_ok_def assms)

lemma set_proc_simps [simp]:
  "cw_vk (set_proc p c w) = cw_vk w" "cw_names (set_proc p c w) = cw_names w"
  "cw_procs (set_proc p c w) = (cw_procs w)(p \<mapsto> c)"
  by (simp_all add: set_proc_def)

text \<open>A step of one claim that changes neither store nor lock.\<close>

lemma inv_local:
  assumes "claim_inv settle w" "cw_procs w p = Some c" "cp_cand c' = cp_cand c" "cp_locked c' = cp_locked c"
    and "owner c' \<Longrightarrow> owner c" "proc_ok settle w c'"
  shows "claim_inv settle (set_proc p c' w)"
proof (rule inv_change [OF _ _ _ _ assms(1), of _ p c'])
  show "proc_ok settle (set_proc p c' w) c'" using assms(6) by (subst proc_ok_same) simp_all
  show "proc_ok settle (set_proc p c' w) d" if "cw_procs w q = Some d" for q d
    using inv_procD [OF assms(1) that] by (subst proc_ok_same) simp_all
  show "apart settle c' d" if "q \<noteq> p" "cw_procs w q = Some d" "cp_cand d = cp_cand c'" for q d
    using inv_apartD [OF assms(1,2) that(2)] that assms(3-5) by (auto intro: apart_keep)
qed simp

lemma live_clock: "live v k = Some (x, Some t) \<Longrightarrow> u < t \<Longrightarrow> live (v\<lparr>clock := u\<rparr>) k = Some (x, Some t)"
  by (auto simp: live_def split: option.splits if_splits)

lemma inv_tick:
  assumes "claim_inv settle w" "t \<ge> clock (cw_vk w)"
  shows "claim_inv settle (w\<lparr>cw_vk := (cw_vk w)\<lparr>clock := t\<rparr>\<rparr>)"
proof -
  have "proc_ok settle (w\<lparr>cw_vk := (cw_vk w)\<lparr>clock := t\<rparr>\<rparr>) c" if "cw_procs w p = Some c" for p c
    using inv_procD [OF assms(1) that] assms(2)
    by (cases "cp_locked c") (auto simp: proc_ok_def lock_ok_def name_ok_def live_clock)
  then show ?thesis using assms(1) unfolding claim_inv_def by simp
qed

lemma claimLockKey_inj [simp]: "claimLockKey a = claimLockKey b \<longleftrightarrow> a = b"
  by (simp add: claimLockKey_def)

lemma claim_lock_other:
  "claim_lock settle cand v = (r, v') \<Longrightarrow> clock v' = clock v \<and> (k \<noteq> claimLockKey cand \<or> live v k \<noteq> None \<longrightarrow> live v' k = live v k)"
  by (auto simp: claim_lock_def live_put split: if_splits)

lemma claim_lock_taken:
  assumes "claim_lock settle cand v = (RBool True, v')" "settle > 0"
  shows "live v (claimLockKey cand) = None" "live v' (claimLockKey cand) = Some (VStr ''1'', Some (clock v + to_ms settle))"
  using assms by (auto simp: claim_lock_def live_put ttl_at_def to_ms_def split: if_splits)

text \<open>Taking or losing the lock does not touch the lock of a claim in its window.\<close>

lemma proc_ok_lock:
  assumes "proc_ok settle w d" "claim_lock settle cand (cw_vk w) = (r, v')"
  shows "proc_ok settle (w\<lparr>cw_vk := v'\<rparr>) d"
proof -
  note l = claim_lock_other [OF assms(2), of "claimLockKey (cp_cand d)"]
  show ?thesis using assms(1) l by (cases "cp_locked d") (auto simp: proc_ok_def lock_ok_def)
qed

lemmas pc_simps = pc_ok_def name_ok_def owner_def may_write_def

lemma inv_lock_taken:
  assumes "claim_inv settle w" "settle > 0" and c: "cw_procs w p = Some c" "cp_pc c = AtLock"
    and l: "claim_lock settle (cp_cand c) (cw_vk w) = (RBool True, v')"
  shows "claim_inv settle (set_proc p (c\<lparr>cp_locked := Some (clock (cw_vk w)), cp_pc := AtGet\<rparr>) (w\<lparr>cw_vk := v'\<rparr>))"
proof (rule inv_change [OF _ _ _ _ assms(1), of _ p "c\<lparr>cp_locked := Some (clock (cw_vk w)), cp_pc := AtGet\<rparr>"])
  let ?c = "c\<lparr>cp_locked := Some (clock (cw_vk w)), cp_pc := AtGet\<rparr>"
  have ok: "proc_ok settle w c" by (rule inv_procD [OF assms(1) c(1)])
  have clk: "clock v' = clock (cw_vk w)" using claim_lock_other [OF l] by simp
  have "cp_put c = NoPut" "cp_start c \<le> clock (cw_vk w)" using ok c(2) by (auto simp: proc_ok_def pc_ok_def lock_ok_def)
  then show "proc_ok settle (set_proc p ?c (w\<lparr>cw_vk := v'\<rparr>)) ?c"
    using claim_lock_taken [OF l assms(2)] clk by (simp add: proc_ok_def lock_ok_def pc_simps)
  show "proc_ok settle (set_proc p ?c (w\<lparr>cw_vk := v'\<rparr>)) d" if "cw_procs w q = Some d" for q d
    using proc_ok_lock [OF inv_procD [OF assms(1) that] l] by (subst proc_ok_same [of _ "w\<lparr>cw_vk := v'\<rparr>"]) simp_all
  show "apart settle ?c d" if d: "q \<noteq> p" "cw_procs w q = Some d" "cp_cand d = cp_cand ?c" for q d
  proof -
    have "t + to_ms settle \<le> clock (cw_vk w)" if "cp_locked d = Some t" for t
      using inv_procD [OF assms(1) d(2)] that claim_lock_taken(1) [OF l assms(2)] d(3)
      by (auto simp: proc_ok_def lock_ok_def not_le)
    then show ?thesis by (auto simp: apart_def owner_def)
  qed
qed simp

lemma inv_lock_lost:
  assumes "claim_inv settle w" and c: "cw_procs w p = Some c" "cp_pc c = AtLock"
    and l: "claim_lock settle (cp_cand c) (cw_vk w) = (r, v')"
  shows "claim_inv settle (set_proc p (c\<lparr>cp_pc := GaveUp\<rparr>) (w\<lparr>cw_vk := v'\<rparr>))"
proof (rule inv_change [OF _ _ _ _ assms(1), of _ p "c\<lparr>cp_pc := GaveUp\<rparr>"])
  let ?c = "c\<lparr>cp_pc := GaveUp\<rparr>"
  have "proc_ok settle w ?c" using inv_procD [OF assms(1) c(1)] c(2)
    by (cases "cp_locked c") (auto simp: proc_ok_def lock_ok_def pc_simps)
  then show "proc_ok settle (set_proc p ?c (w\<lparr>cw_vk := v'\<rparr>)) ?c"
    using proc_ok_lock [OF _ l] by (subst proc_ok_same [of _ "w\<lparr>cw_vk := v'\<rparr>"]) simp_all
  show "proc_ok settle (set_proc p ?c (w\<lparr>cw_vk := v'\<rparr>)) d" if "cw_procs w q = Some d" for q d
    using proc_ok_lock [OF inv_procD [OF assms(1) that] l] by (subst proc_ok_same [of _ "w\<lparr>cw_vk := v'\<rparr>"]) simp_all
  show "apart settle ?c d" if "q \<noteq> p" "cw_procs w q = Some d" "cp_cand d = cp_cand ?c" for q d
    using inv_apartD [OF assms(1) c(1) that(2)] that by (auto simp: owner_def intro: apart_keep)
qed simp

text \<open>Two claims of one name cannot both be in the window of their lock.\<close>

lemma not_both_windows:
  assumes "apart settle c d" "proc_ok settle w c" "proc_ok settle w d" "may_write c" "may_write d"
  shows "\<not> (clock (cw_vk w) < cp_start c + to_ms settle \<and> clock (cw_vk w) < cp_start d + to_ms settle)"
proof -
  obtain a b where "cp_locked c = Some a" "cp_locked d = Some b"
    using assms(2-5) by (cases "cp_locked c"; cases "cp_locked d") (auto simp: proc_ok_def lock_ok_def may_write_def)
  then show ?thesis using assms(1-3) by (auto simp: proc_ok_def lock_ok_def apart_def)
qed

text \<open>A write to the registry under a name: what the other claims of the name need of it.\<close>

lemma inv_write:
  assumes inv: "claim_inv settle w" and c: "cw_procs w p = Some c"
    and c': "cp_cand c' = cp_cand c" "cp_locked c' = cp_locked c"
    and w': "w' = set_proc p c' (w\<lparr>cw_names := (cw_names w)(cp_cand c := x)\<rparr>)" and self: "proc_ok settle w' c'"
    and no: "\<And>q d. q \<noteq> p \<Longrightarrow> cw_procs w q = Some d \<Longrightarrow> cp_cand d = cp_cand c \<Longrightarrow>
        \<not> owner d \<and> (x = None \<or> \<not> (may_write d \<and> clock (cw_vk w) < cp_start d + to_ms settle))"
  shows "claim_inv settle w'"
proof (rule inv_change [OF _ self _ _ inv, of p])
  show "proc_ok settle w' d" if d: "q \<noteq> p" "cw_procs w q = Some d" for q d
  proof (cases "cp_cand d = cp_cand c")
    case True
    then show ?thesis using inv_procD [OF inv d(2)] no [OF d] w' by (auto simp: proc_ok_def name_ok_def)
  next
    case False
    then show ?thesis using inv_procD [OF inv d(2)] w' by (subst proc_ok_same [of _ w]) simp_all
  qed
  show "apart settle c' d" if d: "q \<noteq> p" "cw_procs w q = Some d" "cp_cand d = cp_cand c'" for q d
    using inv_apartD [OF inv c d(2)] no [OF d(1,2)] d c' by (auto simp: apart_def)
qed (simp add: w')

lemma inv_put_land:
  assumes inv: "claim_inv settle w" and c: "cw_procs w p = Some c" "cp_put c = InFlight"
    and t: "clock (cw_vk w) < cp_start c + to_ms settle"
  shows "claim_inv settle (set_proc p (c\<lparr>cp_put := Landed\<rparr>) (w\<lparr>cw_names := (cw_names w)(cp_cand c \<mapsto> cp_rec c)\<rparr>))"
proof (rule inv_write [OF inv c(1) _ _ refl])
  have ok: "proc_ok settle w c" by (rule inv_procD [OF inv c(1)])
  then have none: "cw_names w (cp_cand c) = None" using c t by (simp add: proc_ok_def name_ok_def may_write_def)
  show "proc_ok settle (set_proc p (c\<lparr>cp_put := Landed\<rparr>) (w\<lparr>cw_names := (cw_names w)(cp_cand c \<mapsto> cp_rec c)\<rparr>)) (c\<lparr>cp_put := Landed\<rparr>)"
    using ok c(2) by (cases "cp_locked c") (auto simp: proc_ok_def lock_ok_def pc_simps)
  show "\<not> owner d \<and> (Some (cp_rec c) = None \<or> \<not> (may_write d \<and> clock (cw_vk w) < cp_start d + to_ms settle))"
    if "q \<noteq> p" "cw_procs w q = Some d" "cp_cand d = cp_cand c" for q d
    using inv_procD [OF inv that(2)] none that(3) t c(2)
      not_both_windows [OF inv_apartD [OF inv c(1) that(2)] ok inv_procD [OF inv that(2)]] that(1)
    by (auto simp: proc_ok_def name_ok_def may_write_def)
qed simp_all

lemma inv_recorded:
  assumes inv: "claim_inv settle w" and c: "cw_procs w p = Some c" "cp_pc c = Owned"
  shows "claim_inv settle (w\<lparr>cw_names := (cw_names w)(cp_cand c \<mapsto> rec)\<rparr>)"
proof -
  have ok: "proc_ok settle w c" by (rule inv_procD [OF inv c(1)])
  have own: "owner c" using ok c(2) by (auto simp: proc_ok_def pc_ok_def owner_def)
  have "claim_inv settle (set_proc p c (w\<lparr>cw_names := (cw_names w)(cp_cand c \<mapsto> rec)\<rparr>))"
  proof (rule inv_write [OF inv c(1) _ _ refl])
    show "proc_ok settle (set_proc p c (w\<lparr>cw_names := (cw_names w)(cp_cand c \<mapsto> rec)\<rparr>)) c"
      using ok own c(2) by (auto simp: proc_ok_def name_ok_def may_write_def owner_def)
    show "\<not> owner d \<and> (Some rec = None \<or> \<not> (may_write d \<and> clock (cw_vk w) < cp_start d + to_ms settle))"
      if "q \<noteq> p" "cw_procs w q = Some d" "cp_cand d = cp_cand c" for q d
      using inv_apartD [OF inv c(1) that(2)] that own ok inv_procD [OF inv that(2)]
      by (auto simp: apart_def proc_ok_def name_ok_def)
  qed simp_all
  moreover have "set_proc p c (w\<lparr>cw_names := n\<rparr>) = w\<lparr>cw_names := n\<rparr>" for n
    using c(1) by (cases w) (auto simp: set_proc_def)
  ultimately show ?thesis by simp
qed

lemma inv_delete:
  assumes inv: "claim_inv settle w" and c: "cw_procs w p = Some c" "cp_pc c = Releasing"
  shows "claim_inv settle (set_proc p (c\<lparr>cp_pc := Released\<rparr>) (w\<lparr>cw_names := (cw_names w)(cp_cand c := None)\<rparr>))"
proof (rule inv_write [OF inv c(1) _ _ refl])
  have ok: "proc_ok settle w c" by (rule inv_procD [OF inv c(1)])
  have own: "owner c" using ok c(2) by (auto simp: proc_ok_def pc_ok_def owner_def)
  show "proc_ok settle (set_proc p (c\<lparr>cp_pc := Released\<rparr>) (w\<lparr>cw_names := (cw_names w)(cp_cand c := None)\<rparr>)) (c\<lparr>cp_pc := Released\<rparr>)"
    using ok c(2) by (cases "cp_locked c") (auto simp: proc_ok_def lock_ok_def pc_simps)
  show "\<not> owner d \<and> (None = None \<or> \<not> (may_write d \<and> clock (cw_vk w) < cp_start d + to_ms settle))"
    if "q \<noteq> p" "cw_procs w q = Some d" "cp_cand d = cp_cand c" for q d
    using inv_apartD [OF inv c(1) that(2)] that own by (auto simp: apart_def)
qed simp_all

lemma inv_start:
  assumes inv: "claim_inv settle w" and "cw_procs w p = None"
  shows "claim_inv settle (set_proc p (new_claim cand rec (clock (cw_vk w))) w)"
proof (rule inv_change [OF _ _ _ _ inv, of _ p "new_claim cand rec (clock (cw_vk w))"])
  show "proc_ok settle (set_proc p (new_claim cand rec (clock (cw_vk w))) w) (new_claim cand rec (clock (cw_vk w)))"
    by (simp add: proc_ok_def lock_ok_def pc_simps new_claim_def)
  show "proc_ok settle (set_proc p (new_claim cand rec (clock (cw_vk w))) w) d" if "cw_procs w q = Some d" for q d
    using inv_procD [OF inv that] by (subst proc_ok_same [of _ w]) simp_all
  show "apart settle (new_claim cand rec (clock (cw_vk w))) d" for d
    by (simp add: apart_def owner_def new_claim_def)
qed simp

lemma inv_other:
  assumes inv: "claim_inv settle w" and "clock v' = clock (cw_vk w)"
    and "\<And>cand. live v' (claimLockKey cand) = live (cw_vk w) (claimLockKey cand)"
  shows "claim_inv settle (w\<lparr>cw_vk := v'\<rparr>)"
proof -
  have "proc_ok settle (w\<lparr>cw_vk := v'\<rparr>) d = proc_ok settle w d" for d by (rule proc_ok_same) (simp_all add: assms)
  then show ?thesis using inv unfolding claim_inv_def by simp
qed

lemma claim_step_inv:
  assumes "claim_step timeout settle late w w'" "claim_inv settle w" "0 < settle" "to_ms timeout + late < to_ms settle"
  shows "claim_inv settle w'"
  using assms(1)
proof cases
  case (tick t)
  then show ?thesis using inv_tick [OF assms(2)] by simp
next
  case (other v')
  then show ?thesis using inv_other [OF assms(2)] by simp
next
  case (start p cand rec)
  then show ?thesis using inv_start [OF assms(2)] by simp
next
  case (lock_taken p c v')
  then show ?thesis using inv_lock_taken [OF assms(2,3)] by simp
next
  case (lock_lost p c r v')
  then show ?thesis using inv_lock_lost [OF assms(2)] by simp
next
  case (put_land p c)
  then show ?thesis using inv_put_land [OF assms(2)] assms(4) by simp
next
  case (recorded p c rec)
  then show ?thesis using inv_recorded [OF assms(2)] by simp
next
  case (delete_lands p c)
  then show ?thesis using inv_delete [OF assms(2)] by simp
qed (hypsubst, frule inv_procD [OF assms(2)], rule inv_local [OF assms(2)], assumption, simp, simp,
    fastforce simp: proc_ok_def lock_ok_def pc_simps, fastforce simp: proc_ok_def lock_ok_def pc_simps split: option.splits)+

text \<open>A name in the registry that no running claim owns stays as it is.\<close>

definition settled :: "string \<Rightarrow> NameRecord \<Rightarrow> claim_world \<Rightarrow> bool" where
  "settled n r w \<longleftrightarrow> cw_names w n = Some r \<and> (\<forall>p c. cw_procs w p = Some c \<longrightarrow> cp_cand c = n \<longrightarrow> \<not> owner c)"

lemma settled_set_proc:
  assumes "settled n r w" "cw_procs w p = Some c" "cp_cand c' = cp_cand c" "owner c' \<Longrightarrow> owner c"
    and "cw_names w1 = cw_names w" "cw_procs w1 = cw_procs w"
  shows "settled n r (set_proc p c' w1)"
  using assms unfolding settled_def by (auto split: if_splits)

lemma settled_write:
  assumes "settled n r w" "cp_cand c \<noteq> n" "cp_cand c' = cp_cand c" "w' = set_proc p c' (w\<lparr>cw_names := (cw_names w)(cp_cand c := x)\<rparr>)"
  shows "settled n r w'"
  using assms unfolding settled_def by (auto split: if_splits)

lemma settled_step:
  assumes "claim_step timeout settle late w w'" "claim_inv settle w" "to_ms timeout + late < to_ms settle" "settled n r w"
  shows "settled n r w'"
proof -
  have own: "cp_pc c \<notin> {Claimed, Owned, Releasing}" if "cw_procs w p = Some c" "cp_cand c = n" for p c
  proof -
    have "\<not> owner c" using assms(4) that unfolding settled_def by blast
    then show ?thesis using inv_procD [OF assms(2) that(1)] unfolding proc_ok_def pc_ok_def owner_def by blast
  qed
  have fly: "cp_cand c \<noteq> n" if "cw_procs w p = Some c" "cp_put c = InFlight" "clock (cw_vk w) \<le> cp_start c + to_ms timeout + late" for p c
  proof -
    have "cw_names w (cp_cand c) = None" using inv_procD [OF assms(2) that(1)] that(2,3) assms(3)
      by (simp add: proc_ok_def name_ok_def may_write_def)
    then show ?thesis using assms(4) by (auto simp: settled_def)
  qed
  show ?thesis using assms(1)
  proof cases
    case (start p cand rec)
    then show ?thesis using assms(4) by (auto simp: settled_def new_claim_def owner_def)
  next
    case (put_land p c)
    then show ?thesis using settled_write [OF assms(4) fly [of p c] _ put_land(1)] by simp
  next
    case (recorded p c rec)
    then have "cp_cand c \<noteq> n" using own [of p c] by auto
    then show ?thesis using assms(4) recorded by (auto simp: settled_def)
  next
    case (delete_lands p c)
    then have "cp_cand c \<noteq> n" using own [of p c] by auto
    then show ?thesis using settled_write [OF assms(4) _ _ delete_lands(1)] by simp
  next
    case (lock_taken p c v')
    show ?thesis unfolding lock_taken(1) by (rule settled_set_proc [OF assms(4) lock_taken(2)]) (simp_all add: owner_def)
  next
    case (lock_lost p c r v')
    show ?thesis unfolding lock_lost(1) by (rule settled_set_proc [OF assms(4) lock_lost(2)]) (simp_all add: owner_def)
  next
    case (tick t)
    then show ?thesis using assms(4) unfolding settled_def by simp
  next
    case (other v')
    then show ?thesis using assms(4) unfolding settled_def by simp
  qed (hypsubst, rule settled_set_proc [OF assms(4)], assumption, simp, fastforce simp: owner_def, simp, simp)+
qed

lemma claim_reach_inv:
  assumes "claim_reach timeout settle late w0 w" "cw_procs w0 = Map.empty" "0 < settle" "to_ms timeout + late < to_ms settle"
  shows "claim_inv settle w \<and> (cw_names w0 n = Some r \<longrightarrow> settled n r w)"
  using assms(1) unfolding claim_reach_def
proof induction
  case base
  then show ?case using assms(2) by (simp add: claim_inv_def settled_def)
next
  case (step y z)
  then show ?case using claim_step_inv [OF step.hyps(2) _ assms(3,4)] settled_step [OF step.hyps(2) _ assms(4)] by blast
qed

text \<open>
  C9. Names are unique. However many enrollments run at once on however many nodes, with any lost replies, failed calls, late
  writes and rolled-back claims, no two claims succeed with the same name, the record of a successful claim is its own until its
  phone is issued certificates, and a name that was in the registry before keeps its record. This needs the claim lock to outlive the deadline
  of a claim by more than a cancelled write can be late.
\<close>

theorem claimed_names_unique:
  assumes "claim_reach timeout settle late w0 w" "cw_procs w0 = Map.empty" "0 < settle" "to_ms timeout + late < to_ms settle"
    and "cw_procs w p = Some c" "cp_pc c \<in> {Claimed, Owned}"
  shows "(cp_pc c = Claimed \<longrightarrow> cw_names w (cp_cand c) = Some (cp_rec c)) \<and> cw_names w (cp_cand c) \<noteq> None
     \<and> (\<forall>q d. cw_procs w q = Some d \<and> q \<noteq> p \<and> cp_pc d \<in> {Claimed, Owned} \<longrightarrow> cp_cand d \<noteq> cp_cand c)
     \<and> (\<forall>n r. cw_names w0 n = Some r \<longrightarrow> cw_names w n = Some r \<and> cp_cand c \<noteq> n)"
proof (intro conjI allI impI)
  note inv = claim_reach_inv [OF assms(1-4), THEN conjunct1]
  note ok = inv_procD [OF inv assms(5)]
  have own: "owner d" if "cw_procs w q = Some d" "cp_pc d \<in> {Claimed, Owned}" for q d
    using inv_procD [OF inv that(1)] that(2) by (auto simp: proc_ok_def pc_ok_def owner_def)
  show "cw_names w (cp_cand c) \<noteq> None" "cp_pc c = Claimed \<Longrightarrow> cw_names w (cp_cand c) = Some (cp_rec c)"
    using ok own [OF assms(5,6)] by (auto simp: proc_ok_def name_ok_def)
  show "cp_cand d \<noteq> cp_cand c" if "cw_procs w q = Some d \<and> q \<noteq> p \<and> cp_pc d \<in> {Claimed, Owned}" for q d
    using inv_apartD [OF inv assms(5), of q d] own [OF assms(5,6)] own [of q d] that by (auto simp: apart_def)
  fix n r assume "cw_names w0 n = Some r"
  then have "settled n r w" using claim_reach_inv [OF assms(1-4)] by blast
  then show "cw_names w n = Some r" "cp_cand c \<noteq> n" using own [OF assms(5,6)] assms(5) by (auto simp: settled_def)
qed

subsection \<open>One claim after another\<close>

text \<open>The service of \<open>Enrollment\<close> on this world, each call succeeding at once.\<close>

fun world_exec :: "claim_world client" where
  "world_exec [] w = (Inr [], w)"
| "world_exec (c # cs) w =
     (let (r, v) = cmd_sem c (cw_vk w); (res, w1) = world_exec cs (w\<lparr>cw_vk := v\<rparr>)
      in (map_sum id ((#) r) res, w1))"

definition claim_service :: "duration \<Rightarrow> claim_world service" where
  "claim_service settle =
     \<lparr>sv_ex = world_exec,
      sv_GetName = (\<lambda>n w. (case cw_names w n of None \<Rightarrow> Inl ErrNotFound | Some r \<Rightarrow> Inr r, w)),
      sv_PutName = (\<lambda>n r w. (True, w\<lparr>cw_names := (cw_names w)(n \<mapsto> r)\<rparr>)),
      sv_DeleteName = (\<lambda>n w. (True, w\<lparr>cw_names := (cw_names w)(n := None)\<rparr>)),
      sv_Verify = (\<lambda>_ _ _. Inl ErrEmptyChain), sv_CreateCertificate = (\<lambda>_ _. None),
      sv_Obtain = (\<lambda>_ _ w. (Inl None, w)), sv_Renew = (\<lambda>_ _ _ w. (Inl None, w)), sv_ParseAddr = Some,
      sv_KeyFingerprint = (\<lambda>_. None), sv_TunnelDomain = [], sv_IssuePerWeek = 0, sv_EnrollHour = 0, sv_EnrollMinute = 0,
      sv_ClaimSettle = settle, sv_AttestOptional = False, sv_Evidence = False\<rparr>"

lemma world_do1: "do1 world_exec c w = (Inr (fst (cmd_sem c (cw_vk w))), w\<lparr>cw_vk := snd (cmd_sem c (cw_vk w))\<rparr>)"
  by (simp add: do1_def split: prod.split)

lemma set_proc_over [simp]:
  "set_proc p c (set_proc p d w) = set_proc p c w"
  "(set_proc p c w)\<lparr>cw_vk := v\<rparr> = set_proc p c (w\<lparr>cw_vk := v\<rparr>)"
  "(set_proc p c w)\<lparr>cw_names := n\<rparr> = set_proc p c (w\<lparr>cw_names := n\<rparr>)"
  by (simp_all add: set_proc_def)

lemma reach_step [trans]:
  "claim_reach timeout settle late w v \<Longrightarrow> claim_step timeout settle late v u \<Longrightarrow> claim_reach timeout settle late w u"
  unfolding claim_reach_def by (rule rtranclp.rtrancl_into_rtrancl)

lemma reach_start:
  "cw_procs w p = None \<Longrightarrow> claim_reach timeout settle late w (set_proc p (new_claim cand rec (clock (cw_vk w))) w)"
  unfolding claim_reach_def by (blast intro: claim_step.start)

lemma claimCandidate_run:
  assumes "cw_procs w p = None" "0 \<le> to_ms timeout" "0 \<le> late"
    and run: "claimCandidate (claim_service settle) cand rec now w = (res, w1)"
  shows "\<exists>c. claim_reach timeout settle late w (set_proc p c w1) \<and> cp_cand c = cand \<and> cp_rec c = claim_record rec now
     \<and> cp_pc c = (if res = Inr True then Claimed else GaveUp)"
proof -
  let ?c0 = "new_claim cand (claim_record rec now) (clock (cw_vk w))" and ?t = "clock (cw_vk w)"
  obtain r v where l: "claim_lock settle cand (cw_vk w) = (r, v)" by (meson surj_pair)
  have clk: "clock v = ?t" using claim_lock_other [OF l] by simp
  have d: "do1 world_exec (SETNX (claimLockKey cand) ''1'' settle) w = (Inr r, w\<lparr>cw_vk := v\<rparr>)"
    using l by (simp add: world_do1 claim_lock_def del: cmd_sem.simps)
  note start = reach_start [OF assms(1), of timeout settle late cand "claim_record rec now"]
  have lost: ?thesis if "res \<noteq> Inr True" "w1 = w\<lparr>cw_vk := v\<rparr>"
  proof -
    have "claim_step timeout settle late (set_proc p ?c0 w) (set_proc p (?c0\<lparr>cp_pc := GaveUp\<rparr>) (w\<lparr>cw_vk := v\<rparr>))"
      using claim_step.lock_lost [of "set_proc p ?c0 w" p ?c0 settle r v] l by (simp add: new_claim_def)
    from reach_step [OF start this] show ?thesis using that
      by (intro exI [of _ "?c0\<lparr>cp_pc := GaveUp\<rparr>"]) (simp add: new_claim_def)
  qed
  show ?thesis
  proof (cases "r = RBool True")
    case False
    then show ?thesis using run d lost
      by (cases r) (auto simp: claimCandidate_def claim_service_def split: bool.splits)
  next
    case True
    let ?c1 = "?c0\<lparr>cp_locked := Some ?t, cp_pc := AtGet\<rparr>" and ?w = "w\<lparr>cw_vk := v\<rparr>"
    have "claim_step timeout settle late (set_proc p ?c0 w) (set_proc p ?c1 ?w)"
      using claim_step.lock_taken [of "set_proc p ?c0 w" p ?c0 settle v] l True by (simp add: new_claim_def)
    note got = reach_step [OF start this]
    show ?thesis
    proof (cases "cw_names w cand")
      case (Some old)
      then have "claim_step timeout settle late (set_proc p ?c1 ?w) (set_proc p (?c1\<lparr>cp_pc := GaveUp\<rparr>) ?w)"
        using claim_step.give_up [of "set_proc p ?c1 ?w" p ?c1] by simp
      from reach_step [OF got this] show ?thesis using run d True Some
        by (intro exI [of _ "?c1\<lparr>cp_pc := GaveUp\<rparr>"]) (auto simp: claimCandidate_def claim_service_def new_claim_def)
    next
      case None
      let ?c2 = "?c1\<lparr>cp_pc := PutSent, cp_put := InFlight\<rparr>"
      let ?n = "?w\<lparr>cw_names := (cw_names w)(cand \<mapsto> claim_record rec now)\<rparr>"
      note got also have "claim_step timeout settle late (set_proc p ?c1 ?w) (set_proc p (?c1\<lparr>cp_pc := AtPut\<rparr>) ?w)"
        using claim_step.get_absent [of "set_proc p ?c1 ?w" p ?c1 timeout] None assms(2) clk by (simp add: new_claim_def)
      also have "claim_step timeout settle late (set_proc p (?c1\<lparr>cp_pc := AtPut\<rparr>) ?w) (set_proc p ?c2 ?w)"
        using claim_step.put_send [of "set_proc p (?c1\<lparr>cp_pc := AtPut\<rparr>) ?w" p "?c1\<lparr>cp_pc := AtPut\<rparr>" timeout] assms(2) clk
        by (simp add: new_claim_def)
      also have "claim_step timeout settle late (set_proc p ?c2 ?w) (set_proc p (?c2\<lparr>cp_put := Landed\<rparr>) ?n)"
        using claim_step.put_land [of "set_proc p ?c2 ?w" p ?c2 timeout late] assms(2,3) clk by (simp add: new_claim_def)
      also have "claim_step timeout settle late (set_proc p (?c2\<lparr>cp_put := Landed\<rparr>) ?n)
          (set_proc p (?c2\<lparr>cp_put := Landed, cp_pc := Claimed\<rparr>) ?n)"
        using claim_step.put_ok [of "set_proc p (?c2\<lparr>cp_put := Landed\<rparr>) ?n" p "?c2\<lparr>cp_put := Landed\<rparr>" timeout] assms(2) clk
        by (simp add: new_claim_def)
      finally show ?thesis using run d True None
        by (intro exI [of _ "?c2\<lparr>cp_put := Landed, cp_pc := Claimed\<rparr>"]) (auto simp: claimCandidate_def claim_service_def new_claim_def)
    qed
  qed
qed

text \<open>
  C27. The code implements the steps: running \<^verbatim>\<open>claimCandidate\<close> without interruption is a sequence of steps of the claim protocol, which
  ends with the claim made and the code's record under way when it returns true, and with the claim given up otherwise.
\<close>

theorem claimCandidate_refines:
  assumes "cw_procs w p = None" "0 \<le> to_ms timeout" "0 \<le> late"
    and "claimCandidate (claim_service settle) cand rec now w = (res, w1)"
  shows "\<exists>c. claim_reach timeout settle late w (set_proc p c w1) \<and> cp_cand c = cand \<and> cp_rec c = claim_record rec now
     \<and> cp_pc c = (if res = Inr True then Claimed else GaveUp)"
  by (rule claimCandidate_run [OF assms])

definition demo_claims :: claim_world where
  "demo_claims = \<lparr>cw_vk = \<lparr>clock = 0, keyspace = Map.empty\<rparr>, cw_names = Map.empty, cw_procs = Map.empty\<rparr>"

definition demo_name_record :: NameRecord where
  "demo_name_record = \<lparr>nr_Schema = 0, nr_EnrolledAt = 0, nr_LastRenewedAt = 0, nr_IdentityKeyFP = ''sha256:00'', nr_CA = [],
     nr_Cert = no_cert, nr_Device = no_device\<rparr>"

lemma demo_claim_first:
  "fst (claimCandidate (claim_service (5 * Second)) ''fox'' demo_name_record (7, 8) demo_claims) = Inr True"
  by code_simp

lemma claim_service_names:
  "claimCandidate (claim_service settle) cand rec now w = (res, w1) \<Longrightarrow> cw_procs w1 = cw_procs w"
  by (auto simp: claimCandidate_def claim_service_def world_do1 split: prod.splits reply.splits bool.splits option.splits if_splits)

theorem claimCandidate_refines_witness:
  "\<exists>c w1. claim_reach (3 * Second) (5 * Second) 1000 demo_claims (set_proc 0 c w1) \<and> cp_cand c = ''fox'' \<and> cp_pc c = Claimed"
proof -
  obtain w1 where run: "claimCandidate (claim_service (5 * Second)) ''fox'' demo_name_record (7, 8) demo_claims = (Inr True, w1)"
    using demo_claim_first by (metis prod.collapse)
  have "cw_procs demo_claims 0 = None" "0 \<le> to_ms (3 * Second)" "(0::int) \<le> 1000" by (simp_all add: demo_claims_def to_ms_def)
  from claimCandidate_refines [OF this run] show ?thesis by auto
qed

theorem claimed_names_unique_witness:
  "\<exists>w c d. claim_reach (3 * Second) (5 * Second) 1000 demo_claims w \<and> cw_procs w 0 = Some c \<and> cp_pc c = Claimed
     \<and> cw_names w ''fox'' = Some (claim_record demo_name_record (7, 8)) \<and> cw_procs w 1 = Some d \<and> cp_cand d = ''fox''
     \<and> cp_pc d \<noteq> Claimed"
proof -
  let ?sv = "claim_service (5 * Second)"
  obtain w1 where run: "claimCandidate ?sv ''fox'' demo_name_record (7, 8) demo_claims = (Inr True, w1)"
    using demo_claim_first by (metis prod.collapse)
  have p: "cw_procs demo_claims = Map.empty" "0 \<le> to_ms (3 * Second)" "(0::int) \<le> 1000" by (simp_all add: demo_claims_def to_ms_def)
  obtain c where r1: "claim_reach (3 * Second) (5 * Second) 1000 demo_claims (set_proc 0 c w1)"
    and c: "cp_cand c = ''fox''" "cp_rec c = claim_record demo_name_record (7, 8)" "cp_pc c = Claimed"
    using claimCandidate_run [OF _ p(2,3) run, of 0] p(1) by auto
  obtain res w2 where run2: "claimCandidate ?sv ''fox'' demo_name_record (9, 9) (set_proc 0 c w1) = (res, w2)" by (meson surj_pair)
  have "cw_procs (set_proc 0 c w1) 1 = None" using claim_service_names [OF run] p(1) by simp
  from claimCandidate_run [OF this p(2,3) run2] obtain d where r2: "claim_reach (3 * Second) (5 * Second) 1000 (set_proc 0 c w1) (set_proc 1 d w2)"
    and d: "cp_cand d = ''fox''" by blast
  have r: "claim_reach (3 * Second) (5 * Second) 1000 demo_claims (set_proc 1 d w2)"
    using r1 r2 unfolding claim_reach_def by (rule rtranclp_trans)
  have c0: "cw_procs (set_proc 1 d w2) 0 = Some c" using claim_service_names [OF run2] by simp
  have "(cp_pc c = Claimed \<longrightarrow> cw_names (set_proc 1 d w2) (cp_cand c) = Some (cp_rec c)) \<and> cw_names (set_proc 1 d w2) (cp_cand c) \<noteq> None
     \<and> (\<forall>q e. cw_procs (set_proc 1 d w2) q = Some e \<and> q \<noteq> 0 \<and> cp_pc e \<in> {Claimed, Owned} \<longrightarrow> cp_cand e \<noteq> cp_cand c)
     \<and> (\<forall>n r. cw_names demo_claims n = Some r \<longrightarrow> cw_names (set_proc 1 d w2) n = Some r \<and> cp_cand c \<noteq> n)"
    by (rule claimed_names_unique [OF r p(1) _ _ c0]) (simp_all add: to_ms_def c)
  then have "cw_names (set_proc 1 d w2) ''fox'' = Some (claim_record demo_name_record (7, 8))" "cp_pc d \<noteq> Claimed"
    using c d by (auto dest: spec [of _ 1])
  then show ?thesis using r c0 c d by (intro exI [of _ "set_proc 1 d w2"] exI [of _ c] exI [of _ d]) simp
qed

end
