(* ===== verification/Mesh_Client.thy ===== *)
theory Mesh_Client
  imports Route_Registry Go_Time "HOL-Library.AList"
begin

text \<open>
  The client side of the requests between nodes (\<^verbatim>\<open>src/internal/mesh/client.go\<close>): a pool of HTTP/2 clients per peer, made on
  first use, counted while a request runs, and removed by a reaper when idle. Pools are objects, because a request
  keeps its pool by pointer while the table of pools changes; the table maps a peer's address to an object.
\<close>

subsection \<open>Messages\<close>

record OpenPayload =
  op_Token :: string
  op_Addr :: string
  op_UseHTTPS :: bool
  op_UseMTLS :: bool
  op_ClientAddr :: string

record ControlRequest =
  cq_Op :: string
  cq_Tunnel :: string
  cq_ConnID :: string
  cq_Reason :: string
  cq_Open :: "OpenPayload option"

record ControlResponse =
  cs_Applied :: bool
  cs_IdleMS :: int

text \<open>What a control call comes back with: no answer, a status other than 200, or a body that may not decode.\<close>

datatype http_result = NoAnswer_ | Status nat | Body "ControlResponse option"

subsection \<open>Connection pools\<close>

record peerPool =
  pp_addr :: string
  pp_clients :: nat
  pp_next :: "64 word"
  pp_lastUse :: int
  pp_active :: int

record mesh_client =
  mc_poolSize :: nat
  mc_objs :: "peerPool list"
  mc_pools :: "(string \<times> nat) list"
  mc_gauge :: "(string \<times> nat) list"

definition NewClient :: "int \<Rightarrow> mesh_client" where
  "NewClient poolSize =
     \<lparr>mc_poolSize = (if poolSize < 1 then 4 else nat poolSize), mc_objs = [], mc_pools = [], mc_gauge = []\<rparr>"

definition upd_pool :: "nat \<Rightarrow> (peerPool \<Rightarrow> peerPool) \<Rightarrow> mesh_client \<Rightarrow> mesh_client" where
  "upd_pool i f c = (if i < length (mc_objs c) then c\<lparr>mc_objs := (mc_objs c)[i := f (mc_objs c ! i)]\<rparr> else c)"

text \<open>\<^verbatim>\<open>pool\<close>, all of it under the client's mutex: find or make the pool of a peer, stamp its use and count this acquisition.\<close>

definition make_pool :: "string \<Rightarrow> mesh_client \<Rightarrow> nat \<times> mesh_client" where
  "make_pool peer c =
     (case map_of (mc_pools c) peer of
        Some i \<Rightarrow> (i, c)
      | None \<Rightarrow>
          (length (mc_objs c),
           c\<lparr>mc_objs := mc_objs c @ [\<lparr>pp_addr = peer, pp_clients = mc_poolSize c, pp_next = 0, pp_lastUse = 0, pp_active = 0\<rparr>],
             mc_pools := AList.update peer (length (mc_objs c)) (mc_pools c),
             mc_gauge := mc_gauge c @ [(peer, mc_poolSize c)]\<rparr>))"

definition pool :: "string \<Rightarrow> int \<Rightarrow> mesh_client \<Rightarrow> nat \<times> mesh_client" where
  "pool peer now c =
     (case make_pool peer c of
        (i, c1) \<Rightarrow> (i, upd_pool i (\<lambda>p. p\<lparr>pp_lastUse := now, pp_active := pp_active p + 1\<rparr>) c1))"

text \<open>\<^verbatim>\<open>Run\<close>: the interval, and one tick under the mutex.\<close>

definition reap_after :: "duration \<Rightarrow> duration" where
  "reap_after d = (if d \<le> 0 then 10 * Minute else d)"

definition reapable :: "duration \<Rightarrow> int \<Rightarrow> peerPool \<Rightarrow> bool" where
  "reapable reapAfter now p \<longleftrightarrow> pp_lastUse p < now - reapAfter \<and> pp_active p \<le> 0"

definition reap :: "duration \<Rightarrow> int \<Rightarrow> mesh_client \<Rightarrow> mesh_client" where
  "reap reapAfter now c =
     (let idle = (\<lambda>(peer, i). i < length (mc_objs c) \<and> reapable reapAfter now (mc_objs c ! i))
      in c\<lparr>mc_pools := filter (\<lambda>e. \<not> idle e) (mc_pools c),
           mc_gauge := mc_gauge c @ map (\<lambda>(peer, i). (peer, 0)) (filter idle (mc_pools c))\<rparr>)"

text \<open>
  Which of the pool's clients a request uses: the counter moves by one, is read as Go's signed
  \<^verbatim>\<open>int\<close>, and the truncated remainder is the index. A negative one would be an out-of-range panic.
\<close>

definition go_rem :: "int \<Rightarrow> int \<Rightarrow> int" where
  "go_rem a b = a - go_div a b * b"

definition client_index :: "64 word \<Rightarrow> nat \<Rightarrow> int" where
  "client_index n len = go_rem (sint n) (int len)"

definition next_client :: "nat \<Rightarrow> mesh_client \<Rightarrow> int \<times> mesh_client" where
  "next_client i c =
     (let c1 = upd_pool i (\<lambda>p. p\<lparr>pp_next := pp_next p + 1\<rparr>) c;
          p = mc_objs c1 ! i
      in (client_index (pp_next p) (pp_clients p), c1))"

definition begin_call :: "string \<Rightarrow> int \<Rightarrow> mesh_client \<Rightarrow> (nat \<times> int) \<times> mesh_client" where
  "begin_call peer now c =
     (case pool peer now c of (i, c1) \<Rightarrow> case next_client i c1 of (k, c2) \<Rightarrow> ((i, k), c2))"

definition end_call :: "nat \<Rightarrow> mesh_client \<Rightarrow> mesh_client" where
  "end_call i c = upd_pool i (\<lambda>p. p\<lparr>pp_active := pp_active p - 1\<rparr>) c"

definition ControlPath :: string where "ControlPath = ''/api/v1/mesh/control''"

text \<open>
  \<^verbatim>\<open>Control\<close> over the transport of the chosen client, on the world \<open>w\<close> of the peers. \<open>during\<close> is what other goroutines do to the
  client meanwhile. \<open>encoded\<close> says whether the request could be encoded and built at all; the deferred decrement runs on every path.
\<close>

definition answer_of :: "http_result \<Rightarrow> ControlResponse option" where
  "answer_of r = (case r of Body b \<Rightarrow> b | _ \<Rightarrow> None)"

definition Control ::
  "(nat \<Rightarrow> string \<Rightarrow> ControlRequest \<Rightarrow> 'w \<Rightarrow> http_result \<times> 'w) \<Rightarrow> bool \<Rightarrow> int \<Rightarrow> (mesh_client \<Rightarrow> mesh_client) \<Rightarrow> string \<Rightarrow> ControlRequest
   \<Rightarrow> mesh_client \<times> 'w \<Rightarrow> ControlResponse option \<times> mesh_client \<times> 'w" where
  "Control transport encoded now during peer req cw =
     (case begin_call peer now (fst cw) of
        ((i, k), c1) \<Rightarrow>
          if k < 0 \<or> \<not> encoded then (None, end_call i c1, snd cw)
          else (case transport (nat k) peer req (snd cw) of
                  (res, w) \<Rightarrow> (answer_of res, end_call i (during c1), w)))"

subsection \<open>Interleaved calls and the reaper\<close>

text \<open>
  The client under concurrent use: the running calls, each with its peer and its pool, a call beginning, a call
  ending on any path, and the reaper's tick at any time.
\<close>

inductive mesh_step ::
  "duration \<Rightarrow> mesh_client \<times> (string \<times> nat) list \<Rightarrow> mesh_client \<times> (string \<times> nat) list \<Rightarrow> bool" for reapAfter where
  Begin: "begin_call peer now c = ((i, k), c1) \<Longrightarrow> mesh_step reapAfter (c, running) (c1, (peer, i) # running)"
| End: "(peer, i) \<in> set running \<Longrightarrow> mesh_step reapAfter (c, running) (end_call i c, remove1 (peer, i) running)"
| Reap: "mesh_step reapAfter (c, running) (reap reapAfter now c, running)"

definition in_flight :: "nat \<Rightarrow> (string \<times> nat) list \<Rightarrow> nat" where
  "in_flight i running = length (filter (\<lambda>e. snd e = i) running)"

definition pool_inv :: "mesh_client \<times> (string \<times> nat) list \<Rightarrow> bool" where
  "pool_inv s = (case s of (c, running) \<Rightarrow>
     distinct (map fst (mc_pools c))
   \<and> (\<forall>(peer, i) \<in> set (mc_pools c). i < length (mc_objs c) \<and> pp_addr (mc_objs c ! i) = peer)
   \<and> (\<forall>i < length (mc_objs c). pp_active (mc_objs c ! i) = int (in_flight i running))
   \<and> (\<forall>(peer, i) \<in> set running. map_of (mc_pools c) peer = Some i))"


lemma pool_invI:
  "distinct (map fst (mc_pools c)) \<Longrightarrow>
   (\<And>peer i. (peer, i) \<in> set (mc_pools c) \<Longrightarrow> i < length (mc_objs c) \<and> pp_addr (mc_objs c ! i) = peer) \<Longrightarrow>
   (\<And>i. i < length (mc_objs c) \<Longrightarrow> pp_active (mc_objs c ! i) = int (in_flight i running)) \<Longrightarrow>
   (\<And>peer i. (peer, i) \<in> set running \<Longrightarrow> map_of (mc_pools c) peer = Some i) \<Longrightarrow> pool_inv (c, running)"
  unfolding pool_inv_def by auto

lemma pool_invD:
  assumes "pool_inv (c, running)"
  shows "distinct (map fst (mc_pools c))"
    and "(peer, i) \<in> set (mc_pools c) \<Longrightarrow> i < length (mc_objs c) \<and> pp_addr (mc_objs c ! i) = peer"
    and "i < length (mc_objs c) \<Longrightarrow> pp_active (mc_objs c ! i) = int (in_flight i running)"
    and "(peer, i) \<in> set running \<Longrightarrow> map_of (mc_pools c) peer = Some i"
  using assms unfolding pool_inv_def by auto

lemma running_pool:
  assumes "pool_inv (c, running)" "(peer, i) \<in> set running"
  shows "map_of (mc_pools c) peer = Some i" "i < length (mc_objs c)" "pp_addr (mc_objs c ! i) = peer" "0 < pp_active (mc_objs c ! i)"
proof -
  show m: "map_of (mc_pools c) peer = Some i" by (rule pool_invD(4) [OF assms])
  show l: "i < length (mc_objs c)" and "pp_addr (mc_objs c ! i) = peer"
    using pool_invD(2) [OF assms(1) map_of_SomeD [OF m]] by auto
  have "filter (\<lambda>e. snd e = i) running \<noteq> []" using assms(2) by (force simp: filter_empty_conv)
  then show "0 < pp_active (mc_objs c ! i)" using pool_invD(3) [OF assms(1) l] by (simp add: in_flight_def)
qed

lemma unused_object:
  assumes "pool_inv (c, running)" shows "in_flight (length (mc_objs c)) running = 0"
proof -
  have "snd e \<noteq> length (mc_objs c)" if "e \<in> set running" for e
    using running_pool(2) [OF assms, of "fst e" "snd e"] that by auto
  then show ?thesis by (auto simp: in_flight_def filter_empty_conv)
qed

lemma upd_pool_simps [simp]:
  "mc_pools (upd_pool i f c) = mc_pools c" "length (mc_objs (upd_pool i f c)) = length (mc_objs c)"
  "j < length (mc_objs c) \<Longrightarrow> mc_objs (upd_pool i f c) ! j = (if j = i then f (mc_objs c ! j) else mc_objs c ! j)"
  by (auto simp: upd_pool_def nth_list_update)

lemma upd_pool_twice: "upd_pool i f (upd_pool i g c) = upd_pool i (\<lambda>p. f (g p)) c"
  by (simp add: upd_pool_def)

lemma upd_pool_inv:
  assumes "pool_inv (c, running)" "\<And>p. pp_addr (f p) = pp_addr p"
    and "\<And>j. j < length (mc_objs c) \<Longrightarrow>
           (if j = i then pp_active (f (mc_objs c ! j)) else pp_active (mc_objs c ! j)) = int (in_flight j running')"
    and "\<And>peer j. (peer, j) \<in> set running' \<Longrightarrow> map_of (mc_pools c) peer = Some j"
  shows "pool_inv (upd_pool i f c, running')"
proof (rule pool_invI)
  show "distinct (map fst (mc_pools (upd_pool i f c)))" using pool_invD(1) [OF assms(1)] by simp
  show "j < length (mc_objs (upd_pool i f c)) \<and> pp_addr (mc_objs (upd_pool i f c) ! j) = peer"
    if "(peer, j) \<in> set (mc_pools (upd_pool i f c))" for peer j
    using pool_invD(2) [OF assms(1), of peer j] that assms(2) by auto
  show "pp_active (mc_objs (upd_pool i f c) ! j) = int (in_flight j running')" if "j < length (mc_objs (upd_pool i f c))" for j
    using assms(3) [of j] that by (simp split: if_splits)
  show "map_of (mc_pools (upd_pool i f c)) peer = Some j" if "(peer, j) \<in> set running'" for peer j
    using assms(4) [OF that] by simp
qed

lemma make_pool_inv:
  assumes "pool_inv (c, running)" "make_pool peer c = (i, c1)"
  shows "pool_inv (c1, running) \<and> map_of (mc_pools c1) peer = Some i \<and> i < length (mc_objs c1)"
proof (cases "map_of (mc_pools c) peer")
  case (Some k)
  then show ?thesis using assms pool_invD(2) [OF assms(1) map_of_SomeD [OF Some]] by (auto simp: make_pool_def)
next
  case None
  then have c1: "c1 = c\<lparr>mc_objs := mc_objs c @ [\<lparr>pp_addr = peer, pp_clients = mc_poolSize c, pp_next = 0, pp_lastUse = 0, pp_active = 0\<rparr>],
             mc_pools := AList.update peer (length (mc_objs c)) (mc_pools c), mc_gauge := mc_gauge c @ [(peer, mc_poolSize c)]\<rparr>"
    and i: "i = length (mc_objs c)"
    using assms(2) by (auto simp: make_pool_def)
  have up: "map_of (mc_pools c1) = (map_of (mc_pools c))(peer \<mapsto> i)" by (simp add: c1 i update_conv')
  have dist: "distinct (map fst (mc_pools c1))" using pool_invD(1) [OF assms(1)] by (simp add: c1 distinct_update)
  have "pool_inv (c1, running)"
  proof (rule pool_invI [OF dist])
    fix q j assume "(q, j) \<in> set (mc_pools c1)"
    then have "((map_of (mc_pools c))(peer \<mapsto> i)) q = Some j" using dist by (simp flip: up)
    then show "j < length (mc_objs c1) \<and> pp_addr (mc_objs c1 ! j) = q"
      using pool_invD(2) [OF assms(1) map_of_SomeD, of q j] by (auto simp: c1 i nth_append split: if_splits)
  next
    fix j assume "j < length (mc_objs c1)"
    then show "pp_active (mc_objs c1 ! j) = int (in_flight j running)"
      using pool_invD(3) [OF assms(1), of j] unused_object [OF assms(1)] by (auto simp: c1 nth_append less_Suc_eq)
  next
    fix q j assume "(q, j) \<in> set running"
    then show "map_of (mc_pools c1) q = Some j" using pool_invD(4) [OF assms(1)] None by (fastforce simp: up)
  qed
  then show ?thesis using up by (simp add: c1 i)
qed

lemma begin_call_inv:
  assumes "pool_inv (c, running)" "begin_call peer now c = ((i, k), c1)"
  shows "pool_inv (c1, (peer, i) # running)"
proof -
  obtain c0 where c0: "make_pool peer c = (i, c0)"
    and c1: "c1 = upd_pool i (\<lambda>p. p\<lparr>pp_next := pp_next p + 1\<rparr>)
                    (upd_pool i (\<lambda>p. p\<lparr>pp_lastUse := now, pp_active := pp_active p + 1\<rparr>) c0)"
    using assms(2) by (auto simp: begin_call_def pool_def next_client_def Let_def split: prod.splits)
  have m: "pool_inv (c0, running)" "map_of (mc_pools c0) peer = Some i" using make_pool_inv [OF assms(1) c0] by auto
  show ?thesis
    unfolding c1 upd_pool_twice
    by (rule upd_pool_inv [OF m(1)]) (use pool_invD(3,4) [OF m(1)] m(2) in \<open>auto simp: in_flight_def\<close>)
qed

lemma in_flight_remove:
  "(peer, i) \<in> set running \<Longrightarrow> int (in_flight j (remove1 (peer, i) running)) = int (in_flight j running) - (if j = i then 1 else 0)"
  by (induct running) (auto simp: in_flight_def)

lemma end_call_inv:
  assumes "pool_inv (c, running)" "(peer, i) \<in> set running"
  shows "pool_inv (end_call i c, remove1 (peer, i) running)"
  unfolding end_call_def
proof (rule upd_pool_inv [OF assms(1)])
  show "map_of (mc_pools c) q = Some j" if "(q, j) \<in> set (remove1 (peer, i) running)" for q j
    by (meson that notin_set_remove1 pool_invD(4) [OF assms(1)])
qed (use pool_invD(3) [OF assms(1)] in \<open>auto simp: in_flight_remove [OF assms(2)]\<close>)

lemma map_of_filter_kept:
  "map_of xs k = Some v \<Longrightarrow> P (k, v) \<Longrightarrow> distinct (map fst xs) \<Longrightarrow> map_of (filter P xs) k = Some v"
  by (induct xs) (auto split: if_splits dest: map_of_SomeD)

lemma reap_inv:
  assumes "pool_inv (c, running)"
  shows "pool_inv (reap d now c, running)"
proof (rule pool_invI)
  show "distinct (map fst (mc_pools (reap d now c)))"
    using pool_invD(1) [OF assms] by (simp add: reap_def Let_def distinct_map_filter)
  show "j < length (mc_objs (reap d now c)) \<and> pp_addr (mc_objs (reap d now c) ! j) = peer"
    if "(peer, j) \<in> set (mc_pools (reap d now c))" for peer j
    using pool_invD(2) [OF assms, of peer j] that by (auto simp: reap_def Let_def)
  show "pp_active (mc_objs (reap d now c) ! j) = int (in_flight j running)" if "j < length (mc_objs (reap d now c))" for j
    using pool_invD(3) [OF assms, of j] that by (simp add: reap_def Let_def)
  show "map_of (mc_pools (reap d now c)) peer = Some j" if "(peer, j) \<in> set running" for peer j
    unfolding reap_def Let_def
    using running_pool [OF assms that] by (auto simp: reapable_def intro!: map_of_filter_kept pool_invD(1) [OF assms])
qed

lemma mesh_step_inv: "mesh_step d s s' \<Longrightarrow> pool_inv s \<Longrightarrow> pool_inv s'"
  by (induct rule: mesh_step.induct) (auto intro: begin_call_inv end_call_inv reap_inv)

lemma mesh_run_inv: "(mesh_step d)\<^sup>*\<^sup>* (NewClient n, []) s \<Longrightarrow> pool_inv s"
proof (induct rule: rtranclp_induct)
  case base
  show ?case by (simp add: pool_inv_def NewClient_def)
qed (rule mesh_step_inv)


text \<open>
  C38. However calls to any peers and the reaper interleave, the pool a running call holds is the one the table has
  for its peer: the reaper never takes it away, and a second call to that peer shares it. Its count of active calls is
  exactly the number of running calls that hold it, so it returns to zero, and the pool can be reaped, once they have ended.
\<close>

theorem mesh_pool_held:
  assumes "(mesh_step reapAfter)\<^sup>*\<^sup>* (NewClient n, []) (c, running)" "(peer, i) \<in> set running"
  shows "map_of (mc_pools c) peer = Some i \<and> i < length (mc_objs c) \<and> pp_addr (mc_objs c ! i) = peer
       \<and> pp_active (mc_objs c ! i) = int (in_flight i running)
       \<and> (\<forall>now. map_of (mc_pools (reap reapAfter now c)) peer = Some i)"
proof -
  have inv: "pool_inv (c, running)" by (rule mesh_run_inv [OF assms(1)])
  show ?thesis
    using running_pool [OF inv assms(2)] pool_invD(3) [OF inv] running_pool(1) [OF reap_inv [OF inv] assms(2)] by blast
qed

theorem mesh_pool_held_witness:
  "\<exists>c. map_of (mc_pools c) ''b'' = Some 0 \<and> pp_active (mc_objs c ! 0) = 1 \<and> map_of (mc_pools (reap Minute (3 * Hour) c)) ''b'' = Some 0"
proof -
  define c1 where "c1 = snd (begin_call ''b'' 5 (NewClient 0))"
  have b: "begin_call ''b'' 5 (NewClient 0) = ((0, 1), c1)"
    by (simp add: c1_def begin_call_def pool_def make_pool_def next_client_def NewClient_def upd_pool_def client_index_def go_rem_def go_div_def)
  have "(mesh_step Minute)\<^sup>*\<^sup>* (NewClient 0, []) (c1, [(''b'', 0)])" by (rule r_into_rtranclp, rule mesh_step.Begin [OF b])
  from mesh_pool_held [OF this, of "''b''" 0] show ?thesis by (auto simp: in_flight_def)
qed

text \<open>Every client a request picks exists, as long as the pool has served fewer than \<open>2 ^ 63 - 1\<close> requests.\<close>

lemma client_index_range:
  assumes "0 < len" "uint n < 2 ^ 63"
  shows "0 \<le> client_index n len \<and> client_index n len < int len"
proof -
  have "\<not> bit (uint n) 63" using assms(2) by (simp add: bit_iff_odd)
  then have "sint n = uint n" using assms(2) by (simp add: sint_uint signed_take_bit_eq_if_positive take_bit_int_eq_self_iff)
  then show ?thesis
    using assms(1) by (simp add: client_index_def go_rem_def go_div_def minus_div_mult_eq_mod)
qed

end
