(* ===== verification/Mesh_Control.thy ===== *)
theory Mesh_Control
  imports Mesh_Client Phone_Handler
begin

text \<open>
  Requests between the nodes of a cluster: the listener that admits and dispatches one (\<^verbatim>\<open>src/internal/mesh/listener.go\<close>), this
  node's controller and the callers that use other nodes (\<^verbatim>\<open>src/internal/server/serve.go\<close>: opening a stream, broadcasting, freeing a
  stream slot elsewhere, telling the cluster that a phone is gone) and the drain (\<^verbatim>\<open>src/internal/server/drain.go\<close>). A node is its
  phone endpoint, its edge, the public connections being handled and its phase.
\<close>

abbreviation no_response :: ControlResponse where "no_response \<equiv> \<lparr>cs_Applied = False, cs_IdleMS = 0\<rparr>"

subsection \<open>This node's controller\<close>

datatype phase = Serving | StoppingPhase | DrainingPhase

record ('s, 'c) node =
  nd_phone :: "('s, 'c) phone_node"
  nd_edge :: "'s edge"
  nd_handling :: int
  nd_phase :: phase

definition nd_mgr :: "('s, 'c) node \<Rightarrow> 's manager" where "nd_mgr n = pn_mgr (nd_phone n)"

definition set_mgr :: "'s manager \<Rightarrow> ('s, 'c) node \<Rightarrow> ('s, 'c) node" where
  "set_mgr m n = n\<lparr>nd_phone := (nd_phone n)\<lparr>pn_mgr := m\<rparr>\<rparr>"

text \<open>What the controller needs besides the node: the JSON encoders, the nonce for a nudge, the edge's configuration and clock.\<close>

record 's control_env =
  ce_open :: "OpenPayload \<Rightarrow> string + bytes"
  ce_nudge :: "string \<Rightarrow> string \<Rightarrow> string + bytes"
  ce_nonce :: "string option"
  ce_ctx_done :: bool
  ce_cfg :: edge_config
  ce_ex :: "'s client"
  ce_now :: int
  ce_rounds :: "(('s edge \<Rightarrow> 's edge) \<times> int) list"

definition admin_Renew :: "'s control_env \<Rightarrow> string \<Rightarrow> ('s, 'c) node \<Rightarrow> bool option \<times> ('s, 'c) node" where
  "admin_Renew e tunnel n =
     (case ce_nonce e of
        None \<Rightarrow> (None, n)
      | Some nonceHex \<Rightarrow>
          (case SendRenewNudge tunnel (ce_nudge e nonceHex []) (nd_mgr n) of (ok, m) \<Rightarrow> (Some ok, set_mgr m n)))"

definition admin_Terminate :: "string \<Rightarrow> ('s, 'c) node \<Rightarrow> bool option \<times> ('s, 'c) node" where
  "admin_Terminate tunnel n =
     (let n1 = n\<lparr>nd_edge := EvictTunnelStreams tunnel (nd_edge n)\<rparr> in
      case Closem tunnel ''admin-terminate'' (nd_mgr n1) of (ok, m) \<Rightarrow> (Some ok, set_mgr m n1))"

text \<open>A send to a full queue ends with the request's deadline, an error like the others.\<close>

definition admin_Open :: "'s control_env \<Rightarrow> string \<Rightarrow> string \<Rightarrow> OpenPayload \<Rightarrow> ('s, 'c) node \<Rightarrow> bool option \<times> ('s, 'c) node" where
  "admin_Open e tunnel connID open n =
     (case SendOpen tunnel connID (ce_open e open) (ce_ctx_done e) (nd_mgr n) of
        (Queued, m) \<Rightarrow> (Some True, set_mgr m n)
      | (ErrNoConn, m) \<Rightarrow> (Some False, set_mgr m n)
      | (_, m) \<Rightarrow> (None, set_mgr m n))"

definition admin_Evict :: "string \<Rightarrow> string \<Rightarrow> string \<Rightarrow> ('s, 'c) node \<Rightarrow> bool option \<times> ('s, 'c) node" where
  "admin_Evict tunnel connID why n =
     (case EvictConnStreams tunnel connID why (nd_edge n) of (ok, e) \<Rightarrow> (Some ok, n\<lparr>nd_edge := e\<rparr>))"

definition admin_SlotCandidate :: "'s control_env \<Rightarrow> string \<Rightarrow> ('s, 'c) node \<Rightarrow> duration \<times> bool" where
  "admin_SlotCandidate e tunnel n = SlotCandidate (ce_cfg e) (ce_now e) tunnel (nd_edge n)"

definition admin_FreeSlot :: "'s control_env \<Rightarrow> string \<Rightarrow> ('s, 'c) node \<Rightarrow> bool \<times> ('s, 'c) node" where
  "admin_FreeSlot e tunnel n =
     (case FreeSlot (ce_cfg e) (ce_ex e) tunnel (ce_rounds e) (ce_now e) (nd_edge n) of (ok, ed) \<Rightarrow> (ok, n\<lparr>nd_edge := ed\<rparr>))"

subsection \<open>The listener\<close>

text \<open>\<^verbatim>\<open>serveControl\<close> of the mesh handler, on the decoded body; an error of the controller is answered 502.\<close>

definition mesh_dispatch :: "'s control_env \<Rightarrow> ControlRequest \<Rightarrow> ('s, 'c) node \<Rightarrow> ControlResponse option \<times> ('s, 'c) node" where
  "mesh_dispatch e req n =
     (let applied = (\<lambda>(res, n'). (map_option (\<lambda>ok. no_response\<lparr>cs_Applied := ok\<rparr>) res, n'))
      in if cq_Op req = ''renew'' then applied (admin_Renew e (cq_Tunnel req) n)
         else if cq_Op req = ''terminate'' then applied (admin_Terminate (cq_Tunnel req) n)
         else if cq_Op req = ''open'' then
           (case cq_Open req of
              None \<Rightarrow> (None, n) | Some open \<Rightarrow> applied (admin_Open e (cq_Tunnel req) (cq_ConnID req) open n))
         else if cq_Op req = ''evict'' then applied (admin_Evict (cq_Tunnel req) (cq_ConnID req) (cq_Reason req) n)
         else if cq_Op req = ''slot-candidate'' then
           (let (idle, ok) = admin_SlotCandidate e (cq_Tunnel req) n
            in (Some \<lparr>cs_Applied = ok, cs_IdleMS = milliseconds idle\<rparr>, n))
         else (let (ok, n1) = admin_FreeSlot e (cq_Tunnel req) n in (Some (no_response\<lparr>cs_Applied := ok\<rparr>), n1)))"

definition mesh_ops :: "string list" where
  "mesh_ops = [''renew'', ''terminate'', ''open'', ''evict'', ''slot-candidate'', ''free-slot'']"

definition valid_control :: "ControlRequest \<Rightarrow> bool" where
  "valid_control req \<longleftrightarrow> cq_Op req \<in> set mesh_ops \<and> cq_Tunnel req \<noteq> []
     \<and> \<not> ((cq_Op req = ''open'' \<or> cq_Op req = ''evict'') \<and> cq_ConnID req = [])
     \<and> \<not> (cq_Op req = ''open'' \<and> (case cq_Open req of None \<Rightarrow> True | Some o' \<Rightarrow> op_Token o' = [] \<or> op_Addr o' = []))"

definition mesh_serveControl :: "'s control_env \<Rightarrow> string \<Rightarrow> ControlRequest option \<Rightarrow> ('s, 'c) node \<Rightarrow> http_result \<times> ('s, 'c) node" where
  "mesh_serveControl e meth body n =
     (if meth \<noteq> ''POST'' then (Status 405, n)
      else case body of
        None \<Rightarrow> (Status 400, n)
      | Some req \<Rightarrow>
          if \<not> valid_control req then (Status 400, n)
          else (case mesh_dispatch e req n of
                  (None, n1) \<Rightarrow> (Status 502, n1)
                | (Some resp, n1) \<Rightarrow> (Body (Some resp), n1)))"

definition mesh_ServeHTTP ::
  "'s control_env \<Rightarrow> certificate list option \<Rightarrow> string \<Rightarrow> string \<Rightarrow> ControlRequest option \<Rightarrow> ('s, 'c) node \<Rightarrow> http_result \<times> ('s, 'c) node" where
  "mesh_ServeHTTP e peers path meth body n =
     (case peers of
        Some (leaf # _) \<Rightarrow>
          if \<not> HasMeshRole leaf then (Status 403, n)
          else if path \<noteq> ControlPath then (Status 404, n)
          else mesh_serveControl e meth body n
      | _ \<Rightarrow> (Status 403, n))"

subsection \<open>Calling other nodes\<close>

text \<open>A control call as its callers see it: the answer, or \<open>None\<close> for any error.\<close>

type_synonym 'w mesh_call = "string \<Rightarrow> ControlRequest \<Rightarrow> 'w \<Rightarrow> ControlResponse option \<times> 'w"

abbreviation control_request :: "string \<Rightarrow> string \<Rightarrow> ControlRequest" where
  "control_request op tunnel \<equiv> \<lparr>cq_Op = op, cq_Tunnel = tunnel, cq_ConnID = [], cq_Reason = [], cq_Open = None\<rparr>"

text \<open>\<^verbatim>\<open>broadcastControl\<close>: the nodes in the order their answers come in.\<close>

definition broadcast_step ::
  "'w mesh_call \<Rightarrow> ControlRequest \<Rightarrow> string \<times> NodeInfo \<Rightarrow> (bool \<times> string list) \<times> 'w \<Rightarrow> (bool \<times> string list) \<times> 'w" where
  "broadcast_step call req node acc =
     (case call (Advertise (snd node)) req (snd acc) of
        (None, w) \<Rightarrow> ((fst (fst acc), snd (fst acc) @ [fst node]), w)
      | (Some res, w) \<Rightarrow> ((fst (fst acc) \<or> cs_Applied res, snd (fst acc)), w))"

definition broadcastControl ::
  "'w mesh_call \<Rightarrow> string \<Rightarrow> (string \<times> NodeInfo) list \<Rightarrow> ControlRequest \<Rightarrow> 'w \<Rightarrow> (bool \<times> string list) \<times> 'w" where
  "broadcastControl call self nodes req w =
     fold (broadcast_step call req) (filter (\<lambda>(i, info). i \<noteq> self) nodes) ((False, []), w)"

datatype open_result = OpenOK | OpenFailed string

text \<open>\<^verbatim>\<open>openAdapter.Open\<close>: this node's phone directly, another node's through the mesh.\<close>

definition adapter_Open ::
  "'w mesh_call \<Rightarrow> (string \<Rightarrow> 'w \<Rightarrow> (rerr + string option) \<times> 'w) \<Rightarrow> (string \<Rightarrow> string \<Rightarrow> OpenPayload \<Rightarrow> 'w \<Rightarrow> send_result \<times> 'w)
   \<Rightarrow> string \<Rightarrow> OpenPayload \<Rightarrow> string \<Rightarrow> string \<Rightarrow> string \<Rightarrow> string \<Rightarrow> string \<Rightarrow> 'w \<Rightarrow> open_result \<times> 'w" where
  "adapter_Open call lookup send self template nodeID name connID token clientAddr w =
     (let open = template\<lparr>op_Token := token, op_ClientAddr := clientAddr\<rparr> in
      if nodeID = self then
        (case send name connID open w of (Queued, w1) \<Rightarrow> (OpenOK, w1) | (_, w1) \<Rightarrow> (OpenFailed ''local'', w1))
      else case lookup nodeID w of
        (Inl _, w1) \<Rightarrow> (OpenFailed ''resolve'', w1)
      | (Inr None, w1) \<Rightarrow> (OpenFailed ''not registered'', w1)
      | (Inr (Some peer), w1) \<Rightarrow>
          (case call peer \<lparr>cq_Op = ''open'', cq_Tunnel = name, cq_ConnID = connID, cq_Reason = [], cq_Open = Some open\<rparr> w1 of
             (None, w2) \<Rightarrow> (OpenFailed ''mesh'', w2)
           | (Some res, w2) \<Rightarrow> (if cs_Applied res then OpenOK else OpenFailed ''not applied'', w2)))"

definition slotFreeConcurrency :: nat where "slotFreeConcurrency = 32"

record slotOffer =
  so_node :: string
  so_addr :: string
  so_idle :: duration

definition offer_step ::
  "'w mesh_call \<Rightarrow> string \<Rightarrow> string \<times> NodeInfo \<Rightarrow> slotOffer list \<times> 'w \<Rightarrow> slotOffer list \<times> 'w" where
  "offer_step call tunnel node acc =
     (case call (Advertise (snd node)) (control_request ''slot-candidate'' tunnel) (snd acc) of
        (Some res, w) \<Rightarrow>
          (if cs_Applied res
           then fst acc @ [\<lparr>so_node = fst node, so_addr = Advertise (snd node), so_idle = cs_IdleMS res * Millisecond\<rparr>]
           else fst acc, w)
      | (None, w) \<Rightarrow> (fst acc, w))"

text \<open>\<^verbatim>\<open>offers\<close>: every other node's candidate, the longest idle first; \<open>None\<close> when the nodes cannot be listed.\<close>

definition offers :: "'w mesh_call \<Rightarrow> string \<Rightarrow> (string \<times> NodeInfo) list option \<Rightarrow> string \<Rightarrow> 'w \<Rightarrow> slotOffer list \<times> 'w" where
  "offers call self nodes tunnel w =
     (case nodes of
        None \<Rightarrow> ([], w)
      | Some ns \<Rightarrow>
          apfst (sort_key (\<lambda>o'. - so_idle o'))
            (fold (offer_step call tunnel) (filter (\<lambda>(i, info). i \<noteq> self) ns) ([], w)))"

fun free_offers :: "'w mesh_call \<Rightarrow> string \<Rightarrow> slotOffer list \<Rightarrow> 'w \<Rightarrow> bool \<times> 'w" where
  "free_offers call tunnel [] w = (False, w)"
| "free_offers call tunnel (off # offs) w =
     (case call (so_addr off) (control_request ''free-slot'' tunnel) w of
        (None, w1) \<Rightarrow> (True, w1)
      | (Some res, w1) \<Rightarrow> if cs_Applied res then (True, w1) else free_offers call tunnel offs w1)"

definition FreeRemoteSlot ::
  "'w mesh_call \<Rightarrow> string \<Rightarrow> (string \<times> NodeInfo) list option \<Rightarrow> nat \<Rightarrow> string \<Rightarrow> 'w \<Rightarrow> bool \<times> 'w" where
  "FreeRemoteSlot call self nodes inflight tunnel w =
     (if inflight \<ge> slotFreeConcurrency then (False, w)
      else case offers call self nodes tunnel w of (offs, w1) \<Rightarrow> free_offers call tunnel offs w1)"

subsection \<open>Telling the cluster that a phone is gone\<close>

text \<open>
  The splice evictor: a closed phone connection ends this node's streams at once, and a goroutine tells the other nodes, holding
  one of the broadcast places while it does. A waiting message gives up at its time limit or when the evictor is cancelled.
  \<^verbatim>\<open>Drain\<close> refuses new messages, and returns when none is left. The world \<open>w\<close> is the cluster.
\<close>

definition evictBroadcastConcurrency :: nat where "evictBroadcastConcurrency = 32"

record gone_phone =
  gp_name :: string
  gp_connID :: string
  gp_reason :: string

record 'w evictor =
  ev_world :: 'w
  ev_draining :: bool
  ev_waiting :: "gone_phone list"
  ev_sending :: "gone_phone list"

definition newSpliceEvictor :: "'w \<Rightarrow> 'w evictor" where
  "newSpliceEvictor w = \<lparr>ev_world = w, ev_draining = False, ev_waiting = [], ev_sending = []\<rparr>"

definition evictor_PhoneConnClosed :: "(gone_phone \<Rightarrow> 'w \<Rightarrow> 'w) \<Rightarrow> gone_phone \<Rightarrow> 'w evictor \<Rightarrow> 'w evictor" where
  "evictor_PhoneConnClosed local g st =
     (let st1 = st\<lparr>ev_world := local g (ev_world st)\<rparr> in
      if ev_draining st1 then st1 else st1\<lparr>ev_waiting := ev_waiting st1 @ [g]\<rparr>)"

definition evict_request :: "gone_phone \<Rightarrow> ControlRequest" where
  "evict_request g = \<lparr>cq_Op = ''evict'', cq_Tunnel = gp_name g, cq_ConnID = gp_connID g, cq_Reason = gp_reason g, cq_Open = None\<rparr>"

definition send_gone ::
  "'w mesh_call \<Rightarrow> string \<Rightarrow> (string \<times> NodeInfo) list option \<Rightarrow> gone_phone \<Rightarrow> 'w \<Rightarrow> 'w" where
  "send_gone call self nodes g w =
     (case nodes of None \<Rightarrow> w | Some ns \<Rightarrow> snd (broadcastControl call self ns (evict_request g) w))"

inductive evictor_step ::
  "'w mesh_call \<Rightarrow> (gone_phone \<Rightarrow> 'w \<Rightarrow> 'w) \<Rightarrow> string \<Rightarrow> 'w evictor \<Rightarrow> 'w evictor \<Rightarrow> bool" for call local self where
  Gone: "evictor_step call local self st (evictor_PhoneConnClosed local g st)"
| Place: "g \<in> set (ev_waiting st) \<Longrightarrow> length (ev_sending st) < evictBroadcastConcurrency \<Longrightarrow>
    evictor_step call local self st (st\<lparr>ev_waiting := remove1 g (ev_waiting st), ev_sending := g # ev_sending st\<rparr>)"
| GiveUp: "g \<in> set (ev_waiting st) \<Longrightarrow> evictor_step call local self st (st\<lparr>ev_waiting := remove1 g (ev_waiting st)\<rparr>)"
| Send: "g \<in> set (ev_sending st) \<Longrightarrow>
    evictor_step call local self st
      (st\<lparr>ev_world := send_gone call self nodes g (ev_world st), ev_sending := remove1 g (ev_sending st)\<rparr>)"
| Drain: "evictor_step call local self st (st\<lparr>ev_draining := True\<rparr>)"

text \<open>At most \<open>evictBroadcastConcurrency\<close> broadcasts run at a time.\<close>

lemma evictor_places:
  "(evictor_step call local self)\<^sup>*\<^sup>* (newSpliceEvictor w) st \<Longrightarrow> length (ev_sending st) \<le> evictBroadcastConcurrency"
proof (induct rule: rtranclp_induct)
  case (step y z)
  from step(2,3) show ?case by cases (auto simp: evictor_PhoneConnClosed_def Let_def length_remove1)
qed (simp add: newSpliceEvictor_def)

text \<open>Once \<^verbatim>\<open>Drain\<close> has begun and seen no message left, none is ever sent again.\<close>

lemma evictor_drained:
  assumes "(evictor_step call local self)\<^sup>*\<^sup>* st st'" "ev_draining st" "ev_waiting st = []" "ev_sending st = []"
  shows "ev_draining st' \<and> ev_waiting st' = [] \<and> ev_sending st' = []"
  using assms
proof (induct rule: rtranclp_induct)
  case (step y z)
  then have "ev_draining y \<and> ev_waiting y = [] \<and> ev_sending y = []" by blast
  with step(2) show ?case by cases (auto simp: evictor_PhoneConnClosed_def Let_def)
qed simp

subsection \<open>Drain\<close>

definition Stopping :: "phase \<Rightarrow> bool" where "Stopping p \<longleftrightarrow> p \<noteq> Serving"
definition Draining :: "phase \<Rightarrow> bool" where "Draining p \<longleftrightarrow> p = DrainingPhase"

definition moveTargets :: "string \<Rightarrow> (string \<times> NodeInfo) list option \<Rightarrow> string list" where
  "moveTargets self nodes =
     (case nodes of None \<Rightarrow> [] | Some ns \<Rightarrow> sort (map (\<lambda>(i, n). Public n) (filter (\<lambda>(i, n). i \<noteq> self) ns)))"

text \<open>
  \<^verbatim>\<open>run\<close>: what is left on the node, and the wait loop. Before each turn's event the rest of the node acts; then the context
  ends, the drain time runs out, or a tick retries the moves. The result is \<open>None\<close> while the loop goes on.
\<close>

datatype drain_event = DrainCtxDone | DrainDeadline | DrainTick

datatype drain_end = DrainFinished | DrainCancelled | DrainTimeUp

definition nothing_left :: "('s, 'c) node \<Rightarrow> bool" where
  "nothing_left n \<longleftrightarrow> LiveConns (nd_mgr n) = 0 \<and> nd_handling n = 0 \<and> pn_issuing (nd_phone n) = 0"

record drain_io =
  dr_rnd :: "nat \<Rightarrow> nat \<Rightarrow> nat option"
  dr_marshal :: "string list \<Rightarrow> string + bytes"

fun drain_loop ::
  "drain_io \<Rightarrow> ((('s, 'c) node \<Rightarrow> ('s, 'c) node) \<times> drain_event) list \<Rightarrow> ('s, 'c) node \<Rightarrow> (drain_end \<times> ('s, 'c) node) option" where
  "drain_loop d [] n = (if nothing_left n then Some (DrainFinished, n) else None)"
| "drain_loop d ((others, ev) # evs) n =
     (if nothing_left n then Some (DrainFinished, n)
      else case ev of
        DrainCtxDone \<Rightarrow> Some (DrainCancelled, others n)
      | DrainDeadline \<Rightarrow> Some (DrainTimeUp, others n)
      | DrainTick \<Rightarrow>
          (let n1 = others n in drain_loop d evs (set_mgr (RetryMoves (dr_rnd d) (dr_marshal d) (nd_mgr n1)) n1)))"

definition start_draining :: "drain_io \<Rightarrow> string list \<Rightarrow> ('s, 'c) node \<Rightarrow> ('s, 'c) node" where
  "start_draining d addrs n =
     (let n1 = n\<lparr>nd_phase := DrainingPhase\<rparr> in set_mgr (StartDrain (dr_rnd d) (dr_marshal d) addrs (nd_mgr n1)) n1)"

text \<open>\<open>waited\<close> is the answer of \<^verbatim>\<open>waitCtx\<close> for the time before the drain, \<open>meanwhile\<close> what the node does in it.\<close>

definition drainer_run ::
  "drain_io \<Rightarrow> bool \<Rightarrow> (('s, 'c) node \<Rightarrow> ('s, 'c) node) \<Rightarrow> string \<Rightarrow> (string \<times> NodeInfo) list option
   \<Rightarrow> ((('s, 'c) node \<Rightarrow> ('s, 'c) node) \<times> drain_event) list \<Rightarrow> ('s, 'c) node \<Rightarrow> (drain_end \<times> ('s, 'c) node) option" where
  "drainer_run d waited meanwhile self nodes evs n =
     (let n1 = meanwhile (n\<lparr>nd_phase := StoppingPhase\<rparr>) in
      if \<not> waited then Some (DrainCancelled, n1)
      else drain_loop d evs (start_draining d (moveTargets self nodes) n1))"

end
