(* ===== verification/Mesh_Props.thy ===== *)
theory Mesh_Props
  imports Mesh_Control
begin

text \<open>
  What the requests between nodes achieve: the gate of the mesh listener, the end of a drain, and two protocols over a whole
  cluster of nodes, each with its own phone endpoint and edge, where any message and any answer may be lost: freeing one
  stream slot somewhere else, and ending the streams of a phone that is gone everywhere.
\<close>

subsection \<open>The listener's gate\<close>

definition mesh_admitted :: "certificate list option \<Rightarrow> string \<Rightarrow> string \<Rightarrow> ControlRequest option \<Rightarrow> bool" where
  "mesh_admitted peers path meth body \<longleftrightarrow>
     (\<exists>leaf rest req. peers = Some (leaf # rest) \<and> HasMeshRole leaf \<and> path = ControlPath \<and> meth = ''POST''
        \<and> body = Some req \<and> valid_control req)"

lemma mesh_refused_status:
  assumes "\<not> mesh_admitted peers path meth body"
  shows "\<exists>code \<in> {400, 403, 404, 405}. mesh_ServeHTTP e peers path meth body n = (Status code, n)"
proof (cases "\<exists>leaf rest. peers = Some (leaf # rest) \<and> HasMeshRole leaf")
  case False
  then show ?thesis by (auto simp: mesh_ServeHTTP_def split: option.splits list.splits)
next
  case True
  then have "mesh_ServeHTTP e peers path meth body n =
      (if path \<noteq> ControlPath then (Status 404, n) else mesh_serveControl e meth body n)"
    by (auto simp: mesh_ServeHTTP_def)
  then show ?thesis
    using assms True by (cases "meth = ''POST''"; cases body) (auto simp: mesh_serveControl_def mesh_admitted_def)
qed

lemma mesh_admitted_answer:
  assumes "mesh_admitted peers path meth (Some req)"
  shows "mesh_ServeHTTP e peers path meth (Some req) n =
           (case mesh_dispatch e req n of (None, n1) \<Rightarrow> (Status 502, n1) | (Some resp, n1) \<Rightarrow> (Body (Some resp), n1))"
  using assms by (auto simp: mesh_ServeHTTP_def mesh_serveControl_def mesh_admitted_def)

lemma send_failed_same:
  "SendOpen t c p d m = (ErrEncode w, m') \<Longrightarrow> m' = m"
  "SendOpen t c p d m = (ErrCtx, m') \<Longrightarrow> m' = m"
  "SendOpen t c p d m = (WouldBlock, m') \<Longrightarrow> m' = m"
  by (auto simp: SendOpen_def split: option.splits sum.splits if_splits)

lemma set_mgr_same [simp]: "set_mgr (nd_mgr n) n = n"
  by (simp add: set_mgr_def nd_mgr_def)

text \<open>A controller error, answered 502, leaves the node as it was.\<close>

lemma mesh_dispatch_error:
  "mesh_dispatch e req n = (None, n') \<Longrightarrow> n' = n"
  by (auto simp: mesh_dispatch_def Let_def admin_Renew_def admin_Terminate_def admin_Open_def admin_Evict_def
      split: if_splits option.splits prod.splits send_result.splits dest!: send_failed_same)

lemma mesh_ServeHTTP_cases:
  assumes "mesh_ServeHTTP e peers path meth body n = (res, n')"
  shows "(\<exists>code \<in> {400, 403, 404, 405}. res = Status code \<and> n' = n) \<and> \<not> mesh_admitted peers path meth body
       \<or> mesh_admitted peers path meth body
         \<and> (res = Status 502 \<and> n' = n \<or> (\<exists>resp. res = Body (Some resp) \<and> mesh_dispatch e (the body) n = (Some resp, n')))"
proof (cases "mesh_admitted peers path meth body")
  case False
  from mesh_refused_status [OF this, of e n] assms show ?thesis using False by auto
next
  case True
  then obtain req where body: "body = Some req" by (auto simp: mesh_admitted_def)
  obtain r n1 where d: "mesh_dispatch e req n = (r, n1)" by (cases "mesh_dispatch e req n")
  from mesh_admitted_answer [OF True [unfolded body], of e n] assms d show ?thesis
    using mesh_dispatch_error [of e req n] True unfolding body by (cases r) auto
qed



subsection \<open>The drain ends\<close>

lemma drain_loop_ends:
  assumes "\<exists>(f, ev) \<in> set evs. ev \<noteq> DrainTick"
  shows "\<exists>how n'. drain_loop d evs n = Some (how, n')"
  using assms by (induct d evs n rule: drain_loop.induct) (auto simp: Let_def split: drain_event.splits)

lemma drain_loop_result:
  "drain_loop d evs n = Some (how, n') \<Longrightarrow>
     (how = DrainFinished \<longrightarrow> nothing_left n') \<and> (how = DrainTimeUp \<longrightarrow> (\<exists>f. (f, DrainDeadline) \<in> set evs))
   \<and> (how = DrainCancelled \<longrightarrow> (\<exists>f. (f, DrainCtxDone) \<in> set evs))"
  by (induct d evs n rule: drain_loop.induct) (auto simp: Let_def split: drain_event.splits if_splits)


subsection \<open>A cluster\<close>

text \<open>
  Nodes by the address they advertise, and what happens to each next call: it is delivered, or the request is lost, or only the answer.
  A call is answered by the other node's listener; \<open>peers\<close> are the certificates the calling node presents.
\<close>

datatype fate = Delivered | RequestLost | AnswerLost

record ('s, 'c) cluster =
  cl_nodes :: "string \<rightharpoonup> ('s, 'c) node"
  cl_fates :: "fate list"

definition cluster_call ::
  "(string \<Rightarrow> 's control_env) \<Rightarrow> certificate list option \<Rightarrow> ('s, 'c) cluster mesh_call" where
  "cluster_call env peers addr req w =
     (case cl_fates w of
        [] \<Rightarrow> (None, w)
      | fate # fs \<Rightarrow>
          (let w1 = w\<lparr>cl_fates := fs\<rparr> in
           case cl_nodes w addr of
             None \<Rightarrow> (None, w1)
           | Some n \<Rightarrow>
               if fate = RequestLost then (None, w1)
               else (case mesh_ServeHTTP (env addr) peers ControlPath ''POST'' (Some req) n of
                       (res, n1) \<Rightarrow>
                         (if fate = Delivered then answer_of res else None, w1\<lparr>cl_nodes := (cl_nodes w)(addr \<mapsto> n1)\<rparr>))))"

text \<open>The one stream a cluster lost, at most.\<close>

definition one_evicted ::
  "(string \<Rightarrow> 's control_env) \<Rightarrow> string \<Rightarrow> ('s, 'c) cluster \<Rightarrow> ('s, 'c) cluster \<Rightarrow> string \<Rightarrow> nat \<Rightarrow> bool" where
  "one_evicted env tunnel w w' addr i \<longleftrightarrow>
     (\<exists>n. cl_nodes w addr = Some n \<and> victim (ce_cfg (env addr)) (ce_now (env addr)) tunnel (nd_edge n) i
        \<and> cl_nodes w' = (cl_nodes w)(addr \<mapsto> n\<lparr>nd_edge := evict_now (ce_ex (env addr)) i (nd_edge n)\<rparr>))"

lemma FreeSlot_one:
  assumes "FreeSlot cfg ex tunnel [] now ed = (ok, ed')"
  shows "if ok then \<exists>i. victim cfg now tunnel ed i \<and> ed' = evict_now ex i ed else ed' = ed \<and> \<not> (\<exists>i. victim cfg now tunnel ed i)"
proof -
  obtain v idle where v: "leastActive cfg now tunnel ed = (v, idle)" by (cases "leastActive cfg now tunnel ed")
  show ?thesis using leastActive_victim [OF v] assms v by (cases v) (auto simp: FreeSlot_def)
qed

lemma call_slot_candidate:
  "cl_nodes (snd (cluster_call env peers addr (control_request ''slot-candidate'' tunnel) w)) = cl_nodes w"
proof (cases "cl_fates w")
  case (Cons fate fs)
  have "snd (mesh_ServeHTTP e peers ControlPath ''POST'' (Some (control_request ''slot-candidate'' tunnel)) n) = n" for e and n :: "('a, 'b) node"
    by (auto simp: mesh_ServeHTTP_def mesh_serveControl_def mesh_dispatch_def Let_def split: option.splits list.splits prod.splits)
  then show ?thesis
    using Cons by (auto simp: cluster_call_def Let_def fun_upd_idem split: option.splits prod.splits) (metis snd_conv fun_upd_triv)+
qed (simp add: cluster_call_def)


lemma free_slot_served:
  assumes "mesh_ServeHTTP e peers ControlPath ''POST'' (Some (control_request ''free-slot'' tunnel)) n = (res, n1)"
  shows "(\<exists>code. res = Status code) \<and> n1 = n \<or>
         (\<exists>ok. res = Body (Some (no_response\<lparr>cs_Applied := ok\<rparr>)) \<and> admin_FreeSlot e tunnel n = (ok, n1))"
  using mesh_ServeHTTP_cases [OF assms]
  by (auto simp: mesh_dispatch_def Let_def split: prod.splits)

lemma admin_FreeSlot_one:
  assumes "admin_FreeSlot e tunnel n = (ok, n1)" "ce_rounds e = []"
  shows "if ok then \<exists>i. victim (ce_cfg e) (ce_now e) tunnel (nd_edge n) i \<and> n1 = n\<lparr>nd_edge := evict_now (ce_ex e) i (nd_edge n)\<rparr> else n1 = n"
proof -
  obtain ok' ed where ed: "FreeSlot (ce_cfg e) (ce_ex e) tunnel [] (ce_now e) (nd_edge n) = (ok', ed)" by (meson surj_pair)
  then have "ok' = ok" "n1 = n\<lparr>nd_edge := ed\<rparr>" using assms by (simp_all add: admin_FreeSlot_def)
  then show ?thesis using FreeSlot_one [OF ed] by (cases ok) auto
qed

lemma call_free_slot:
  assumes "cluster_call env peers addr (control_request ''free-slot'' tunnel) w = (r, w1)" "ce_rounds (env addr) = []"
  shows "(case r of None \<Rightarrow> cl_nodes w1 = cl_nodes w \<or> (\<exists>i. one_evicted env tunnel w w1 addr i)
          | Some res \<Rightarrow> if cs_Applied res then \<exists>i. one_evicted env tunnel w w1 addr i else cl_nodes w1 = cl_nodes w)"
proof (cases "cl_fates w = [] \<or> cl_nodes w addr = None \<or> hd (cl_fates w) = RequestLost")
  case True
  then show ?thesis using assms(1) by (auto simp: cluster_call_def Let_def neq_Nil_conv split: list.splits option.splits)
next
  case False
  then obtain fate fs n where f: "cl_fates w = fate # fs" "cl_nodes w addr = Some n" "fate \<noteq> RequestLost"
    by (cases "cl_fates w") auto
  obtain res n1 where served: "mesh_ServeHTTP (env addr) peers ControlPath ''POST'' (Some (control_request ''free-slot'' tunnel)) n = (res, n1)"
    by (meson surj_pair)
  have w1: "cl_nodes w1 = (cl_nodes w)(addr \<mapsto> n1)" and r: "r = (if fate = Delivered then answer_of res else None)"
    using assms(1) f served by (auto simp: cluster_call_def)
  show ?thesis
  proof (cases "n1 = n \<and> \<not> (\<exists>resp. res = Body (Some resp) \<and> cs_Applied resp)")
    case True
    then show ?thesis using r w1 f(2) by (auto simp: answer_of_def fun_upd_idem split: option.splits http_result.splits)
  next
    case False
    then obtain ok where ok: "res = Body (Some (no_response\<lparr>cs_Applied := ok\<rparr>))" "admin_FreeSlot (env addr) tunnel n = (ok, n1)"
      using free_slot_served [OF served] by auto
    note one = admin_FreeSlot_one [OF ok(2) assms(2)]
    have "ok" using one False ok(1) by (cases ok) auto
    then obtain i where "one_evicted env tunnel w w1 addr i" using one w1 f(2) by (auto simp: one_evicted_def)
    then show ?thesis using \<open>ok\<close> r ok(1) by (auto simp: answer_of_def)
  qed
qed

lemma one_evicted_cong: "cl_nodes w1 = cl_nodes w \<Longrightarrow> one_evicted env tunnel w1 w' addr i = one_evicted env tunnel w w' addr i"
  by (simp add: one_evicted_def)

lemma free_offers_one:
  assumes "free_offers (cluster_call env peers) tunnel offs w = (ok, w')" "\<And>a. ce_rounds (env a) = []"
  shows "cl_nodes w' = cl_nodes w \<or> ok \<and> (\<exists>off \<in> set offs. \<exists>i. one_evicted env tunnel w w' (so_addr off) i)"
  using assms(1)
proof (induct offs arbitrary: w)
  case (Cons off offs)
  obtain r w1 where c: "cluster_call env peers (so_addr off) (control_request ''free-slot'' tunnel) w = (r, w1)" by (meson surj_pair)
  note one = call_free_slot [OF c assms(2)]
  show ?case
  proof (cases "\<exists>res. r = Some res \<and> \<not> cs_Applied res")
    case True
    then have same: "cl_nodes w1 = cl_nodes w" and rest: "free_offers (cluster_call env peers) tunnel offs w1 = (ok, w')"
      using one Cons.prems c by auto
    from Cons.hyps [OF rest] show ?thesis by (auto simp: same one_evicted_cong [OF same])
  next
    case False
    then have "ok" "w' = w1" using Cons.prems c by (auto split: option.splits)
    then show ?thesis using one False by (auto split: option.splits)
  qed
qed simp

lemma offers_nodes: "cl_nodes (snd (offers (cluster_call env peers) self nodes tunnel w)) = cl_nodes w"
proof -
  have "cl_nodes (snd (fold (offer_step (cluster_call env peers) tunnel) ns acc)) = cl_nodes (snd acc)" for ns acc
  proof (induct ns arbitrary: acc)
    case (Cons n ns)
    have "cl_nodes (snd (offer_step (cluster_call env peers) tunnel n acc)) = cl_nodes (snd acc)"
      using call_slot_candidate [of env peers "Advertise (snd n)" tunnel "snd acc"]
      by (auto simp: offer_step_def split: prod.splits option.splits)
    then show ?case using Cons by simp
  qed simp
  then show ?thesis by (auto simp: offers_def split: option.splits)
qed

text \<open>
  C31. Freeing a slot on another node ends at most one stream in the whole cluster, whichever requests and answers are lost: a failed
  call is not followed by another one, because it may have been served. The stream is one that its node's policy lets go,
  and when the answer is that nothing was freed, nothing was.
\<close>

theorem FreeRemoteSlot_at_most_one:
  assumes "FreeRemoteSlot (cluster_call env peers) self nodes inflight tunnel w = (ok, w')" "\<And>a. ce_rounds (env a) = []"
  shows "cl_nodes w' = cl_nodes w \<or> ok \<and> (\<exists>addr i. one_evicted env tunnel w w' addr i)"
proof (cases "inflight \<ge> slotFreeConcurrency")
  case True
  then show ?thesis using assms(1) by (simp add: FreeRemoteSlot_def)
next
  case False
  obtain offs w1 where o: "offers (cluster_call env peers) self nodes tunnel w = (offs, w1)" by (meson surj_pair)
  have same: "cl_nodes w1 = cl_nodes w" using offers_nodes [of env peers self nodes tunnel w] o by simp
  have "free_offers (cluster_call env peers) tunnel offs w1 = (ok, w')" using assms(1) False o by (simp add: FreeRemoteSlot_def)
  from free_offers_one [OF this assms(2)] show ?thesis by (auto simp: same one_evicted_cong [OF same])
qed

definition offer_of :: "(string \<Rightarrow> 's control_env) \<Rightarrow> string \<Rightarrow> ('s, 'c) cluster \<Rightarrow> string \<times> NodeInfo \<Rightarrow> slotOffer option" where
  "offer_of env tunnel w node =
     (case cl_nodes w (Advertise (snd node)) of
        None \<Rightarrow> None
      | Some n \<Rightarrow>
          (case admin_SlotCandidate (env (Advertise (snd node))) tunnel n of
             (idle, ok) \<Rightarrow>
               if ok then Some \<lparr>so_node = fst node, so_addr = Advertise (snd node), so_idle = milliseconds idle * Millisecond\<rparr>
               else None))"

lemma valid_slot_requests [simp]:
  "tunnel \<noteq> [] \<Longrightarrow> valid_control (control_request ''slot-candidate'' tunnel)"
  "tunnel \<noteq> [] \<Longrightarrow> valid_control (control_request ''free-slot'' tunnel)"
  by (simp_all add: valid_control_def mesh_ops_def)

lemma served_when_valid:
  "HasMeshRole leaf \<Longrightarrow> valid_control req \<Longrightarrow>
   mesh_ServeHTTP e (Some (leaf # rest)) ControlPath ''POST'' (Some req) n =
     (case mesh_dispatch e req n of (None, n1) \<Rightarrow> (Status 502, n1) | (Some resp, n1) \<Rightarrow> (Body (Some resp), n1))"
  by (simp add: mesh_ServeHTTP_def mesh_serveControl_def)

lemma call_delivered:
  assumes "cl_fates w = Delivered # fs" "HasMeshRole leaf" "valid_control req" "cl_nodes w addr = Some n"
  shows "cluster_call env (Some (leaf # rest)) addr req w =
           (case mesh_dispatch (env addr) req n of
              (r, n1) \<Rightarrow> (r, w\<lparr>cl_fates := fs, cl_nodes := (cl_nodes w)(addr \<mapsto> n1)\<rparr>))"
  using assms by (auto simp: cluster_call_def served_when_valid answer_of_def split: option.splits prod.splits)

lemma offer_step_delivered:
  assumes "cl_fates w = Delivered # fs" "HasMeshRole leaf" "tunnel \<noteq> []"
  shows "offer_step (cluster_call env (Some (leaf # rest))) tunnel node (acc, w) =
           (acc @ (case offer_of env tunnel w node of None \<Rightarrow> [] | Some off \<Rightarrow> [off]), w\<lparr>cl_fates := fs\<rparr>)"
proof (cases "cl_nodes w (Advertise (snd node))")
  case None
  then show ?thesis using assms by (simp add: offer_step_def cluster_call_def offer_of_def)
next
  case (Some n)
  note c = call_delivered [OF assms(1,2) valid_slot_requests(1) [OF assms(3)] Some, where env = env and rest = rest]
  have "(cl_nodes w)(Advertise (snd node) \<mapsto> n) = cl_nodes w" using Some by (simp add: fun_upd_idem)
  then show ?thesis
    using Some by (auto simp: offer_step_def c offer_of_def mesh_dispatch_def Let_def split: prod.splits)
qed

lemma offers_delivered:
  assumes "length ns \<le> length (cl_fates w)" "set (cl_fates w) \<subseteq> {Delivered}" "HasMeshRole leaf" "tunnel \<noteq> []"
  shows "fold (offer_step (cluster_call env (Some (leaf # rest))) tunnel) ns (acc, w) =
           (acc @ List.map_filter (offer_of env tunnel w) ns, w\<lparr>cl_fates := drop (length ns) (cl_fates w)\<rparr>)"
  using assms(1,2)
proof (induct ns arbitrary: acc w)
  case (Cons n ns)
  obtain fs where fs: "cl_fates w = Delivered # fs" using Cons.prems by (cases "cl_fates w") auto
  have same: "offer_of env tunnel (w\<lparr>cl_fates := fs\<rparr>) = offer_of env tunnel w" by (rule ext) (simp add: offer_of_def)
  show ?case
    using Cons.hyps [of "w\<lparr>cl_fates := fs\<rparr>"] Cons.prems fs
    by (auto simp: offer_step_delivered [OF fs assms(3,4)] same List.map_filter_def split: option.splits)
qed (simp add: List.map_filter_def)

lemma offer_of_victim:
  assumes "offer_of env tunnel w node = Some off" "ce_rounds (env (Advertise (snd node))) = []"
  shows "so_addr off = Advertise (snd node)"
    and "\<exists>n n1. cl_nodes w (so_addr off) = Some n \<and> admin_FreeSlot (env (so_addr off)) tunnel n = (True, n1)"
  using assms
  by (auto simp: offer_of_def admin_SlotCandidate_def SlotCandidate_def admin_FreeSlot_def FreeSlot_def
      split: option.splits prod.splits if_splits)


lemma sort_key_hd:
  assumes "sort_key f xs = y # ys" shows "y \<in> set xs" "x \<in> set xs \<Longrightarrow> f y \<le> f x"
proof -
  have eq: "set (y # ys) = set xs" using assms by (metis set_sort)
  then show "y \<in> set xs" by auto
  show "f y \<le> f x" if "x \<in> set xs" using that eq sorted_sort_key [of f xs] unfolding assms by auto
qed

lemma free_first_offer:
  assumes "cl_fates w = Delivered # fs" "HasMeshRole leaf" "tunnel \<noteq> []" "offer_of env tunnel w node = Some off" "ce_rounds (env (Advertise (snd node))) = []"
  shows "\<exists>w' i. free_offers (cluster_call env (Some (leaf # rest))) tunnel (off # offs) w = (True, w') \<and> one_evicted env tunnel w w' (so_addr off) i"
proof -
  note addr = offer_of_victim(1) [OF assms(4,5)]
  obtain n n1 where n: "cl_nodes w (so_addr off) = Some n" "admin_FreeSlot (env (so_addr off)) tunnel n = (True, n1)"
    using offer_of_victim(2) [OF assms(4,5)] by blast
  define w' where "w' = w\<lparr>cl_fates := fs, cl_nodes := (cl_nodes w)(so_addr off \<mapsto> n1)\<rparr>"
  have "cluster_call env (Some (leaf # rest)) (so_addr off) (control_request ''free-slot'' tunnel) w =
      (Some (no_response\<lparr>cs_Applied := True\<rparr>), w')"
    using call_delivered [OF assms(1,2) valid_slot_requests(2) [OF assms(3)] n(1), of env rest] n(2)
    by (simp add: mesh_dispatch_def w'_def)
  moreover obtain i where "one_evicted env tunnel w w' (so_addr off) i"
    using admin_FreeSlot_one [OF n(2)] assms(5) n(1) addr by (auto simp: one_evicted_def w'_def)
  ultimately show ?thesis by auto
qed

lemma offers_all_delivered:
  assumes "length ns < length (cl_fates w)" "set (cl_fates w) \<subseteq> {Delivered}" "HasMeshRole leaf" "tunnel \<noteq> []"
  obtains fs where "offers (cluster_call env (Some (leaf # rest))) self (Some ns) tunnel w =
      (sort_key (\<lambda>o'. - so_idle o') (List.map_filter (offer_of env tunnel w) (filter (\<lambda>(i, info). i \<noteq> self) ns)),
       w\<lparr>cl_fates := Delivered # fs\<rparr>)"
proof -
  let ?ms = "filter (\<lambda>(i, info). i \<noteq> self) ns"
  have len: "length ?ms < length (cl_fates w)" using assms(1) length_filter_le [of "\<lambda>(i, info). i \<noteq> self" ns] by linarith
  then obtain f fs where fs: "drop (length ?ms) (cl_fates w) = f # fs" by (cases "drop (length ?ms) (cl_fates w)") auto
  then have "f = Delivered" using assms(2) in_set_dropD [of f "length ?ms" "cl_fates w"] by auto
  then show thesis
    using that fs offers_delivered [of ?ms w, OF _ assms(2-4), where env = env and rest = rest and acc = "[]"] len by (simp add: offers_def)
qed

text \<open>
  When no message is lost, freeing a slot elsewhere does what it is for: if some other listed node has a stream of the tunnel
  that its policy lets go, exactly one such stream is ended, on a node whose candidate has been idle longest among all candidates
  offered (in the milliseconds the nodes report); if none has, nothing changes and the answer is that nothing was freed.
\<close>

lemma FreeRemoteSlot_longest_idle:
  assumes "length ns < length (cl_fates w)" "set (cl_fates w) \<subseteq> {Delivered}" "HasMeshRole leaf" "tunnel \<noteq> []"
    and "inflight < slotFreeConcurrency" "\<And>a. ce_rounds (env a) = []"
    and "FreeRemoteSlot (cluster_call env (Some (leaf # rest))) self (Some ns) inflight tunnel w = (ok, w')"
  shows "(ok \<longleftrightarrow> (\<exists>node \<in> set ns. fst node \<noteq> self \<and> offer_of env tunnel w node \<noteq> None))
       \<and> (ok \<longrightarrow> (\<exists>node \<in> set ns. fst node \<noteq> self \<and> (\<exists>off i. offer_of env tunnel w node = Some off \<and> one_evicted env tunnel w w' (so_addr off) i
             \<and> (\<forall>node' \<in> set ns. \<forall>off'. fst node' \<noteq> self \<longrightarrow> offer_of env tunnel w node' = Some off' \<longrightarrow> so_idle off' \<le> so_idle off))))
       \<and> (\<not> ok \<longrightarrow> cl_nodes w' = cl_nodes w)"
proof -
  let ?offs = "List.map_filter (offer_of env tunnel w) (filter (\<lambda>(i, info). i \<noteq> self) ns)"
  have mem: "off \<in> set ?offs \<longleftrightarrow> (\<exists>node \<in> set ns. fst node \<noteq> self \<and> offer_of env tunnel w node = Some off)" for off
    by (force simp: List.map_filter_def)
  obtain fs where o: "offers (cluster_call env (Some (leaf # rest))) self (Some ns) tunnel w = (sort_key (\<lambda>o'. - so_idle o') ?offs, w\<lparr>cl_fates := Delivered # fs\<rparr>)"
    using offers_all_delivered [OF assms(1-4)] by metis
  have free: "free_offers (cluster_call env (Some (leaf # rest))) tunnel (sort_key (\<lambda>o'. - so_idle o') ?offs) (w\<lparr>cl_fates := Delivered # fs\<rparr>) = (ok, w')"
    using assms(5,7) o by (simp add: FreeRemoteSlot_def)
  show ?thesis
  proof (cases "sort_key (\<lambda>o'. - so_idle o') ?offs")
    case Nil
    then have "?offs = []" by (metis length_0_conv length_sort)
    then have "\<forall>node \<in> set ns. fst node \<noteq> self \<longrightarrow> offer_of env tunnel w node = None"
      using mem by (metis empty_iff list.set(1) not_None_eq)
    then show ?thesis using free Nil by auto
  next
    case (Cons off offs)
    have off: "off \<in> set ?offs" "off' \<in> set ?offs \<Longrightarrow> so_idle off' \<le> so_idle off" for off'
      using sort_key_hd [OF Cons] by auto
    then obtain node where node: "node \<in> set ns" "fst node \<noteq> self" "offer_of env tunnel w node = Some off" using mem by blast
    then have "offer_of env tunnel (w\<lparr>cl_fates := Delivered # fs\<rparr>) node = Some off" by (simp add: offer_of_def)
    from free_first_offer [OF _ assms(3,4) this assms(6), of fs rest offs] free Cons
    obtain i where i: "ok" "one_evicted env tunnel w w' (so_addr off) i" by (auto simp: one_evicted_def)
    have "so_idle off' \<le> so_idle off" if "node' \<in> set ns" "fst node' \<noteq> self" "offer_of env tunnel w node' = Some off'" for node' off'
      using off(2) mem that by blast
    then show ?thesis using i node by blast
  qed
qed

subsection \<open>A phone that is gone\<close>

definition evict_all :: "gone_phone \<Rightarrow> 's edge \<Rightarrow> 's edge" where
  "evict_all g ed = ed\<lparr>objs := (\<lambda>i. if i \<in> set (streams ed)
      then map_option (\<lambda>a. if as_tunnel a = gp_name g \<and> as_connID a = gp_connID g then evict_mark (gp_reason g) a else a) (objs ed i)
      else objs ed i)\<rparr>"

lemma evict_mark_simps [simp]:
  "as_tunnel (evict_mark why a) = as_tunnel a" "as_connID (evict_mark why a) = as_connID a"
  "evict_mark why (evict_mark why a) = evict_mark why a" "as_cancelled (evict_mark why a)"
  by (simp_all add: evict_mark_def)

lemma fold_upd:
  assumes "\<And>a. f (f a) = f a"
  shows "fold (\<lambda>i. upd i f) is ed = ed\<lparr>objs := \<lambda>i. if i \<in> set is then map_option f (objs ed i) else objs ed i\<rparr>"
proof (induct "is" arbitrary: ed)
  case (Cons j js)
  have "(\<lambda>i. if i \<in> set js then map_option f (objs (upd j f ed) i) else objs (upd j f ed) i) =
        (\<lambda>i. if i \<in> set (j # js) then map_option f (objs ed i) else objs ed i)"
    by (rule ext) (auto simp: upd_def assms option.map_comp o_def)
  then show ?case by (simp add: Cons) (simp add: upd_def)
qed simp

lemma EvictConnStreams_all: "snd (EvictConnStreams (gp_name g) (gp_connID g) (gp_reason g) ed) = evict_all g ed"
proof -
  have "(\<lambda>i. if i \<in> set (victims (\<lambda>a. as_tunnel a = gp_name g \<and> as_connID a = gp_connID g) ed)
          then map_option (evict_mark (gp_reason g)) (objs ed i) else objs ed i)
      = (\<lambda>i. if i \<in> set (streams ed)
          then map_option (\<lambda>a. if as_tunnel a = gp_name g \<and> as_connID a = gp_connID g then evict_mark (gp_reason g) a else a) (objs ed i)
          else objs ed i)"
    by (rule ext) (auto simp: victims_def split: option.splits)
  then show ?thesis by (simp add: EvictConnStreams_def Let_def fold_upd evict_all_def)
qed

lemma evict_all_twice [simp]: "evict_all g (evict_all g ed) = evict_all g ed"
proof -
  have "objs (evict_all g (evict_all g ed)) = objs (evict_all g ed)"
    by (rule ext) (auto simp: evict_all_def option.map_comp o_def intro!: option.map_cong)
  then show ?thesis by (simp add: evict_all_def)
qed

definition evict_node :: "gone_phone \<Rightarrow> ('s, 'c) node \<Rightarrow> ('s, 'c) node" where
  "evict_node g n = n\<lparr>nd_edge := evict_all g (nd_edge n)\<rparr>"

lemma evict_node_twice [simp]: "evict_node g (evict_node g n) = evict_node g n"
  by (simp add: evict_node_def)

lemma call_evict:
  assumes "cl_fates w = fate # fs" "fate \<noteq> RequestLost" "HasMeshRole leaf" "gp_name g \<noteq> []" "gp_connID g \<noteq> []"
  shows "snd (cluster_call env (Some (leaf # rest)) addr (evict_request g) w) =
           w\<lparr>cl_fates := fs, cl_nodes := (cl_nodes w)(addr := map_option (evict_node g) (cl_nodes w addr))\<rparr>"
proof -
  have valid: "valid_control (evict_request g)" using assms(4,5) by (simp add: valid_control_def mesh_ops_def evict_request_def)
  have d: "\<exists>resp. mesh_dispatch e (evict_request g) n = (Some resp, evict_node g n)" for e and n :: "('a, 'b) node"
    by (simp add: mesh_dispatch_def evict_request_def admin_Evict_def evict_node_def case_prod_beta flip: EvictConnStreams_all)
  have served: "\<exists>resp. mesh_ServeHTTP e (Some (leaf # rest)) ControlPath ''POST'' (Some (evict_request g)) n = (Body (Some resp), evict_node g n)"
    for e and n :: "('a, 'b) node"
    using d [of e n] served_when_valid [OF assms(3) valid, of e rest n] by auto
  show ?thesis
  proof (cases "cl_nodes w addr")
    case (Some n)
    obtain resp where "mesh_ServeHTTP (env addr) (Some (leaf # rest)) ControlPath ''POST'' (Some (evict_request g)) n = (Body (Some resp), evict_node g n)"
      using served by blast
    then show ?thesis using assms(1,2) Some by (simp add: cluster_call_def)
  qed (use assms(1,2) in \<open>simp add: cluster_call_def fun_upd_idem\<close>)
qed

lemma broadcast_evict:
  assumes "HasMeshRole leaf" "gp_name g \<noteq> []" "gp_connID g \<noteq> []" "RequestLost \<notin> set (cl_fates w)" "length ns \<le> length (cl_fates w)"
  shows "cl_nodes (snd (fold (broadcast_step (cluster_call env (Some (leaf # rest))) (evict_request g)) ns (acc, w))) =
           (\<lambda>addr. if addr \<in> (\<lambda>node. Advertise (snd node)) ` set ns then map_option (evict_node g) (cl_nodes w addr) else cl_nodes w addr)"
  using assms(4,5)
proof (induct ns arbitrary: acc w)
  case (Cons node ns)
  obtain fate fs where f: "cl_fates w = fate # fs" "fate \<noteq> RequestLost" using Cons.prems by (cases "cl_fates w") auto
  define w1 where "w1 = w\<lparr>cl_fates := fs, cl_nodes := (cl_nodes w)(Advertise (snd node) := map_option (evict_node g) (cl_nodes w (Advertise (snd node))))\<rparr>"
  obtain r where c: "cluster_call env (Some (leaf # rest)) (Advertise (snd node)) (evict_request g) w = (r, w1)"
    using call_evict [OF f assms(1-3), of env rest "Advertise (snd node)"] unfolding w1_def by (metis prod.collapse)
  obtain acc1 where st: "broadcast_step (cluster_call env (Some (leaf # rest))) (evict_request g) node (acc, w) = (acc1, w1)"
    by (cases r) (auto simp: broadcast_step_def c)
  have "RequestLost \<notin> set (cl_fates w1)" "length ns \<le> length (cl_fates w1)" using Cons.prems f by (auto simp: w1_def)
  from Cons.hyps [OF this] show ?case
    by (auto simp: st w1_def fun_eq_iff option.map_comp o_def)
qed simp


subsection \<open>Witnesses\<close>

definition demo_mesh_leaf :: certificate where
  "demo_mesh_leaf = \<lparr>ct_CommonName = ''n1'', ct_OrganizationalUnit = [''tunneld-mesh''], ct_KeyFingerprint = None, ct_SerialHex = ''2a'', ct_NotAfter = 0\<rparr>"

definition demo_mesh_node :: "(vstate, nat) node" where
  "demo_mesh_node = \<lparr>nd_phone = demo_node, nd_edge = demo_edge, nd_handling = 0, nd_phase = Serving\<rparr>"

definition demo_control_env :: "vstate control_env" where
  "demo_control_env = \<lparr>ce_open = \<lambda>_. Inl ''json'', ce_nudge = \<lambda>_ _. Inl ''json'', ce_nonce = None, ce_ctx_done = False,
     ce_cfg = demo_cfg, ce_ex = mem_exec, ce_now = 100, ce_rounds = []\<rparr>"

definition demo_peer :: "string \<times> NodeInfo" where
  "demo_peer = (''n2'', \<lparr>Advertise = ''b'', Public = ''p'', Hostname = [], Version = [], StartedAt = [], LastHeartbeat = []\<rparr>)"

definition demo_cluster :: "fate list \<Rightarrow> (vstate, nat) cluster" where
  "demo_cluster fates = \<lparr>cl_nodes = [''b'' \<mapsto> demo_mesh_node], cl_fates = fates\<rparr>"

lemmas demo_mesh_defs = demo_mesh_leaf_def demo_mesh_node_def demo_control_env_def demo_peer_def demo_cluster_def HasMeshRole_def MeshRoleOU_def


definition demo_drain_io :: drain_io where
  "demo_drain_io = \<lparr>dr_rnd = \<lambda>_ _. None, dr_marshal = \<lambda>_. Inl ''json''\<rparr>"


lemma demo_candidate: "leastActive demo_cfg 100 ''t'' demo_edge = (Some 2, 90)"
  by (simp add: leastActive_def demo_edge_def least_step_def demo_stream_def evictable_def demo_cfg_def)

lemma demo_offer: "offer_of (\<lambda>_. demo_control_env) ''t'' (demo_cluster fates) demo_peer = Some \<lparr>so_node = ''n2'', so_addr = ''b'', so_idle = 0\<rparr>"
  using demo_candidate
  by (simp add: offer_of_def demo_mesh_defs admin_SlotCandidate_def SlotCandidate_def milliseconds_def)

lemma demo_role: "HasMeshRole demo_mesh_leaf"
  by (simp add: demo_mesh_defs)

lemma demo_free:
  "FreeRemoteSlot (cluster_call (\<lambda>_. demo_control_env) (Some [demo_mesh_leaf])) ''n1'' (Some [demo_peer]) 0 ''t'' (demo_cluster [Delivered, AnswerLost])
     = (True, \<lparr>cl_nodes = [''b'' \<mapsto> demo_mesh_node\<lparr>nd_edge := evict_now mem_exec 2 demo_edge\<rparr>], cl_fates = []\<rparr>)"
proof -
  let ?call = "cluster_call (\<lambda>_. demo_control_env) (Some [demo_mesh_leaf])"
  have "offers ?call ''n1'' (Some [demo_peer]) ''t'' (demo_cluster [Delivered, AnswerLost])
      = ([\<lparr>so_node = ''n2'', so_addr = ''b'', so_idle = 0\<rparr>], demo_cluster [AnswerLost])"
    using offer_step_delivered [of "demo_cluster [Delivered, AnswerLost]" "[AnswerLost]" demo_mesh_leaf "''t''" "\<lambda>_. demo_control_env" "[]" demo_peer "[]"]
    by (simp add: offers_def demo_offer demo_role) (simp add: demo_cluster_def demo_peer_def)
  moreover have "mesh_ServeHTTP demo_control_env (Some [demo_mesh_leaf]) ControlPath ''POST'' (Some (control_request ''free-slot'' ''t'')) demo_mesh_node
      = (Body (Some (no_response\<lparr>cs_Applied := True\<rparr>)), demo_mesh_node\<lparr>nd_edge := evict_now mem_exec 2 demo_edge\<rparr>)"
    using demo_candidate
    by (simp add: served_when_valid demo_role mesh_dispatch_def admin_FreeSlot_def FreeSlot_def demo_control_env_def demo_mesh_node_def)
  ultimately show ?thesis
    by (simp add: FreeRemoteSlot_def slotFreeConcurrency_def cluster_call_def demo_cluster_def)
qed

theorem FreeRemoteSlot_at_most_one_witness:
  "\<exists>w'. FreeRemoteSlot (cluster_call (\<lambda>_. demo_control_env) (Some [demo_mesh_leaf])) ''n1'' (Some [demo_peer]) 0 ''t'' (demo_cluster [Delivered, AnswerLost])
       = (True, w') \<and> (\<exists>addr i. one_evicted (\<lambda>_. demo_control_env) ''t'' (demo_cluster [Delivered, AnswerLost]) w' addr i)"
proof -
  have "\<not> is_evicted 2 demo_edge" by (simp add: is_evicted_def demo_edge_def demo_stream_def)
  moreover have "is_evicted 2 (evict_now mem_exec 2 demo_edge)"
    by (simp add: is_evicted_def evict_now_def releaseSlot_def upd_def demo_edge_def demo_stream_def)
  ultimately have "nd_edge demo_mesh_node \<noteq> evict_now mem_exec 2 demo_edge" by (auto simp: demo_mesh_node_def)
  then have "demo_mesh_node\<lparr>nd_edge := evict_now mem_exec 2 demo_edge\<rparr> \<noteq> demo_mesh_node" by (metis node.select_convs(2) node.surjective node.update_convs(2))
  then have "cl_nodes \<lparr>cl_nodes = [''b'' \<mapsto> demo_mesh_node\<lparr>nd_edge := evict_now mem_exec 2 demo_edge\<rparr>], cl_fates = []\<rparr>
      \<noteq> cl_nodes (demo_cluster [Delivered, AnswerLost])" by (auto simp: demo_cluster_def dest: fun_cong [of _ _ "''b''"])
  moreover have "ce_rounds demo_control_env = []" by (simp add: demo_control_env_def)
  note FreeRemoteSlot_at_most_one [OF demo_free this]
  ultimately show ?thesis using demo_free by blast
qed

lemma FreeRemoteSlot_longest_idle_witness:
  "\<exists>w'. FreeRemoteSlot (cluster_call (\<lambda>_. demo_control_env) (Some [demo_mesh_leaf])) ''n1'' (Some [demo_peer]) 0 ''t'' (demo_cluster [Delivered, Delivered]) = (True, w')
      \<and> (\<exists>i. one_evicted (\<lambda>_. demo_control_env) ''t'' (demo_cluster [Delivered, Delivered]) w' ''b'' i)"
proof -
  obtain ok w' where run: "FreeRemoteSlot (cluster_call (\<lambda>_. demo_control_env) (Some (demo_mesh_leaf # []))) ''n1'' (Some [demo_peer]) 0 ''t''
      (demo_cluster [Delivered, Delivered]) = (ok, w')" by (meson surj_pair)
  have c: "cl_fates (demo_cluster [Delivered, Delivered]) = [Delivered, Delivered]" "ce_rounds demo_control_env = []" "fst demo_peer \<noteq> ''n1''"
    by (simp_all add: demo_cluster_def demo_control_env_def demo_peer_def)
  show ?thesis
    using FreeRemoteSlot_longest_idle [OF _ _ demo_role _ _ _ run] run
    by (auto simp: c slotFreeConcurrency_def demo_offer)
qed


end
