(* ===== verification/Challenge_Store.thy ===== *)
theory Challenge_Store
  imports Edge_Tunnel
begin

text \<open>
  The store all replicas share while a certificate is ordered (\<^verbatim>\<open>src/internal/acme/challenge_store.go\<close>): the tls-alpn-01 and
  http-01 answers, the lock around ordering a certificate for one of the server's own host names, and the finished certificate
  of such a host. Also the plain HTTP handler that answers http-01 (\<^verbatim>\<open>challenge_http.go\<close>). \<open>uni\<close> is Go's lower-casing of text that is not ASCII; making the
  certificate of a tls-alpn-01 answer is an argument.
\<close>

definition ChallengeTTL :: duration where "ChallengeTTL = 10 * Minute"
definition selfLockTTL :: duration where "selfLockTTL = 10 * Minute"

datatype chal_err = ErrStore verr | ErrChallengePending | ErrCert | ErrToken | ErrExpired

definition alpnChallengeKey :: "(string \<Rightarrow> string) \<Rightarrow> string \<Rightarrow> vkey" where
  "alpnChallengeKey uni domain = ''acme:alpn:'' @ ToLower uni domain"

definition httpChallengeKey :: "(string \<Rightarrow> string) \<Rightarrow> string \<Rightarrow> string \<Rightarrow> vkey" where
  "httpChallengeKey uni domain token = ''acme:http:'' @ ToLower uni domain @ '':'' @ token"

definition selfLockKey :: "(string \<Rightarrow> string) \<Rightarrow> string \<Rightarrow> vkey" where
  "selfLockKey uni host = ''lock:acme-self:'' @ ToLower uni host"

definition selfCertKey :: "(string \<Rightarrow> string) \<Rightarrow> string \<Rightarrow> vkey" where
  "selfCertKey uni host = ''acme:self-cert:'' @ ToLower uni host"

subsection \<open>Keys with a value\<close>

definition cs_get :: "'s client \<Rightarrow> vkey \<Rightarrow> 's \<Rightarrow> (chal_err + string option) \<times> 's" where
  "cs_get ex k s =
     (case do1 ex (GET k) s of
        (Inr RNil, s1) \<Rightarrow> (Inr None, s1)
      | (Inl e, s1) \<Rightarrow> (Inl (ErrStore e), s1)
      | (Inr (RStr v), s1) \<Rightarrow> (Inr (Some v), s1)
      | (Inr _, s1) \<Rightarrow> (Inl (ErrStore (VErr ''reply'')), s1))"

definition deleteIfValue :: "'s client \<Rightarrow> vkey \<Rightarrow> string \<Rightarrow> 's \<Rightarrow> (chal_err + unit) \<times> 's" where
  "deleteIfValue ex k want s =
     (case cs_get ex k s of
        (Inl e, s1) \<Rightarrow> (Inl e, s1)
      | (Inr None, s1) \<Rightarrow> (Inr (), s1)
      | (Inr (Some cur), s1) \<Rightarrow>
          if cur \<noteq> want then (Inr (), s1)
          else (case do1 ex (DEL k) s1 of
                  (Inl e, s2) \<Rightarrow> (Inl (ErrStore e), s2)
                | (Inr _, s2) \<Rightarrow> (Inr (), s2)))"

subsection \<open>The tls-alpn-01 answer\<close>

fun put_alpn :: "'s client \<Rightarrow> vkey \<Rightarrow> duration \<Rightarrow> string \<Rightarrow> nat \<Rightarrow> 's \<Rightarrow> (chal_err + unit) \<times> 's" where
  "put_alpn ex k ttl keyAuth 0 s = (Inl ErrChallengePending, s)"
| "put_alpn ex k ttl keyAuth (Suc n) s =
     (case do1 ex (SETNX k keyAuth ttl) s of
        (Inl e, s1) \<Rightarrow> (Inl (ErrStore e), s1)
      | (Inr (RBool True), s1) \<Rightarrow> (Inr (), s1)
      | (Inr (RBool False), s1) \<Rightarrow>
          (case do1 ex (GET k) s1 of
             (Inr (RStr cur), s2) \<Rightarrow> if cur = keyAuth then (Inr (), s2) else (Inl ErrChallengePending, s2)
           | (Inr RNil, s2) \<Rightarrow> put_alpn ex k ttl keyAuth n s2
           | (Inl e, s2) \<Rightarrow> (Inl (ErrStore e), s2)
           | (Inr _, s2) \<Rightarrow> (Inl (ErrStore (VErr ''reply'')), s2))
      | (Inr _, s1) \<Rightarrow> (Inl (ErrStore (VErr ''reply'')), s1))"

definition PutTLSALPN :: "'s client \<Rightarrow> (string \<Rightarrow> string) \<Rightarrow> duration \<Rightarrow> string \<Rightarrow> string \<Rightarrow> 's \<Rightarrow> (chal_err + unit) \<times> 's" where
  "PutTLSALPN ex uni ttl domain keyAuth s = put_alpn ex (alpnChallengeKey uni domain) ttl keyAuth 2 s"

definition DeleteTLSALPN :: "'s client \<Rightarrow> (string \<Rightarrow> string) \<Rightarrow> string \<Rightarrow> string \<Rightarrow> 's \<Rightarrow> (chal_err + unit) \<times> 's" where
  "DeleteTLSALPN ex uni domain keyAuth s = deleteIfValue ex (alpnChallengeKey uni domain) keyAuth s"

definition TLSALPNCertificate ::
  "'s client \<Rightarrow> (string \<Rightarrow> string) \<Rightarrow> (string \<Rightarrow> string \<Rightarrow> 'c option) \<Rightarrow> string \<Rightarrow> 's \<Rightarrow> (chal_err + 'c option) \<times> 's" where
  "TLSALPNCertificate ex uni mkcert domain s =
     (case cs_get ex (alpnChallengeKey uni domain) s of
        (Inl e, s1) \<Rightarrow> (Inl e, s1)
      | (Inr None, s1) \<Rightarrow> (Inr None, s1)
      | (Inr (Some keyAuth), s1) \<Rightarrow>
          (case mkcert (ToLower uni domain) keyAuth of None \<Rightarrow> (Inl ErrCert, s1) | Some c \<Rightarrow> (Inr (Some c), s1)))"

subsection \<open>The http-01 answer\<close>

definition PutHTTP ::
  "'s client \<Rightarrow> (string \<Rightarrow> string) \<Rightarrow> duration \<Rightarrow> string \<Rightarrow> string \<Rightarrow> string \<Rightarrow> 's \<Rightarrow> (chal_err + unit) \<times> 's" where
  "PutHTTP ex uni ttl domain token keyAuth s =
     (case do1 ex (SET (httpChallengeKey uni domain token) keyAuth ttl) s of
        (Inl e, s1) \<Rightarrow> (Inl (ErrStore e), s1)
      | (Inr _, s1) \<Rightarrow> (Inr (), s1))"

definition DeleteHTTP ::
  "'s client \<Rightarrow> (string \<Rightarrow> string) \<Rightarrow> string \<Rightarrow> string \<Rightarrow> string \<Rightarrow> 's \<Rightarrow> (chal_err + unit) \<times> 's" where
  "DeleteHTTP ex uni domain token keyAuth s = deleteIfValue ex (httpChallengeKey uni domain token) keyAuth s"

definition HTTPKeyAuth ::
  "'s client \<Rightarrow> (string \<Rightarrow> string) \<Rightarrow> string \<Rightarrow> string \<Rightarrow> 's \<Rightarrow> (chal_err + string option) \<times> 's" where
  "HTTPKeyAuth ex uni domain token s = cs_get ex (httpChallengeKey uni domain token) s"

definition httpChallengePrefix :: string where "httpChallengePrefix = ''/.well-known/acme-challenge/''"
definition maxChallengeToken :: nat where "maxChallengeToken = 256"
definition maxChallengeHost :: nat where "maxChallengeHost = 253"

text \<open>\<^verbatim>\<open>html.EscapeString\<close>.\<close>

definition escape_char :: "char \<Rightarrow> string" where
  "escape_char c =
     (if c = CHR ''&'' then ''&amp;'' else if c = CHR 0x27 then ''&#39;'' else if c = CHR ''<'' then ''&lt;''
      else if c = CHR ''>'' then ''&gt;'' else if c = CHR 0x22 then ''&#34;'' else [c])"

definition EscapeString :: "string \<Rightarrow> string" where
  "EscapeString s = concat (map escape_char s)"

definition clientHost :: "string \<Rightarrow> string" where
  "clientHost remoteAddr = (case SplitHostPort remoteAddr of None \<Rightarrow> remoteAddr | Some (host, _) \<Rightarrow> host)"

definition challengeHost :: "(string \<Rightarrow> string) \<Rightarrow> string \<Rightarrow> string" where
  "challengeHost uni hostHeader =
     (let host = ToLower uni (TrimSuffix (clientHost hostHeader) ''.'')
      in if host = [] \<or> length host > maxChallengeHost then [] else host)"

definition token_char :: "char \<Rightarrow> bool" where
  "token_char c \<longleftrightarrow> isAlnum c \<or> c = CHR ''-'' \<or> c = CHR ''_''"

definition validChallengeToken :: "string \<Rightarrow> bool" where
  "validChallengeToken token \<longleftrightarrow> token \<noteq> [] \<and> length token \<le> maxChallengeToken \<and> list_all token_char token"

definition CutPrefix :: "string \<Rightarrow> string \<Rightarrow> string \<times> bool" where
  "CutPrefix s pre = (if HasPrefix s pre then (drop (length pre) s, True) else (s, False))"

record http_request =
  hr_Method :: string
  hr_Path :: string
  hr_Host :: string
  hr_RemoteAddr :: string

text \<open>The answer, with the address reported as a miss.\<close>

datatype challenge_answer = NotFound string | Unavailable | KeyAuth string

definition HTTPChallengeHandler ::
  "'s client \<Rightarrow> (string \<Rightarrow> string) \<Rightarrow> http_request \<Rightarrow> 's \<Rightarrow> challenge_answer \<times> 's" where
  "HTTPChallengeHandler ex uni r s =
     (let ip = clientHost (hr_RemoteAddr r); (token, isChallenge) = CutPrefix (hr_Path r) httpChallengePrefix;
          host = challengeHost uni (hr_Host r)
      in if hr_Method r \<noteq> ''GET'' \<and> hr_Method r \<noteq> ''HEAD'' \<or> \<not> isChallenge \<or> \<not> validChallengeToken token \<or> host = []
         then (NotFound ip, s)
         else case HTTPKeyAuth ex uni host token s of
           (Inl _, s1) \<Rightarrow> (Unavailable, s1)
         | (Inr None, s1) \<Rightarrow> (NotFound ip, s1)
         | (Inr (Some keyAuth), s1) \<Rightarrow> (KeyAuth (EscapeString keyAuth), s1))"

subsection \<open>The server's own certificates\<close>

text \<open>\<^verbatim>\<open>LockSelf\<close>: the token, when the lock was taken; the unlock function is \<open>UnlockSelf\<close> of it. The token may fail to be minted.\<close>

definition LockSelf :: "'s client \<Rightarrow> (string \<Rightarrow> string) \<Rightarrow> bytes option \<Rightarrow> string \<Rightarrow> 's \<Rightarrow> (chal_err + string option) \<times> 's" where
  "LockSelf ex uni rnd host s =
     (case rnd of
        None \<Rightarrow> (Inl ErrToken, s)
      | Some b \<Rightarrow>
          (let token = hex_EncodeToString b in
           case do1 ex (SETNX (selfLockKey uni host) token selfLockTTL) s of
             (Inl e, s1) \<Rightarrow> (Inl (ErrStore e), s1)
           | (Inr (RBool got), s1) \<Rightarrow> (Inr (if got then Some token else None), s1)
           | (Inr _, s1) \<Rightarrow> (Inl (ErrStore (VErr ''reply'')), s1)))"

definition UnlockSelf :: "'s client \<Rightarrow> (string \<Rightarrow> string) \<Rightarrow> string \<Rightarrow> string \<Rightarrow> 's \<Rightarrow> (chal_err + unit) \<times> 's" where
  "UnlockSelf ex uni host token s = deleteIfValue ex (selfLockKey uni host) token s"

definition SelfCert :: "'s client \<Rightarrow> (string \<Rightarrow> string) \<Rightarrow> string \<Rightarrow> 's \<Rightarrow> (chal_err + string option) \<times> 's" where
  "SelfCert ex uni host s = cs_get ex (selfCertKey uni host) s"

definition PutSelfCert ::
  "'s client \<Rightarrow> (string \<Rightarrow> string) \<Rightarrow> string \<Rightarrow> string \<Rightarrow> duration \<Rightarrow> 's \<Rightarrow> (chal_err + unit) \<times> 's" where
  "PutSelfCert ex uni host bundle ttl s =
     (if ttl \<le> 0 then (Inl ErrExpired, s)
      else case do1 ex (SET (selfCertKey uni host) bundle ttl) s of
        (Inl e, s1) \<Rightarrow> (Inl (ErrStore e), s1)
      | (Inr _, s1) \<Rightarrow> (Inr (), s1))"


subsection \<open>An answer is found again\<close>

text \<open>The colon that ends the domain cannot be inside a token, so a key names one domain and one token.\<close>

lemma token_no_colon: "validChallengeToken token \<Longrightarrow> CHR '':'' \<notin> set token"
  by (auto simp: validChallengeToken_def list_all_iff token_char_def isAlnum_def dest!: bspec)

lemma split_last:
  "xs @ c # ys = xs' @ c # ys' \<Longrightarrow> c \<notin> set ys \<Longrightarrow> c \<notin> set ys' \<Longrightarrow> xs = xs' \<and> ys = ys'"
proof (induct xs arbitrary: xs')
  case Nil
  then show ?case by (cases xs') auto
next
  case (Cons x xs)
  then show ?case by (cases xs') auto
qed

lemma httpChallengeKey_inj:
  assumes "httpChallengeKey uni d t = httpChallengeKey uni d' t'" "validChallengeToken t" "validChallengeToken t'"
  shows "ToLower uni d = ToLower uni d' \<and> t = t'"
  using split_last [of "ToLower uni d" "CHR '':''" t "ToLower uni d'" t'] assms token_no_colon
  by (simp add: httpChallengeKey_def)

definition plain_char :: "char \<Rightarrow> bool" where
  "plain_char c \<longleftrightarrow> token_char c \<or> c = CHR ''.''"

lemma EscapeString_plain: "list_all plain_char s \<Longrightarrow> EscapeString s = s"
  by (induct s) (auto simp: EscapeString_def escape_char_def plain_char_def token_char_def isAlnum_def)

context valkey
begin

lemma SET_kept:
  assumes "do1 ex (SET k x ttl) s = (Inr r, s1)" "0 < to_ms ttl" "ttl \<noteq> 0"
  shows "live (view s1) k = Some (VStr x, Some (clock (view s1) + to_ms ttl))"
proof -
  obtain v1 where "cmd_sem (SET k x ttl) v1 = (r, view s1)" by (rule do1_ok [OF assms(1)])
  then have "view s1 = put v1 k (VStr x) (Some (clock v1 + to_ms ttl))" using assms(3) by (simp add: ttl_at_def)
  then show ?thesis using assms(2) by (simp add: vk_simps)
qed

lemma cs_get_live:
  assumes "cs_get ex k s = (Inr r, s1)" "\<And>v v'. R v v' \<Longrightarrow> live v' k = live v k" "live (view s) k = Some (VStr x, t)"
  shows "r = Some x"
proof -
  obtain q where q: "do1 ex (GET k) s = (Inr q, s1)" "q = RStr x \<longrightarrow> r = Some x"
    using assms(1) by (auto simp: cs_get_def split: prod.splits sum.splits reply.splits)
  obtain v1 where "R (view s) v1" "cmd_sem (GET k) v1 = (q, view s1)" by (rule do1_ok [OF q(1)])
  then have "q = RStr x" using assms(2,3) by (auto simp: is_str_def str_of_def)
  then show ?thesis using q(2) by simp
qed

end



definition demo_challenge_request :: http_request where
  "demo_challenge_request = \<lparr>hr_Method = ''GET'', hr_Path = httpChallengePrefix @ ''tok'', hr_Host = ''FOX.test.:80'', hr_RemoteAddr = ''9.9.9.9:1''\<rparr>"

definition demo_store :: vstate where "demo_store = \<lparr>clock = 0, keyspace = Map.empty\<rparr>"

lemma demo_put: "PutHTTP mem_exec id ChallengeTTL ''Fox.test'' ''tok'' ''tok.abc'' demo_store =
    (Inr (), put demo_store (httpChallengeKey id ''Fox.test'' ''tok'') (VStr ''tok.abc'') (Some 600000))"
  by (simp add: PutHTTP_def do1_def mem_exec_def net_exec_def ttl_at_def ChallengeTTL_def to_ms_def demo_store_def)


end
