(* ===== verification/Reserved_Certs.thy ===== *)
theory Reserved_Certs
  imports Challenge_Store Enrollment
begin

text \<open>
  The server's own host names and their certificates (\<^verbatim>\<open>src/internal/server/reserved.go\<close>): each replica keeps a certificate in memory and on
  disk, takes a newer one another replica shared, and orders one under a lock all replicas share. Key pairs and expiry dates are
  read out of PEM text by \<^verbatim>\<open>crypto/tls\<close> and \<^verbatim>\<open>crypto/x509\<close>, and bundles are JSON: these are arguments. The order itself
  and the renewal schedule belong to the certificate chain and are arguments of the operations.
\<close>

record certBundle =
  cb_CertPEM :: string
  cb_KeyPEM :: string
  cb_Info :: CertInfo

record 'c codec =
  X509KeyPair :: "string \<Rightarrow> string \<Rightarrow> 'c option"
  leafNotAfter :: "string \<Rightarrow> int option"
  marshalBundle :: "certBundle \<Rightarrow> string option"
  unmarshalBundle :: "string \<Rightarrow> certBundle option"
  unmarshalInfo :: "string \<Rightarrow> CertInfo option"

record 'c reservedHost =
  rh_cur :: "'c option"
  rh_info :: CertInfo

definition no_info :: CertInfo where
  "no_info = \<lparr>ci_CA = [], ci_Serial = [], ci_NotBefore = - zero_time, ci_NotAfter = - zero_time, ci_ARIID = []\<rparr>"

text \<open>A file of a host's directory: absent, there but unreadable, or its text. The old format has three files.\<close>

datatype disk_file = Absent | Unreadable | Text string

record host_files =
  hf_bundle :: disk_file
  hf_cert :: disk_file
  hf_key :: disk_file
  hf_meta :: disk_file

record ('c, 's) reservedCerts =
  rc_hosts :: "(string \<times> 'c reservedHost) list"
  rc_disk :: "string \<Rightarrow> host_files"
  rc_vk :: 's

definition newReservedCerts :: "string list \<Rightarrow> (string \<Rightarrow> host_files) \<Rightarrow> 's \<Rightarrow> ('c, 's) reservedCerts" where
  "newReservedCerts hosts disk s =
     \<lparr>rc_hosts = map (\<lambda>h. (h, \<lparr>rh_cur = None, rh_info = no_info\<rparr>)) (remdups hosts), rc_disk = disk, rc_vk = s\<rparr>"

definition host_of :: "string \<Rightarrow> ('c, 's) reservedCerts \<Rightarrow> 'c reservedHost option" where
  "host_of host rc = map_of (rc_hosts rc) host"

definition currentInfo :: "string \<Rightarrow> ('c, 's) reservedCerts \<Rightarrow> CertInfo" where
  "currentInfo host rc = (case host_of host rc of None \<Rightarrow> no_info | Some rh \<Rightarrow> rh_info rh)"

definition has_cert :: "string \<Rightarrow> ('c, 's) reservedCerts \<Rightarrow> bool" where
  "has_cert host rc = (case host_of host rc of None \<Rightarrow> False | Some rh \<Rightarrow> rh_cur rh \<noteq> None)"

definition store_cert :: "string \<Rightarrow> 'c \<Rightarrow> CertInfo \<Rightarrow> ('c, 's) reservedCerts \<Rightarrow> ('c, 's) reservedCerts" where
  "store_cert host cert info rc =
     rc\<lparr>rc_hosts := map (\<lambda>(h, rh). if h = host then (h, \<lparr>rh_cur = Some cert, rh_info = info\<rparr>) else (h, rh)) (rc_hosts rc)\<rparr>"

text \<open>\<^verbatim>\<open>getCertificateFor\<close>: \<open>None\<close> is the error while there is no certificate.\<close>

definition getCertificateFor :: "string \<Rightarrow> ('c, 's) reservedCerts \<Rightarrow> 'c option" where
  "getCertificateFor host rc = (case host_of host rc of None \<Rightarrow> None | Some rh \<Rightarrow> rh_cur rh)"

definition degraded :: "('c, 's) reservedCerts \<Rightarrow> bool" where
  "degraded rc \<longleftrightarrow> (\<exists>(h, rh) \<in> set (rc_hosts rc). rh_cur rh = None)"

subsection \<open>The copy on disk\<close>

definition info_with_expiry :: "'c codec \<Rightarrow> string \<Rightarrow> CertInfo \<Rightarrow> CertInfo option" where
  "info_with_expiry cd certPEM info =
     (if ci_NotAfter info = - zero_time then map_option (\<lambda>na. info\<lparr>ci_NotAfter := na\<rparr>) (leafNotAfter cd certPEM) else Some info)"

definition read_bundle :: "'c codec \<Rightarrow> string \<Rightarrow> ('c \<times> certBundle) option" where
  "read_bundle cd raw =
     (case unmarshalBundle cd raw of
        None \<Rightarrow> None
      | Some b \<Rightarrow>
          (case X509KeyPair cd (cb_CertPEM b) (cb_KeyPEM b) of
             None \<Rightarrow> None
           | Some cert \<Rightarrow> map_option (\<lambda>info. (cert, b\<lparr>cb_Info := info\<rparr>)) (info_with_expiry cd (cb_CertPEM b) (cb_Info b))))"

definition loadBundle :: "'c codec \<Rightarrow> disk_file \<Rightarrow> ('c \<times> CertInfo) option" where
  "loadBundle cd f =
     (case f of Text raw \<Rightarrow> map_option (\<lambda>(cert, b). (cert, cb_Info b)) (read_bundle cd raw) | _ \<Rightarrow> None)"

definition loadLegacyTriple :: "'c codec \<Rightarrow> host_files \<Rightarrow> ('c \<times> CertInfo) option" where
  "loadLegacyTriple cd fs =
     (case (hf_cert fs, hf_key fs) of
        (Text certPEM, Text keyPEM) \<Rightarrow>
          (case X509KeyPair cd certPEM keyPEM of
             None \<Rightarrow> None
           | Some cert \<Rightarrow>
               (let info = (case hf_meta fs of
                      Text raw \<Rightarrow> (case unmarshalInfo cd raw of None \<Rightarrow> no_info | Some i \<Rightarrow> i) | _ \<Rightarrow> no_info)
                in map_option (\<lambda>i. (cert, i)) (info_with_expiry cd certPEM info)))
      | _ \<Rightarrow> None)"

definition loadCached :: "'c codec \<Rightarrow> host_files \<Rightarrow> ('c \<times> CertInfo) option" where
  "loadCached cd fs = (case loadBundle cd (hf_bundle fs) of Some r \<Rightarrow> Some r | None \<Rightarrow> loadLegacyTriple cd fs)"

text \<open>
  \<^verbatim>\<open>persist\<close>: the new bundle is written beside the old one and renamed over it; any step may fail (\<open>written\<close> says whether all succeed),
  and then the old file is still there, whole.
\<close>

definition persist ::
  "'c codec \<Rightarrow> bool \<Rightarrow> string \<Rightarrow> string \<Rightarrow> string \<Rightarrow> CertInfo \<Rightarrow> ('c, 's) reservedCerts \<Rightarrow> ('c, 's) reservedCerts" where
  "persist cd written host certPEM keyPEM info rc =
     (case marshalBundle cd \<lparr>cb_CertPEM = certPEM, cb_KeyPEM = keyPEM, cb_Info = info\<rparr> of
        None \<Rightarrow> rc
      | Some raw \<Rightarrow>
          if written then rc\<lparr>rc_disk := (rc_disk rc)(host := (rc_disk rc host)\<lparr>hf_bundle := Text raw\<rparr>)\<rparr> else rc)"

subsection \<open>The copy all replicas share\<close>

type_synonym 's schedule = "CertInfo \<Rightarrow> 's \<Rightarrow> bool option \<times> 's"

definition adoptable :: "int \<Rightarrow> string \<Rightarrow> CertInfo \<Rightarrow> ('c, 's) reservedCerts \<Rightarrow> bool" where
  "adoptable now host info rc \<longleftrightarrow>
     now < ci_NotAfter info \<and> \<not> (has_cert host rc \<and> \<not> ci_NotAfter info > ci_NotAfter (currentInfo host rc))"

definition adoptShared ::
  "'s client \<Rightarrow> (string \<Rightarrow> string) \<Rightarrow> 'c codec \<Rightarrow> 's schedule \<Rightarrow> int \<Rightarrow> bool \<Rightarrow> bool \<Rightarrow> string
   \<Rightarrow> ('c, 's) reservedCerts \<Rightarrow> bool \<times> ('c, 's) reservedCerts" where
  "adoptShared ex uni cd shouldRenew now written requireNotDue host rc =
     (case SelfCert ex uni host (rc_vk rc) of
        (Inl _, s) \<Rightarrow> (False, rc\<lparr>rc_vk := s\<rparr>)
      | (Inr None, s) \<Rightarrow> (False, rc\<lparr>rc_vk := s\<rparr>)
      | (Inr (Some raw), s) \<Rightarrow>
          (case read_bundle cd raw of
             None \<Rightarrow> (False, rc\<lparr>rc_vk := s\<rparr>)
           | Some (cert, b) \<Rightarrow>
               if \<not> adoptable now host (cb_Info b) rc then (False, rc\<lparr>rc_vk := s\<rparr>)
               else
                 let (due, s1) = (if requireNotDue then shouldRenew (cb_Info b) s else (Some False, s)) in
                 if due \<noteq> Some False then (False, rc\<lparr>rc_vk := s1\<rparr>)
                 else (True, persist cd written host (cb_CertPEM b) (cb_KeyPEM b) (cb_Info b)
                               (store_cert host cert (cb_Info b) (rc\<lparr>rc_vk := s1\<rparr>)))))"

definition publish_cert ::
  "'s client \<Rightarrow> (string \<Rightarrow> string) \<Rightarrow> 'c codec \<Rightarrow> int \<Rightarrow> string \<Rightarrow> string \<Rightarrow> string \<Rightarrow> CertInfo
   \<Rightarrow> ('c, 's) reservedCerts \<Rightarrow> ('c, 's) reservedCerts" where
  "publish_cert ex uni cd now host certPEM keyPEM info rc =
     (case marshalBundle cd \<lparr>cb_CertPEM = certPEM, cb_KeyPEM = keyPEM, cb_Info = info\<rparr> of
        None \<Rightarrow> rc
      | Some raw \<Rightarrow> rc\<lparr>rc_vk := snd (PutSelfCert ex uni host raw (ci_NotAfter info - now) (rc_vk rc))\<rparr>)"

text \<open>\<^verbatim>\<open>loadCache\<close> at start: the copy on disk if it has not expired, then a newer shared one.\<close>

definition load_host ::
  "'s client \<Rightarrow> (string \<Rightarrow> string) \<Rightarrow> 'c codec \<Rightarrow> 's schedule \<Rightarrow> int \<Rightarrow> bool \<Rightarrow> string \<Rightarrow> ('c, 's) reservedCerts \<Rightarrow> ('c, 's) reservedCerts" where
  "load_host ex uni cd shouldRenew now written host rc =
     (let rc1 = (case loadCached cd (rc_disk rc host) of
            Some (cert, info) \<Rightarrow> if now < ci_NotAfter info then store_cert host cert info rc else rc | None \<Rightarrow> rc)
      in snd (adoptShared ex uni cd shouldRenew now written False host rc1))"

definition loadCache ::
  "'s client \<Rightarrow> (string \<Rightarrow> string) \<Rightarrow> 'c codec \<Rightarrow> 's schedule \<Rightarrow> int \<Rightarrow> bool \<Rightarrow> ('c, 's) reservedCerts \<Rightarrow> ('c, 's) reservedCerts" where
  "loadCache ex uni cd shouldRenew now written rc =
     fold (load_host ex uni cd shouldRenew now written) (map fst (rc_hosts rc)) rc"

subsection \<open>Ordering a certificate\<close>

text \<open>
  \<^verbatim>\<open>acquire\<close> polls the lock until it is taken, an error other than the end of the wait occurs, or the wait ends. Each poll has
  its random bytes, whether the wait has ended when its call fails, and whether it ends before the next poll; the wait ends at the latest
  with the list.
\<close>

fun acquire_self ::
  "'s client \<Rightarrow> (string \<Rightarrow> string) \<Rightarrow> string \<Rightarrow> (bytes option \<times> bool \<times> bool) list \<Rightarrow> 's \<Rightarrow> (chal_err + string option) \<times> 's" where
  "acquire_self ex uni host [] s = (Inr None, s)"
| "acquire_self ex uni host ((rnd, ended, ends) # polls) s =
     (case LockSelf ex uni rnd host s of
        (Inl e, s1) \<Rightarrow> (if ended then Inr None else Inl e, s1)
      | (Inr (Some token), s1) \<Rightarrow> (Inr (Some token), s1)
      | (Inr None, s1) \<Rightarrow> if ends then (Inr None, s1) else acquire_self ex uni host polls s1)"

record issue_self_io =
  ii_polls :: "(bytes option \<times> bool \<times> bool) list"
  ii_stopped :: bool
  ii_stopped_after :: bool
  ii_timed_out :: bool
  ii_now_adopt :: int
  ii_now_publish :: int
  ii_written :: bool
  ii_written2 :: bool

definition release_self ::
  "'s client \<Rightarrow> (string \<Rightarrow> string) \<Rightarrow> string \<Rightarrow> string option \<Rightarrow> ('c, 's) reservedCerts \<Rightarrow> ('c, 's) reservedCerts" where
  "release_self ex uni host lock rc =
     (case lock of None \<Rightarrow> rc | Some token \<Rightarrow> rc\<lparr>rc_vk := snd (UnlockSelf ex uni host token (rc_vk rc))\<rparr>)"

type_synonym 's self_issuer = "string \<Rightarrow> CertInfo \<Rightarrow> 's \<Rightarrow> (string \<times> string \<times> CertInfo) option \<times> 's"

text \<open>What follows once it is settled that this replica orders, with or without the lock.\<close>

definition order_cert ::
  "'s client \<Rightarrow> (string \<Rightarrow> string) \<Rightarrow> 'c codec \<Rightarrow> 's self_issuer \<Rightarrow> issue_self_io \<Rightarrow> string option \<Rightarrow> string
   \<Rightarrow> ('c, 's) reservedCerts \<Rightarrow> ('c, 's) reservedCerts" where
  "order_cert ex uni cd order io lock host rc =
     (case order host (currentInfo host rc) (rc_vk rc) of
        (None, s) \<Rightarrow>
          if \<not> ii_stopped_after io \<and> ii_timed_out io then rc\<lparr>rc_vk := s\<rparr>
          else release_self ex uni host lock (rc\<lparr>rc_vk := s\<rparr>)
      | (Some (certPEM, keyPEM, info), s) \<Rightarrow>
          (let rc1 = rc\<lparr>rc_vk := s\<rparr> in
           release_self ex uni host lock
             (case X509KeyPair cd certPEM keyPEM of
                None \<Rightarrow> rc1
              | Some c \<Rightarrow>
                  publish_cert ex uni cd (ii_now_publish io) host certPEM keyPEM info
                    (persist cd (ii_written2 io) host certPEM keyPEM info (store_cert host c info rc1)))))"

definition issue_cert ::
  "'s client \<Rightarrow> (string \<Rightarrow> string) \<Rightarrow> 'c codec \<Rightarrow> 's schedule \<Rightarrow> 's self_issuer \<Rightarrow> issue_self_io \<Rightarrow> string
   \<Rightarrow> ('c, 's) reservedCerts \<Rightarrow> ('c, 's) reservedCerts" where
  "issue_cert ex uni cd shouldRenew order io host rc =
     (case acquire_self ex uni host (ii_polls io) (rc_vk rc) of
        (res, s) \<Rightarrow>
          (let rc1 = rc\<lparr>rc_vk := s\<rparr>; lock = (case res of Inl _ \<Rightarrow> None | Inr l \<Rightarrow> l) in
           if ii_stopped io then release_self ex uni host lock rc1
           else if res = Inr None then rc1
           else if lock = None then order_cert ex uni cd order io lock host rc1
           else (case adoptShared ex uni cd shouldRenew (ii_now_adopt io) (ii_written io) True host rc1 of
                   (True, rc2) \<Rightarrow> release_self ex uni host lock rc2
                 | (False, rc2) \<Rightarrow> order_cert ex uni cd order io lock host rc2)))"

definition maybeRenew ::
  "'s client \<Rightarrow> (string \<Rightarrow> string) \<Rightarrow> 'c codec \<Rightarrow> 's schedule \<Rightarrow> 's self_issuer \<Rightarrow> int \<times> bool \<Rightarrow> issue_self_io \<Rightarrow> string
   \<Rightarrow> ('c, 's) reservedCerts \<Rightarrow> ('c, 's) reservedCerts" where
  "maybeRenew ex uni cd shouldRenew order first io host rc =
     (let rc1 = snd (adoptShared ex uni cd shouldRenew (fst first) (snd first) False host rc) in
      if has_cert host rc1 then
        (case shouldRenew (currentInfo host rc1) (rc_vk rc1) of
           (Some True, s) \<Rightarrow> issue_cert ex uni cd shouldRenew order io host (rc1\<lparr>rc_vk := s\<rparr>)
         | (_, s) \<Rightarrow> rc1\<lparr>rc_vk := s\<rparr>)
      else issue_cert ex uni cd shouldRenew order io host rc1)"

text \<open>One turn of \<^verbatim>\<open>run\<close>: every host, and the wait before the next turn.\<close>

definition reserved_turn ::
  "'s client \<Rightarrow> (string \<Rightarrow> string) \<Rightarrow> 'c codec \<Rightarrow> 's schedule \<Rightarrow> 's self_issuer \<Rightarrow> (string \<Rightarrow> (int \<times> bool) \<times> issue_self_io)
   \<Rightarrow> duration \<Rightarrow> duration \<Rightarrow> ('c, 's) reservedCerts \<Rightarrow> duration \<times> ('c, 's) reservedCerts" where
  "reserved_turn ex uni cd shouldRenew order ios renewEvery degradedEvery rc =
     (let rc1 = fold (\<lambda>host. maybeRenew ex uni cd shouldRenew order (fst (ios host)) (snd (ios host)) host) (map fst (rc_hosts rc)) rc
      in (if degraded rc1 then degradedEvery else renewEvery, rc1))"


subsection \<open>A host keeps its certificate\<close>

lemma host_of_store_cert:
  "host_of h (store_cert host cert info rc) =
     (if h = host then map_option (\<lambda>_. \<lparr>rh_cur = Some cert, rh_info = info\<rparr>) (host_of h rc) else host_of h rc)"
proof -
  have "map_of (map (\<lambda>(k, rh). if k = host then (k, \<lparr>rh_cur = Some cert, rh_info = info\<rparr>) else (k, rh)) xs) h =
      (if h = host then map_option (\<lambda>_. \<lparr>rh_cur = Some cert, rh_info = info\<rparr>) (map_of xs h) else map_of xs h)" for xs
    by (induct xs) auto
  then show ?thesis by (simp add: host_of_def store_cert_def)
qed

lemma persist_simps [simp]:
  "host_of h (persist cd written host certPEM keyPEM info rc) = host_of h rc"
  "rc_vk (persist cd written host certPEM keyPEM info rc) = rc_vk rc"
  by (auto simp: persist_def host_of_def split: option.splits)

lemma host_of_vk [simp]: "host_of h (rc\<lparr>rc_vk := s\<rparr>) = host_of h rc"
  by (simp add: host_of_def)

lemma release_publish_host [simp]:
  "host_of h (release_self ex uni host lock rc) = host_of h rc"
  "host_of h (publish_cert ex uni cd now host certPEM keyPEM info rc) = host_of h rc"
  by (auto simp: release_self_def publish_cert_def split: option.splits)

text \<open>How an operation may change the table: only the given host, and only to a certificate whose key fits.\<close>

definition better_cert :: "'c codec \<Rightarrow> string \<Rightarrow> ('c, 's) reservedCerts \<Rightarrow> ('c, 's) reservedCerts \<Rightarrow> bool" where
  "better_cert cd host rc rc' \<longleftrightarrow>
     (\<forall>h. host_of h rc' = host_of h rc
        \<or> h = host \<and> host_of h rc \<noteq> None
          \<and> (\<exists>c certPEM keyPEM info. X509KeyPair cd certPEM keyPEM = Some c \<and> host_of h rc' = Some \<lparr>rh_cur = Some c, rh_info = info\<rparr>))"

lemma better_same: "(\<And>h. host_of h rc' = host_of h rc) \<Longrightarrow> better_cert cd host rc rc'"
  by (simp add: better_cert_def)

lemma better_trans: "better_cert cd host rc rc1 \<Longrightarrow> better_cert cd host rc1 rc2 \<Longrightarrow> better_cert cd host rc rc2"
  unfolding better_cert_def by metis

lemma better_store:
  assumes "X509KeyPair cd certPEM keyPEM = Some c" "\<And>h. host_of h rc1 = host_of h rc" "\<And>h. host_of h rc' = host_of h (store_cert host c info rc1)"
  shows "better_cert cd host rc rc'"
  unfolding better_cert_def
proof
  fix h
  show "host_of h rc' = host_of h rc \<or> h = host \<and> host_of h rc \<noteq> None
      \<and> (\<exists>c certPEM keyPEM info. X509KeyPair cd certPEM keyPEM = Some c \<and> host_of h rc' = Some \<lparr>rh_cur = Some c, rh_info = info\<rparr>)"
    using assms(1) unfolding assms(3) host_of_store_cert assms(2) by (cases "host_of h rc") auto
qed

lemma read_bundle_pair: "read_bundle cd raw = Some (cert, b) \<Longrightarrow> X509KeyPair cd (cb_CertPEM b) (cb_KeyPEM b) = Some cert"
  by (auto simp: read_bundle_def split: option.splits)

lemma adoptShared_refused:
  "fst (adoptShared ex uni cd shouldRenew now written req host rc) = False \<Longrightarrow>
   \<exists>s. snd (adoptShared ex uni cd shouldRenew now written req host rc) = rc\<lparr>rc_vk := s\<rparr>"
  by (auto simp: adoptShared_def Let_def split: prod.splits sum.splits option.splits if_splits)

lemma adoptShared_taken:
  assumes "fst (adoptShared ex uni cd shouldRenew now written req host rc)"
  shows "\<exists>cert b s raw. read_bundle cd raw = Some (cert, b) \<and> adoptable now host (cb_Info b) rc
    \<and> snd (adoptShared ex uni cd shouldRenew now written req host rc) =
        persist cd written host (cb_CertPEM b) (cb_KeyPEM b) (cb_Info b) (store_cert host cert (cb_Info b) (rc\<lparr>rc_vk := s\<rparr>))"
proof -
  obtain raw s where g: "SelfCert ex uni host (rc_vk rc) = (Inr (Some raw), s)"
    using assms by (auto simp: adoptShared_def split: prod.splits sum.splits option.splits)
  then obtain cert b where r: "read_bundle cd raw = Some (cert, b)"
    using assms by (auto simp: adoptShared_def split: option.splits)
  let ?d = "if req then shouldRenew (cb_Info b) s else (Some False, s)"
  have eq: "adoptShared ex uni cd shouldRenew now written req host rc =
      (if \<not> adoptable now host (cb_Info b) rc then (False, rc\<lparr>rc_vk := s\<rparr>)
       else if fst ?d \<noteq> Some False then (False, rc\<lparr>rc_vk := snd ?d\<rparr>)
       else (True, persist cd written host (cb_CertPEM b) (cb_KeyPEM b) (cb_Info b) (store_cert host cert (cb_Info b) (rc\<lparr>rc_vk := snd ?d\<rparr>))))"
    by (simp add: adoptShared_def g r case_prod_beta Let_def)
  show ?thesis using assms r unfolding eq by (auto split: if_splits)
qed

lemma adoptShared_better: "better_cert cd host rc (snd (adoptShared ex uni cd shouldRenew now written req host rc))"
proof -
  let ?r = "adoptShared ex uni cd shouldRenew now written req host rc"
  show ?thesis
  proof (cases "fst ?r")
    case False
    then obtain s where "snd ?r = rc\<lparr>rc_vk := s\<rparr>" using adoptShared_refused by blast
    then show ?thesis by (intro better_same) simp
  next
    case True
    then obtain cert b s raw where r: "read_bundle cd raw = Some (cert, b)" and eq: "snd ?r =
        persist cd written host (cb_CertPEM b) (cb_KeyPEM b) (cb_Info b) (store_cert host cert (cb_Info b) (rc\<lparr>rc_vk := s\<rparr>))"
      using adoptShared_taken by blast
    show ?thesis unfolding eq by (rule better_store [OF read_bundle_pair [OF r], of "rc\<lparr>rc_vk := s\<rparr>"]) simp_all
  qed
qed

lemma order_cert_better: "better_cert cd host rc (order_cert ex uni cd order io lock host rc)"
proof -
  obtain r s where o: "order host (currentInfo host rc) (rc_vk rc) = (r, s)" by (meson surj_pair)
  show ?thesis
  proof (cases r)
    case None
    then show ?thesis by (intro better_same) (simp add: order_cert_def o)
  next
    case (Some x)
    then obtain certPEM keyPEM info where x: "r = Some (certPEM, keyPEM, info)" by (cases x) auto
    show ?thesis
    proof (cases "X509KeyPair cd certPEM keyPEM")
      case None
      then show ?thesis by (intro better_same) (simp add: order_cert_def o x Let_def)
    next
      case (Some c)
      then show ?thesis by (intro better_store [OF Some, of "rc\<lparr>rc_vk := s\<rparr>"]) (simp_all add: order_cert_def o x Let_def)
    qed
  qed
qed

lemma issue_cert_better: "better_cert cd host rc (issue_cert ex uni cd shouldRenew order io host rc)"
proof -
  obtain res s where a: "acquire_self ex uni host (ii_polls io) (rc_vk rc) = (res, s)" by (meson surj_pair)
  let ?rc1 = "rc\<lparr>rc_vk := s\<rparr>" and ?lock = "case res of Inl _ \<Rightarrow> None | Inr l \<Rightarrow> l"
  obtain ok rc2 where ad: "adoptShared ex uni cd shouldRenew (ii_now_adopt io) (ii_written io) True host ?rc1 = (ok, rc2)" by (meson surj_pair)
  have b1: "better_cert cd host rc ?rc1" by (rule better_same) simp
  have b2: "better_cert cd host rc rc2" using better_trans [OF b1 adoptShared_better] ad by (metis snd_conv)
  consider "issue_cert ex uni cd shouldRenew order io host rc = release_self ex uni host ?lock ?rc1"
    | "issue_cert ex uni cd shouldRenew order io host rc = ?rc1"
    | "issue_cert ex uni cd shouldRenew order io host rc = order_cert ex uni cd order io ?lock host ?rc1"
    | "issue_cert ex uni cd shouldRenew order io host rc = release_self ex uni host ?lock rc2"
    | "issue_cert ex uni cd shouldRenew order io host rc = order_cert ex uni cd order io ?lock host rc2"
    by (cases "ii_stopped io"; cases "res = Inr None"; cases "?lock = None"; cases ok) (auto simp: issue_cert_def a Let_def ad)
  then show ?thesis
  proof cases
    case 4
    then show ?thesis using better_trans [OF b2 better_same, of "issue_cert ex uni cd shouldRenew order io host rc"] by simp
  qed (use better_trans [OF b1 order_cert_better] better_trans [OF b2 order_cert_better] in \<open>auto intro: better_same\<close>)
qed

lemma maybeRenew_better: "better_cert cd host rc (maybeRenew ex uni cd shouldRenew order first io host rc)"
proof -
  define rc1 where "rc1 = snd (adoptShared ex uni cd shouldRenew (fst first) (snd first) False host rc)"
  have b: "better_cert cd host rc rc1" unfolding rc1_def by (rule adoptShared_better)
  obtain due s where d: "shouldRenew (currentInfo host rc1) (rc_vk rc1) = (due, s)" by (meson surj_pair)
  have b1: "better_cert cd host rc (rc1\<lparr>rc_vk := s\<rparr>)" by (rule better_trans [OF b better_same]) simp
  show ?thesis
    unfolding maybeRenew_def Let_def rc1_def [symmetric] d
    using better_trans [OF b issue_cert_better] better_trans [OF b1 issue_cert_better] b1 by (simp split: option.splits bool.splits)
qed

lemma insert_trans: "a \<in> insert b S \<Longrightarrow> x \<in> insert a S \<Longrightarrow> x \<in> insert b S"
  by auto

lemma fold_renew_keeps:
  "getCertificateFor h (fold (\<lambda>host. maybeRenew ex uni cd shouldRenew order (fst (ios host)) (snd (ios host)) host) hs rc) \<in>
     insert (getCertificateFor h rc) {Some c | c certPEM keyPEM. X509KeyPair cd certPEM keyPEM = Some c}"
proof (induct hs arbitrary: rc)
  case (Cons host hs)
  let ?rc1 = "maybeRenew ex uni cd shouldRenew order (fst (ios host)) (snd (ios host)) host rc"
  have "getCertificateFor h ?rc1 \<in> insert (getCertificateFor h rc) {Some c | c certPEM keyPEM. X509KeyPair cd certPEM keyPEM = Some c}"
    using spec [OF maybeRenew_better [of cd host rc ex uni shouldRenew order "fst (ios host)" "snd (ios host)", unfolded better_cert_def], of h]
    by (auto simp: getCertificateFor_def)
  then show ?case using insert_trans [OF _ Cons [of ?rc1]] unfolding fold_simps(2) by blast
qed simp

text \<open>
  No turn of the renewal loop takes a certificate away: whatever fails on the way (the shared store, the disk, the lock, the
  order, a broken bundle), every host still serves the certificate it had, or one whose private key fits it.
\<close>

lemma reserved_turn_keeps_serving:
  "getCertificateFor h (snd (reserved_turn ex uni cd shouldRenew order ios renewEvery degradedEvery rc)) = getCertificateFor h rc
   \<or> (\<exists>c certPEM keyPEM. X509KeyPair cd certPEM keyPEM = Some c
        \<and> getCertificateFor h (snd (reserved_turn ex uni cd shouldRenew order ios renewEvery degradedEvery rc)) = Some c)"
  using fold_renew_keeps [of h ex uni cd shouldRenew order ios "map fst (rc_hosts rc)" rc] by (auto simp: reserved_turn_def Let_def)

subsection \<open>One order serves every replica\<close>

lemma read_bundle_published:
  assumes "unmarshalBundle cd raw = Some b" "X509KeyPair cd (cb_CertPEM b) (cb_KeyPEM b) = Some c" "ci_NotAfter (cb_Info b) \<noteq> - zero_time"
  shows "read_bundle cd raw = Some (c, b)"
  using assms by (simp add: read_bundle_def info_with_expiry_def)

lemma adoptShared_found:
  assumes "SelfCert ex uni host (rc_vk rc) = (Inr (Some raw), s)" "read_bundle cd raw = Some (c, b)" "adoptable now host (cb_Info b) rc"
  shows "snd (adoptShared ex uni cd shouldRenew now written False host rc) =
    persist cd written host (cb_CertPEM b) (cb_KeyPEM b) (cb_Info b) (store_cert host c (cb_Info b) (rc\<lparr>rc_vk := s\<rparr>))"
  using assms by (simp add: adoptShared_def)


text \<open>A codec over the memory store: a bundle's text is its certificate, and only one bundle is known.\<close>

definition demo_info :: CertInfo where
  "demo_info = \<lparr>ci_CA = ''le'', ci_Serial = ''1'', ci_NotBefore = 0, ci_NotAfter = 2160 * Hour, ci_ARIID = []\<rparr>"

definition demo_bundle :: certBundle where
  "demo_bundle = \<lparr>cb_CertPEM = ''cert'', cb_KeyPEM = ''key'', cb_Info = demo_info\<rparr>"

definition demo_codec :: "string codec" where
  "demo_codec = \<lparr>X509KeyPair = (\<lambda>c k. if k = ''key'' then Some c else None), leafNotAfter = (\<lambda>_. None),
     marshalBundle = (\<lambda>b. if b = demo_bundle then Some ''bundle'' else None),
     unmarshalBundle = (\<lambda>raw. if raw = ''bundle'' then Some demo_bundle else None), unmarshalInfo = (\<lambda>_. None)\<rparr>"

definition demo_replica :: "vstate \<Rightarrow> (string, vstate) reservedCerts" where
  "demo_replica s = newReservedCerts [''tunnel.test''] (\<lambda>_. \<lparr>hf_bundle = Absent, hf_cert = Absent, hf_key = Absent, hf_meta = Absent\<rparr>) s"

definition demo_self_io :: issue_self_io where
  "demo_self_io = \<lparr>ii_polls = [], ii_stopped = False, ii_stopped_after = False, ii_timed_out = False, ii_now_adopt = 0,
     ii_now_publish = 0, ii_written = True, ii_written2 = True\<rparr>"


end
