(* ===== verification/Go_Float.thy ===== *)
theory Go_Float
  imports Complex_Main "HOL-Library.Log_Nat"
begin

text \<open>
  Go's \<^verbatim>\<open>float64\<close>: a finite value is the rational number it stands for, and an operation is the exact result rounded to 53
  significant bits, ties to even. The sources compute with budgets, that is with token counts and quotients of
  durations, whose exponents stay far from the limits of the format; so the exponent has no bounds here.
\<close>

text \<open>The binary exponent: the largest \<open>e\<close> with \<open>2 powi e \<le> x\<close>, for a positive \<open>x\<close>.\<close>

definition f64_exp :: "rat \<Rightarrow> int" where
  "f64_exp x = (if 1 \<le> x then bitlen \<lfloor>x\<rfloor> - 1 else - bitlen (\<lceil>inverse x\<rceil> - 1))"

definition round_even :: "rat \<Rightarrow> int" where
  "round_even x =
     (let n = \<lfloor>x\<rfloor>; f = x - of_int n
      in if f < 1 / 2 then n else if 1 / 2 < f then n + 1 else if even n then n else n + 1)"

definition f64_pos :: "rat \<Rightarrow> rat" where
  "f64_pos x = of_int (round_even (x * 2 powi (52 - f64_exp x))) * 2 powi (f64_exp x - 52)"

definition f64 :: "rat \<Rightarrow> rat" where
  "f64 x = (if x = 0 then 0 else if 0 < x then f64_pos x else - f64_pos (- x))"

text \<open>The values the format has.\<close>

definition is_f64 :: "rat \<Rightarrow> bool" where
  "is_f64 x \<longleftrightarrow> (\<exists>m k. x = of_int m * 2 powi k \<and> \<bar>m\<bar> \<le> 2 ^ 53)"

subsection \<open>Rounding\<close>

lemma round_even_mono: "x \<le> y \<Longrightarrow> round_even x \<le> round_even y"
proof -
  assume le: "x \<le> y"
  then have f: "\<lfloor>x\<rfloor> \<le> \<lfloor>y\<rfloor>" by (rule floor_mono)
  show ?thesis
  proof (cases "\<lfloor>x\<rfloor> = \<lfloor>y\<rfloor>")
    case True
    then show ?thesis using le by (auto simp: round_even_def Let_def)
  next
    case False
    then have "\<lfloor>x\<rfloor> + 1 \<le> \<lfloor>y\<rfloor>" using f by simp
    then show ?thesis by (auto simp: round_even_def Let_def)
  qed
qed

lemma round_even_of_int [simp]: "round_even (of_int n) = n"
  by (simp add: round_even_def)

lemma powi_le: "(2 :: rat) powi a \<le> 2 powi b \<longleftrightarrow> a \<le> b"
proof (cases "a \<le> b")
  case True
  then show ?thesis using power_int_increasing [of a b "2 :: rat"] by simp
next
  case False
  then have "b < a" by simp
  then have "(2 :: rat) powi b < 2 powi a" by (rule power_int_strict_increasing) simp
  then show ?thesis using False by simp
qed

text \<open>The bit length of a positive integer, over the rationals.\<close>

lemma bitlen_rat:
  assumes "0 < n"
  shows "(2 :: rat) powi (bitlen n - 1) \<le> of_int n" "(of_int n :: rat) + 1 \<le> 2 powi bitlen n"
proof -
  have p: "0 < bitlen n" using assms bitlen_nonneg [of n] bitlen_eq_zero_iff [of n] by linarith
  have e: "(2 :: rat) powi (bitlen n - 1) = of_int (2 ^ nat (bitlen n - 1))" "(2 :: rat) powi bitlen n = of_int (2 ^ nat (bitlen n))"
    using p by (simp_all add: power_int_def)
  have b: "2 ^ nat (bitlen n - 1) \<le> n" "n + 1 \<le> 2 ^ nat (bitlen n)" using bitlen_bounds [OF assms] by auto
  show "(2 :: rat) powi (bitlen n - 1) \<le> of_int n" unfolding e using b(1) by (simp only: of_int_le_iff)
  have "(of_int (n + 1) :: rat) \<le> of_int (2 ^ nat (bitlen n))" using b(2) by (simp only: of_int_le_iff)
  then show "(of_int n :: rat) + 1 \<le> 2 powi bitlen n" unfolding e by simp
qed

lemma f64_exp_bounds:
  assumes "0 < x"
  shows "2 powi f64_exp x \<le> x" "x < 2 powi (f64_exp x + 1)"
proof -
  have "2 powi f64_exp x \<le> x \<and> x < 2 powi (f64_exp x + 1)"
  proof (cases "1 \<le> x")
    case True
    then have n: "0 < \<lfloor>x\<rfloor>" by simp
    have "x < of_int \<lfloor>x\<rfloor> + 1" "of_int \<lfloor>x\<rfloor> \<le> x" by linarith+
    moreover have "f64_exp x = bitlen \<lfloor>x\<rfloor> - 1" using True by (simp add: f64_exp_def)
    ultimately show ?thesis using bitlen_rat [OF n] by (simp only: diff_add_cancel) linarith
  next
    case False
    let ?n = "\<lceil>inverse x\<rceil> - 1"
    have y: "1 < inverse x" using False assms by (simp add: one_less_inverse_iff)
    then have n: "0 < ?n" by (simp add: less_ceiling_iff)
    have lo: "2 powi (bitlen ?n - 1) < inverse x" using bitlen_rat(1) [OF n] by linarith
    have up: "inverse x \<le> 2 powi bitlen ?n" using bitlen_rat(2) [OF n] by linarith
    have "inverse (2 powi bitlen ?n) \<le> x" using le_imp_inverse_le [OF up] assms by simp
    moreover have "x < inverse (2 powi (bitlen ?n - 1))" using less_imp_inverse_less [OF lo] by simp
    ultimately show ?thesis using False by (simp add: f64_exp_def power_int_minus [symmetric] algebra_simps)
  qed
  then show "2 powi f64_exp x \<le> x" "x < 2 powi (f64_exp x + 1)" by auto
qed

lemma scaled_bounds:
  assumes "0 < x"
  shows "(2 :: rat) ^ 52 \<le> x * 2 powi (52 - f64_exp x)" "x * 2 powi (52 - f64_exp x) \<le> 2 ^ 53"
proof -
  have "2 powi f64_exp x * 2 powi (52 - f64_exp x) = (2 :: rat) ^ 52"
    by (simp add: power_int_add [symmetric])
  then show "(2 :: rat) ^ 52 \<le> x * 2 powi (52 - f64_exp x)"
    using mult_right_mono [OF f64_exp_bounds(1) [OF assms], of "2 powi (52 - f64_exp x)"] by simp
  have "2 powi (f64_exp x + 1) * 2 powi (52 - f64_exp x) = (2 :: rat) ^ 53"
    by (simp add: power_int_add [symmetric])
  then show "x * 2 powi (52 - f64_exp x) \<le> 2 ^ 53"
    using mult_right_mono [OF order_less_imp_le [OF f64_exp_bounds(2) [OF assms]], of "2 powi (52 - f64_exp x)"] by simp
qed

lemma rounded_bounds:
  assumes "0 < x"
  shows "2 ^ 52 \<le> round_even (x * 2 powi (52 - f64_exp x))" "round_even (x * 2 powi (52 - f64_exp x)) \<le> 2 ^ 53"
  using round_even_mono [OF scaled_bounds(1) [OF assms]] round_even_mono [OF scaled_bounds(2) [OF assms]]
    round_even_of_int [of "2 ^ 52"] round_even_of_int [of "2 ^ 53"] by simp_all

lemma f64_pos_bounds:
  assumes "0 < x"
  shows "2 powi f64_exp x \<le> f64_pos x" "f64_pos x \<le> 2 powi (f64_exp x + 1)"
proof -
  let ?r = "round_even (x * 2 powi (52 - f64_exp x))" and ?u = "(2 :: rat) powi (f64_exp x - 52)"
  have u: "0 \<le> ?u" by simp
  have "(2 :: rat) ^ 52 \<le> of_int ?r" "(of_int ?r :: rat) \<le> 2 ^ 53"
    using rounded_bounds [OF assms] by (metis of_int_le_iff of_int_numeral of_int_power)+
  then have "2 ^ 52 * ?u \<le> f64_pos x" "f64_pos x \<le> 2 ^ 53 * ?u"
    unfolding f64_pos_def by (auto intro: mult_right_mono [OF _ u])
  moreover have "2 ^ 52 * ?u = 2 powi f64_exp x" "2 ^ 53 * ?u = 2 powi (f64_exp x + 1)"
    by (simp_all add: power_int_diff power_int_add)
  ultimately show "2 powi f64_exp x \<le> f64_pos x" "f64_pos x \<le> 2 powi (f64_exp x + 1)" by simp_all
qed

lemma f64_pos_positive: "0 < x \<Longrightarrow> 0 < f64_pos x"
  using f64_pos_bounds(1) [of x] by (meson less_le_trans zero_less_numeral zero_less_power_int)

lemma f64_exp_mono:
  assumes "0 < x" "x \<le> y"
  shows "f64_exp x \<le> f64_exp y"
proof -
  have "0 < y" using assms by simp
  have "(2 :: rat) powi f64_exp x < 2 powi (f64_exp y + 1)"
    using f64_exp_bounds(1) [OF assms(1)] f64_exp_bounds(2) [OF \<open>0 < y\<close>] assms(2) by linarith
  then have "\<not> f64_exp y + 1 \<le> f64_exp x" using powi_le [of "f64_exp y + 1" "f64_exp x"] by simp
  then show ?thesis by simp
qed

lemma f64_pos_mono:
  assumes "0 < x" "x \<le> y"
  shows "f64_pos x \<le> f64_pos y"
proof (cases "f64_exp x = f64_exp y")
  case True
  have "round_even (x * 2 powi (52 - f64_exp y)) \<le> round_even (y * 2 powi (52 - f64_exp y))"
    by (rule round_even_mono) (use assms(2) in \<open>auto intro: mult_right_mono\<close>)
  then have "(of_int (round_even (x * 2 powi (52 - f64_exp y))) :: rat) \<le> of_int (round_even (y * 2 powi (52 - f64_exp y)))"
    by (simp only: of_int_le_iff)
  then show ?thesis unfolding f64_pos_def True by (rule mult_right_mono) simp
next
  case False
  then have "f64_exp x + 1 \<le> f64_exp y" using f64_exp_mono [OF assms] by simp
  then have "(2 :: rat) powi (f64_exp x + 1) \<le> 2 powi f64_exp y" by (rule power_int_increasing) simp_all
  then show ?thesis using f64_pos_bounds(2) [OF assms(1)] f64_pos_bounds(1) [of y] assms by linarith
qed

lemma f64_mono: "x \<le> y \<Longrightarrow> f64 x \<le> f64 y"
  using f64_pos_mono [of x y] f64_pos_mono [of "- y" "- x"] f64_pos_positive [of y] f64_pos_positive [of "- x"]
  by (auto simp: f64_def intro: order_trans [OF _ order_less_imp_le])

lemma f64_0 [simp]: "f64 0 = 0"
  by (simp add: f64_def)

lemma is_f64_f64: "is_f64 (f64 x)"
proof -
  have pos: "is_f64 (f64_pos y) \<and> is_f64 (- f64_pos y)" if "0 < y" for y
  proof -
    let ?r = "round_even (y * 2 powi (52 - f64_exp y))"
    have "\<bar>?r\<bar> \<le> 2 ^ 53" using rounded_bounds [OF that] by simp
    then have "f64_pos y = of_int ?r * 2 powi (f64_exp y - 52) \<and> \<bar>?r\<bar> \<le> 2 ^ 53"
      "- f64_pos y = of_int (- ?r) * 2 powi (f64_exp y - 52) \<and> \<bar>- ?r\<bar> \<le> 2 ^ 53" by (simp_all add: f64_pos_def)
    then show ?thesis unfolding is_f64_def by blast
  qed
  have "is_f64 0" unfolding is_f64_def by (intro exI [of _ 0]) simp
  then show ?thesis using pos [of x] pos [of "- x"] by (auto simp: f64_def)
qed

subsection \<open>Exact operations\<close>

lemma f64_pos_exact:
  assumes "0 < x" "x = of_int m * 2 powi k" "\<bar>m\<bar> \<le> 2 ^ 53"
  shows "f64_pos x = x"
proof -
  let ?e = "f64_exp x"
  have up: "x \<le> 2 powi (53 + k)"
  proof -
    have "(of_int m :: rat) \<le> 2 ^ 53" using assms(3) by (metis abs_le_D1 of_int_le_iff of_int_numeral of_int_power)
    then have "x \<le> 2 ^ 53 * 2 powi k" unfolding assms(2) by (rule mult_right_mono) simp
    then show ?thesis by (simp add: power_int_add)
  qed
  have "(2 :: rat) powi ?e \<le> 2 powi (53 + k)" using f64_exp_bounds(1) [OF assms(1)] up by linarith
  then have e: "?e \<le> 53 + k" by (simp only: powi_le)
  obtain n :: int where n: "x * 2 powi (52 - ?e) = of_int n"
  proof (cases "?e = 53 + k")
    case True
    then have "x = 2 powi ?e" using up f64_exp_bounds(1) [OF assms(1)] by simp
    then have "x * 2 powi (52 - ?e) = 2 powi ?e * 2 powi (52 - ?e)" by (rule arg_cong)
    also have "\<dots> = of_int (2 ^ 52)" by (simp add: power_int_add [symmetric])
    finally show ?thesis by (rule that)
  next
    case False
    then have "0 \<le> k + (52 - ?e)" using e by simp
    moreover have "x * 2 powi (52 - ?e) = of_int m * 2 powi (k + (52 - ?e))"
      using power_int_add [of "2 :: rat" k "52 - ?e"] arg_cong [OF assms(2), of "\<lambda>z. z * 2 powi (52 - ?e)"] by (simp only: mult.assoc) simp
    ultimately show ?thesis using that [of "m * 2 ^ nat (k + (52 - ?e))"] by (simp add: power_int_def)
  qed
  have "f64_pos x = x * (2 powi (52 - ?e) * 2 powi (?e - 52))" unfolding f64_pos_def n round_even_of_int by (simp add: n [symmetric])
  also have "2 powi (52 - ?e) * 2 powi (?e - 52) = (1 :: rat)" by (simp add: power_int_add [symmetric])
  finally show ?thesis by simp
qed

lemma f64_exact:
  assumes "is_f64 x"
  shows "f64 x = x"
proof -
  obtain m k where x: "x = of_int m * 2 powi k" "\<bar>m\<bar> \<le> 2 ^ 53" using assms by (auto simp: is_f64_def)
  have m: "- x = of_int (- m) * 2 powi k" "\<bar>- m\<bar> \<le> 2 ^ 53" using x by simp_all
  consider "x = 0" | "0 < x" | "0 < - x" by linarith
  then show ?thesis
  proof cases
    case 2
    then show ?thesis using f64_pos_exact [OF 2 x] by (simp add: f64_def)
  next
    case 3
    then show ?thesis using f64_pos_exact [OF 3 m] by (simp add: f64_def)
  qed simp
qed

lemma is_f64_int: "\<bar>n\<bar> \<le> 2 ^ 53 \<Longrightarrow> is_f64 (of_int n)"
  unfolding is_f64_def by (intro exI [of _ n] exI [of _ 0]) simp

text \<open>Taking a whole number from a larger value loses nothing.\<close>

lemma is_f64_diff_int:
  assumes "is_f64 x" "0 \<le> n" "of_int n \<le> x" "x \<le> 2 ^ 53"
  shows "is_f64 (x - of_int n)"
proof -
  obtain m k where x: "x = of_int m * 2 powi k" "\<bar>m\<bar> \<le> 2 ^ 53" using assms(1) by (auto simp: is_f64_def)
  show ?thesis
  proof (cases "0 \<le> k")
    case True
    then have i: "x = of_int (m * 2 ^ nat k)" using x(1) by (simp add: power_int_def)
    have "n \<le> m * 2 ^ nat k" using assms(3) unfolding i by (simp only: of_int_le_iff)
    moreover have "(of_int (m * 2 ^ nat k) :: rat) \<le> of_int (2 ^ 53)" using assms(4) unfolding i by simp
    then have "m * 2 ^ nat k \<le> 2 ^ 53" by (simp only: of_int_le_iff)
    ultimately have "\<bar>m * 2 ^ nat k - n\<bar> \<le> 2 ^ 53" using assms(2) by linarith
    then show ?thesis using is_f64_int [of "m * 2 ^ nat k - n"] unfolding i by simp
  next
    case False
    let ?j = "nat (- k)"
    have k: "(2 :: rat) powi k = inverse (2 ^ ?j)" using False by (simp add: power_int_def power_one_over inverse_eq_divide)
    have d: "x - of_int n = of_int (m - n * 2 ^ ?j) * 2 powi k" unfolding x(1) k by (simp add: algebra_simps)
    have "of_int n * 2 ^ ?j \<le> (of_int m :: rat)"
      using assms(3) unfolding x(1) k by (simp add: field_simps)
    then have "n * 2 ^ ?j \<le> m" by (metis of_int_le_iff of_int_mult of_int_numeral of_int_power)
    moreover have "0 \<le> n * 2 ^ ?j" using assms(2) by simp
    ultimately have "\<bar>m - n * 2 ^ ?j\<bar> \<le> 2 ^ 53" using x(2) by linarith
    then show ?thesis unfolding is_f64_def d by blast
  qed
qed

lemma f64_diff_int: "is_f64 x \<Longrightarrow> 0 \<le> n \<Longrightarrow> of_int n \<le> x \<Longrightarrow> x \<le> 2 ^ 53 \<Longrightarrow> f64 (x - of_int n) = x - of_int n"
  by (rule f64_exact [OF is_f64_diff_int])

end
