(* ===== verification/Acme_Budget.thy ===== *)
theory Acme_Budget
  imports Limiter Go_Float
begin

text \<open>
  The token buckets all replicas share against the rate limits of the certificate authorities (\<^verbatim>\<open>src/internal/limit/acme_budget.go\<close>).
  A bucket is a hash with a token count and the time of that count; orders in progress are members of one sorted set per
  bucket and node, scored with their deadline. Token counts are \<^verbatim>\<open>float64\<close>, so every operation rounds (\<open>f64\<close>). The text form
  of a \<^verbatim>\<open>float64\<close> is an argument; of it the code needs that reading gives back what was written. The clock is the
  argument \<open>now\<close>, read after the lock is taken.
\<close>

record float_text =
  FormatFloat :: "rat \<Rightarrow> string"
  ParseFloat :: "string \<Rightarrow> rat option"

record Rate =
  rt_Count :: int
  rt_Period :: duration
  rt_Burst :: int

record Bucket =
  bk_Key :: string
  bk_Capacity :: rat
  bk_Refill :: duration

definition float64 :: "int \<Rightarrow> rat" where "float64 n = f64 (of_int n)"

text \<open>Conversion of a \<^verbatim>\<open>float64\<close> to an integer type drops the fraction.\<close>

definition trunc :: "rat \<Rightarrow> int" where "trunc x = (if 0 \<le> x then \<lfloor>x\<rfloor> else \<lceil>x\<rceil>)"

definition Rate_Bucket :: "Rate \<Rightarrow> string \<Rightarrow> Bucket" where
  "Rate_Bucket r k =
     \<lparr>bk_Key = k, bk_Capacity = float64 (rt_Burst r), bk_Refill = (if rt_Count r > 0 then go_div (rt_Period r) (rt_Count r) else rt_Period r)\<rparr>"

definition budgetLockTTL :: duration where "budgetLockTTL = 2 * Second"
definition budgetLockTries :: nat where "budgetLockTries = 100"
definition budgetKeyMargin :: duration where "budgetKeyMargin = Hour"
definition inflightKeyMargin :: duration where "inflightKeyMargin = Minute"

datatype budget_err = BudgetValkey verr | ErrBudgetLockContended | BudgetCtxDone

definition budgetKey :: "Bucket \<Rightarrow> vkey" where "budgetKey b = ''acme-budget:'' @ bk_Key b"
definition inflightKey :: "Bucket \<Rightarrow> string \<Rightarrow> vkey" where "inflightKey b node = ''acme:inflight:'' @ bk_Key b @ '':'' @ node"
definition budgetLockKey :: "string \<Rightarrow> vkey" where "budgetLockKey ca = ''lock:acme-budget:'' @ ca"

record bucketState =
  st_tokens :: rat
  st_at :: int

definition tokensAt :: "Bucket \<Rightarrow> bucketState \<Rightarrow> int \<Rightarrow> rat" where
  "tokensAt b s now =
     (if now < st_at s \<or> bk_Refill b \<le> 0 then st_tokens s
      else min (bk_Capacity b) (f64 (st_tokens s + f64 (float64 (now - st_at s) / float64 (bk_Refill b)))))"

definition waitFor :: "Bucket \<Rightarrow> bucketState \<Rightarrow> int \<Rightarrow> rat \<Rightarrow> duration" where
  "waitFor b s now need =
     (if need > bk_Capacity b then bk_Refill b
      else if now < st_at s then st_at s - now + trunc (f64 (f64 (need - st_tokens s) * float64 (bk_Refill b)))
      else trunc (f64 (f64 (need - tokensAt b s now) * float64 (bk_Refill b))))"

definition spendN :: "Bucket \<Rightarrow> bucketState \<Rightarrow> int \<Rightarrow> rat \<Rightarrow> bucketState" where
  "spendN b s now n =
     (if now < st_at s then \<lparr>st_tokens = f64 (st_tokens s - n), st_at = st_at s\<rparr>
      else \<lparr>st_tokens = f64 (tokensAt b s now - n), st_at = now\<rparr>)"

definition spend :: "Bucket \<Rightarrow> bucketState \<Rightarrow> int \<Rightarrow> bucketState" where
  "spend b s now = spendN b s now 1"

subsection \<open>The lock of a certificate authority's budgets\<close>

definition releaseBudgetLock :: "'s client \<Rightarrow> string \<Rightarrow> string \<Rightarrow> 's \<Rightarrow> 's" where
  "releaseBudgetLock ex ca token s =
     (case do1 ex (GET (budgetLockKey ca)) s of
        (Inr (RStr v), s1) \<Rightarrow> if v \<noteq> token then s1 else snd (do1 ex (DEL (budgetLockKey ca)) s1)
      | (_, s1) \<Rightarrow> s1)"

text \<open>\<open>cancelled n\<close>: the caller's context ends during the pause with \<open>n\<close> tries left.\<close>

fun budget_lock_loop ::
  "'s client \<Rightarrow> string \<Rightarrow> (nat \<Rightarrow> bool) \<Rightarrow> string \<Rightarrow> ('s \<Rightarrow> (budget_err + 'a) \<times> 's) \<Rightarrow> nat \<Rightarrow> 's \<Rightarrow> (budget_err + 'a) \<times> 's" where
  "budget_lock_loop ex token cancelled ca fn 0 s = (Inl ErrBudgetLockContended, s)"
| "budget_lock_loop ex token cancelled ca fn (Suc n) s =
     (case do1 ex (SETNX (budgetLockKey ca) token budgetLockTTL) s of
        (Inl e, s1) \<Rightarrow> (Inl (BudgetValkey e), s1)
      | (Inr (RBool ok), s1) \<Rightarrow>
          if ok then (let (r, s2) = fn s1 in (r, releaseBudgetLock ex ca token s2))
          else if cancelled n then (Inl BudgetCtxDone, s1)
          else budget_lock_loop ex token cancelled ca fn n s1
      | (Inr _, s1) \<Rightarrow> (Inl (BudgetValkey (VErr ''reply'')), s1))"

definition withBudgetLock ::
  "'s client \<Rightarrow> string \<Rightarrow> (nat \<Rightarrow> bool) \<Rightarrow> string \<Rightarrow> ('s \<Rightarrow> (budget_err + 'a) \<times> 's) \<Rightarrow> 's \<Rightarrow> (budget_err + 'a) \<times> 's" where
  "withBudgetLock ex token cancelled ca fn s = budget_lock_loop ex token cancelled ca fn budgetLockTries s"

text \<open>What a locked operation is given besides its arguments: the lock token, the caller's context and the clock.\<close>

record lock_io =
  li_token :: string
  li_cancelled :: "nat \<Rightarrow> bool"
  li_now :: int

subsection \<open>Reading and writing\<close>

definition full_bucket :: "Bucket \<Rightarrow> int \<Rightarrow> bucketState" where
  "full_bucket b now = \<lparr>st_tokens = bk_Capacity b, st_at = now\<rparr>"

definition parseBucket :: "float_text \<Rightarrow> Bucket \<Rightarrow> reply \<Rightarrow> int \<Rightarrow> bucketState" where
  "parseBucket ft b vals now =
     (case vals of
        RVals [Some ts, Some as] \<Rightarrow>
          (case (ParseFloat ft ts, parse_int as) of
             (Some t, Some ms) \<Rightarrow> \<lparr>st_tokens = t, st_at = ms * Millisecond\<rparr>
           | _ \<Rightarrow> full_bucket b now)
      | _ \<Rightarrow> full_bucket b now)"

definition read_cmds :: "Bucket list \<Rightarrow> cmd list" where
  "read_cmds bs = map (\<lambda>b. HMGET (budgetKey b) [''t'', ''at'']) bs"

definition readBuckets ::
  "'s client \<Rightarrow> float_text \<Rightarrow> Bucket list \<Rightarrow> int \<Rightarrow> 's \<Rightarrow> (budget_err + bucketState list) \<times> 's" where
  "readBuckets ex ft bs now s =
     (case ex (read_cmds bs) s of
        (Inl e, s1) \<Rightarrow> (Inl (BudgetValkey e), s1)
      | (Inr rs, s1) \<Rightarrow> (Inr (map2 (\<lambda>b r. parseBucket ft b r now) bs rs), s1))"

definition bucket_ttl :: "Bucket \<Rightarrow> bucketState \<Rightarrow> int \<Rightarrow> duration" where
  "bucket_ttl b s now =
     trunc (f64 (f64 (bk_Capacity b - min (st_tokens s) (bk_Capacity b)) * float64 (bk_Refill b))) + budgetKeyMargin
     + (if st_at s > now then st_at s - now else 0)"

definition writeBucket :: "float_text \<Rightarrow> Bucket \<Rightarrow> bucketState \<Rightarrow> int \<Rightarrow> cmd list" where
  "writeBucket ft b s now =
     [HSET (budgetKey b) [(''t'', FormatFloat ft (st_tokens s)), (''at'', itoa (UnixMilli (st_at s)))],
      PEXPIRE (budgetKey b) (bucket_ttl b s now)]"

definition inflight_cmds :: "Bucket list \<Rightarrow> string list \<Rightarrow> int \<Rightarrow> cmd list" where
  "inflight_cmds bs live_nodes now =
     concat (map (\<lambda>b. concat (map (\<lambda>node. [ZREMRANGE_UPTO (inflightKey b node) (UnixMilli now), ZCARD (inflightKey b node)]) live_nodes)) bs)"

fun sum_cards :: "nat \<Rightarrow> reply list \<Rightarrow> int" where
  "sum_cards (Suc m) (_ # RInt c # rs) = c + sum_cards m rs"
| "sum_cards _ _ = 0"

fun bucket_cards :: "nat \<Rightarrow> nat \<Rightarrow> reply list \<Rightarrow> int list" where
  "bucket_cards 0 m rs = []"
| "bucket_cards (Suc n) m rs = sum_cards m rs # bucket_cards n m (drop (2 * m) rs)"

definition inflightCounts ::
  "'s client \<Rightarrow> Bucket list \<Rightarrow> string list \<Rightarrow> int \<Rightarrow> 's \<Rightarrow> (budget_err + int list) \<times> 's" where
  "inflightCounts ex bs live_nodes now s =
     (if live_nodes = [] then (Inr (map (\<lambda>_. 0) bs), s)
      else case ex (inflight_cmds bs live_nodes now) s of
        (Inl e, s1) \<Rightarrow> (Inl (BudgetValkey e), s1)
      | (Inr rs, s1) \<Rightarrow> (Inr (bucket_cards (length bs) (length live_nodes) rs), s1))"

subsection \<open>Orders\<close>

text \<open>The longest wait over the buckets with less than one token besides those held; none is zero.\<close>

definition reserve_wait :: "Bucket list \<Rightarrow> bucketState list \<Rightarrow> int list \<Rightarrow> int \<Rightarrow> duration" where
  "reserve_wait bs states held now =
     fold (\<lambda>(b, st, h) wait.
        if f64 (tokensAt b st now - float64 h) < 1 then max (max wait (waitFor b st now (f64 (float64 h + 1)))) Second else wait)
       (zip bs (zip states held)) 0"

definition reserve_cmds :: "Bucket list \<Rightarrow> string \<Rightarrow> string \<Rightarrow> int \<Rightarrow> int \<Rightarrow> cmd list" where
  "reserve_cmds bs node member deadline now =
     concat (map (\<lambda>b. [ZADD (inflightKey b node) member (UnixMilli deadline),
                       EXPIRE_NX (inflightKey b node) (deadline - now + inflightKeyMargin),
                       EXPIRE_GT (inflightKey b node) (deadline - now + inflightKeyMargin)]) bs)"

definition run_cmds :: "'s client \<Rightarrow> cmd list \<Rightarrow> 'a \<Rightarrow> 's \<Rightarrow> (budget_err + 'a) \<times> 's" where
  "run_cmds ex cs x s = (case ex cs s of (Inl e, s1) \<Rightarrow> (Inl (BudgetValkey e), s1) | (Inr _, s1) \<Rightarrow> (Inr x, s1))"

definition reserve_section ::
  "'s client \<Rightarrow> float_text \<Rightarrow> Bucket list \<Rightarrow> string \<Rightarrow> string \<Rightarrow> int \<Rightarrow> string list \<Rightarrow> int \<Rightarrow> 's
   \<Rightarrow> (budget_err + bool \<times> duration) \<times> 's" where
  "reserve_section ex ft bs node member deadline live_nodes now s =
     (case readBuckets ex ft bs now s of
        (Inl e, s1) \<Rightarrow> (Inl e, s1)
      | (Inr states, s1) \<Rightarrow>
          (case inflightCounts ex bs live_nodes now s1 of
             (Inl e, s2) \<Rightarrow> (Inl e, s2)
           | (Inr held, s2) \<Rightarrow>
               (let wait = reserve_wait bs states held now in
                if wait > 0 then (Inr (False, wait), s2)
                else run_cmds ex (reserve_cmds bs node member deadline now) (True, 0) s2)))"

definition ReserveACME ::
  "'s client \<Rightarrow> float_text \<Rightarrow> lock_io \<Rightarrow> string \<Rightarrow> Bucket list \<Rightarrow> string \<Rightarrow> string \<Rightarrow> int \<Rightarrow> string list \<Rightarrow> 's
   \<Rightarrow> (budget_err + bool \<times> duration) \<times> 's" where
  "ReserveACME ex ft io ca bs node member deadline live_nodes s =
     (if bs = [] then (Inr (True, 0), s)
      else withBudgetLock ex (li_token io) (li_cancelled io) ca
             (reserve_section ex ft bs node member deadline live_nodes (li_now io)) s)"

definition commit_section ::
  "'s client \<Rightarrow> float_text \<Rightarrow> Bucket \<Rightarrow> string \<Rightarrow> string \<Rightarrow> int \<Rightarrow> 's \<Rightarrow> (budget_err + unit) \<times> 's" where
  "commit_section ex ft b node member now s =
     (case readBuckets ex ft [b] now s of
        (Inr [st], s1) \<Rightarrow> run_cmds ex (writeBucket ft b (spend b st now) now @ [ZREM (inflightKey b node) member]) () s1
      | (Inr _, s1) \<Rightarrow> (Inl (BudgetValkey (VErr ''reply'')), s1)
      | (Inl e, s1) \<Rightarrow> (Inl e, s1))"

definition CommitACME ::
  "'s client \<Rightarrow> float_text \<Rightarrow> lock_io \<Rightarrow> string \<Rightarrow> Bucket \<Rightarrow> string \<Rightarrow> string \<Rightarrow> 's \<Rightarrow> (budget_err + unit) \<times> 's" where
  "CommitACME ex ft io ca b node member s =
     withBudgetLock ex (li_token io) (li_cancelled io) ca (commit_section ex ft b node member (li_now io)) s"

definition ReleaseACME :: "'s client \<Rightarrow> Bucket list \<Rightarrow> string \<Rightarrow> string \<Rightarrow> 's \<Rightarrow> (budget_err + unit) \<times> 's" where
  "ReleaseACME ex bs node member s =
     (if bs = [] then (Inr (), s) else run_cmds ex (map (\<lambda>b. ZREM (inflightKey b node) member) bs) () s)"

subsection \<open>Requests\<close>

definition take_wait :: "Bucket list \<Rightarrow> bucketState list \<Rightarrow> int \<Rightarrow> duration" where
  "take_wait bs states now =
     fold (\<lambda>(b, st) wait. if tokensAt b st now < 1 then max (max wait (waitFor b st now 1)) Millisecond else wait) (zip bs states) 0"

definition take_section :: "'s client \<Rightarrow> float_text \<Rightarrow> Bucket list \<Rightarrow> int \<Rightarrow> 's \<Rightarrow> (budget_err + duration) \<times> 's" where
  "take_section ex ft bs now s =
     (case readBuckets ex ft bs now s of
        (Inl e, s1) \<Rightarrow> (Inl e, s1)
      | (Inr states, s1) \<Rightarrow>
          (let wait = take_wait bs states now in
           if wait > 0 then (Inr wait, s1)
           else run_cmds ex (concat (map2 (\<lambda>b st. writeBucket ft b (spend b st now) now) bs states)) 0 s1))"

definition TakeACME :: "'s client \<Rightarrow> float_text \<Rightarrow> lock_io \<Rightarrow> string \<Rightarrow> Bucket list \<Rightarrow> 's \<Rightarrow> (budget_err + duration) \<times> 's" where
  "TakeACME ex ft io ca bs s =
     (if bs = [] then (Inr 0, s)
      else withBudgetLock ex (li_token io) (li_cancelled io) ca (take_section ex ft bs (li_now io)) s)"

definition prepay_section :: "'s client \<Rightarrow> float_text \<Rightarrow> Bucket \<Rightarrow> int \<Rightarrow> int \<Rightarrow> 's \<Rightarrow> (budget_err + duration) \<times> 's" where
  "prepay_section ex ft b n now s =
     (case readBuckets ex ft [b] now s of
        (Inr [st], s1) \<Rightarrow>
          if tokensAt b st now < float64 n then (Inr (max (waitFor b st now (float64 n)) Millisecond), s1)
          else run_cmds ex (writeBucket ft b (spendN b st now (float64 n)) now) 0 s1
      | (Inr _, s1) \<Rightarrow> (Inl (BudgetValkey (VErr ''reply'')), s1)
      | (Inl e, s1) \<Rightarrow> (Inl e, s1))"

text \<open>\<^verbatim>\<open>PrepayACME\<close> returns the tokens taken and the wait.\<close>

definition PrepayACME ::
  "'s client \<Rightarrow> float_text \<Rightarrow> lock_io \<Rightarrow> string \<Rightarrow> Bucket \<Rightarrow> int \<Rightarrow> 's \<Rightarrow> (budget_err + int \<times> duration) \<times> 's" where
  "PrepayACME ex ft io ca b n s =
     (let n = min n (trunc (bk_Capacity b)) in
      if n \<le> 0 then (Inr (0, 0), s)
      else case withBudgetLock ex (li_token io) (li_cancelled io) ca (prepay_section ex ft b n (li_now io)) s of
        (Inl e, s1) \<Rightarrow> (Inl e, s1)
      | (Inr wait, s1) \<Rightarrow> (Inr (if wait > 0 then (0, wait) else (n, 0)), s1))"

definition refund_section :: "'s client \<Rightarrow> float_text \<Rightarrow> Bucket \<Rightarrow> int \<Rightarrow> int \<Rightarrow> 's \<Rightarrow> (budget_err + unit) \<times> 's" where
  "refund_section ex ft b n now s =
     (case readBuckets ex ft [b] now s of
        (Inr [st], s1) \<Rightarrow>
          if now < st_at st then (Inr (), s1)
          else run_cmds ex (writeBucket ft b \<lparr>st_tokens = min (bk_Capacity b) (f64 (tokensAt b st now + float64 n)), st_at = now\<rparr> now) () s1
      | (Inr _, s1) \<Rightarrow> (Inl (BudgetValkey (VErr ''reply'')), s1)
      | (Inl e, s1) \<Rightarrow> (Inl e, s1))"

definition RefundACME ::
  "'s client \<Rightarrow> float_text \<Rightarrow> lock_io \<Rightarrow> string \<Rightarrow> Bucket \<Rightarrow> int \<Rightarrow> 's \<Rightarrow> (budget_err + unit) \<times> 's" where
  "RefundACME ex ft io ca b n s =
     (if n \<le> 0 then (Inr (), s)
      else withBudgetLock ex (li_token io) (li_cancelled io) ca (refund_section ex ft b n (li_now io)) s)"

definition resync_section :: "'s client \<Rightarrow> float_text \<Rightarrow> Bucket list \<Rightarrow> duration \<Rightarrow> int \<Rightarrow> 's \<Rightarrow> (budget_err + unit) \<times> 's" where
  "resync_section ex ft bs retryAfter now s =
     run_cmds ex (concat (map (\<lambda>b. writeBucket ft b \<lparr>st_tokens = 0, st_at = now + (retryAfter - bk_Refill b)\<rparr> now) bs)) () s"

definition ResyncACME ::
  "'s client \<Rightarrow> float_text \<Rightarrow> lock_io \<Rightarrow> string \<Rightarrow> Bucket list \<Rightarrow> duration \<Rightarrow> 's \<Rightarrow> (budget_err + unit) \<times> 's" where
  "ResyncACME ex ft io ca bs retryAfter s =
     (if bs = [] then (Inr (), s)
      else withBudgetLock ex (li_token io) (li_cancelled io) ca (resync_section ex ft bs retryAfter (li_now io)) s)"

definition ACMEBudgetLevel ::
  "'s client \<Rightarrow> float_text \<Rightarrow> Bucket \<Rightarrow> string list \<Rightarrow> int \<Rightarrow> 's \<Rightarrow> (budget_err + rat) \<times> 's" where
  "ACMEBudgetLevel ex ft b live_nodes now s =
     (if bk_Capacity b \<le> 0 then (Inr 0, s)
      else case readBuckets ex ft [b] now s of
        (Inr [st], s1) \<Rightarrow>
          (case inflightCounts ex [b] live_nodes now s1 of
             (Inr [held], s2) \<Rightarrow> (Inr (max 0 (min 1 (f64 (f64 (tokensAt b st now - float64 held) / bk_Capacity b)))), s2)
           | (Inr _, s2) \<Rightarrow> (Inl (BudgetValkey (VErr ''reply'')), s2)
           | (Inl e, s2) \<Rightarrow> (Inl e, s2))
      | (Inr _, s1) \<Rightarrow> (Inl (BudgetValkey (VErr ''reply'')), s1)
      | (Inl e, s1) \<Rightarrow> (Inl e, s1))"


subsection \<open>Token counts stay between empty and full\<close>

definition wf_bucket :: "Bucket \<Rightarrow> bool" where
  "wf_bucket b \<longleftrightarrow> (\<exists>n. bk_Capacity b = of_int n \<and> 0 \<le> n \<and> n \<le> 2 ^ 53)"

definition sane_tokens :: "Bucket \<Rightarrow> rat \<Rightarrow> bool" where
  "sane_tokens b x \<longleftrightarrow> is_f64 x \<and> 0 \<le> x \<and> x \<le> bk_Capacity b"

lemma float64_exact: "\<bar>n\<bar> \<le> 2 ^ 53 \<Longrightarrow> float64 n = of_int n"
  unfolding float64_def by (rule f64_exact [OF is_f64_int])

lemma float64_mono: "m \<le> n \<Longrightarrow> float64 m \<le> float64 n"
  unfolding float64_def by (rule f64_mono) simp

lemma float64_0 [simp]: "float64 0 = 0"
  by (simp add: float64_def)

lemma wf_capacity: "wf_bucket b \<Longrightarrow> is_f64 (bk_Capacity b) \<and> 0 \<le> bk_Capacity b \<and> bk_Capacity b \<le> 2 ^ 53"
proof -
  assume "wf_bucket b"
  then obtain n where n: "bk_Capacity b = of_int n" "0 \<le> n" "n \<le> 2 ^ 53" by (auto simp: wf_bucket_def)
  have "(of_int n :: rat) \<le> of_int (2 ^ 53)" using n(3) by (simp only: of_int_le_iff)
  then show ?thesis using n is_f64_int [of n] by simp
qed

lemma Rate_Bucket_wf: "0 \<le> rt_Burst r \<Longrightarrow> rt_Burst r \<le> 2 ^ 53 \<Longrightarrow> wf_bucket (Rate_Bucket r k)"
  by (auto simp: wf_bucket_def Rate_Bucket_def float64_exact)

lemma full_sane: "wf_bucket b \<Longrightarrow> sane_tokens b (st_tokens (full_bucket b now))"
  using wf_capacity [of b] by (simp add: sane_tokens_def full_bucket_def)

lemma f64_add_nonneg: "is_f64 x \<Longrightarrow> 0 \<le> y \<Longrightarrow> x \<le> f64 (x + y)"
  using f64_mono [of x "x + y"] f64_exact [of x] by simp

lemma refill_nonneg: "st_at s \<le> now \<Longrightarrow> 0 < bk_Refill b \<Longrightarrow> 0 \<le> f64 (float64 (now - st_at s) / float64 (bk_Refill b))"
proof -
  assume a: "st_at s \<le> now" "0 < bk_Refill b"
  have "0 \<le> float64 (now - st_at s)" "0 \<le> float64 (bk_Refill b)"
    using float64_mono [of 0 "now - st_at s"] float64_mono [of 0 "bk_Refill b"] a by simp_all
  then show ?thesis using f64_mono [of 0 "float64 (now - st_at s) / float64 (bk_Refill b)"] by simp
qed

lemma tokensAt_sane:
  assumes "wf_bucket b" "sane_tokens b (st_tokens s)"
  shows "sane_tokens b (tokensAt b s now)" "st_tokens s \<le> tokensAt b s now"
proof -
  have le: "st_tokens s \<le> f64 (st_tokens s + f64 (float64 (now - st_at s) / float64 (bk_Refill b)))"
    if "\<not> (now < st_at s \<or> bk_Refill b \<le> 0)"
    using that assms(2) by (auto simp: sane_tokens_def intro!: f64_add_nonneg refill_nonneg)
  then show "sane_tokens b (tokensAt b s now)" "st_tokens s \<le> tokensAt b s now"
    using assms wf_capacity [OF assms(1)] is_f64_f64 by (auto simp: tokensAt_def sane_tokens_def min_def)
qed

text \<open>Spending whole tokens that are there is exact, so nothing is lost or gained by rounding.\<close>

lemma spendN_exact:
  assumes "wf_bucket b" "sane_tokens b (st_tokens s)" "0 \<le> n" "of_int n \<le> tokensAt b s now"
  shows "st_tokens (spendN b s now (of_int n)) = tokensAt b s now - of_int n"
    "sane_tokens b (st_tokens (spendN b s now (of_int n)))"
proof -
  have t: "is_f64 (tokensAt b s now)" "tokensAt b s now \<le> 2 ^ 53"
    using tokensAt_sane(1) [OF assms(1,2), of now] wf_capacity [OF assms(1)] by (auto simp: sane_tokens_def)
  have "tokensAt b s now = st_tokens s" if "now < st_at s" using that by (simp add: tokensAt_def)
  then show eq: "st_tokens (spendN b s now (of_int n)) = tokensAt b s now - of_int n"
    using f64_diff_int [OF t(1) assms(3,4) t(2)] by (cases "now < st_at s") (simp_all add: spendN_def)
  show "sane_tokens b (st_tokens (spendN b s now (of_int n)))"
    unfolding eq using is_f64_diff_int [OF t(1) assms(3,4) t(2)] assms(3,4) tokensAt_sane(1) [OF assms(1,2), of now]
    by (auto simp: sane_tokens_def intro: order_trans [of _ "tokensAt b s now"])
qed

text \<open>What is stored for the buckets \<open>B\<close>: no entry, an unreadable one (treated as full), or a count between empty and full.\<close>

definition stored_ok :: "float_text \<Rightarrow> Bucket \<Rightarrow> vstate \<Rightarrow> bool" where
  "stored_ok ft b v \<longleftrightarrow> (\<forall>t x. hash_of v (budgetKey b) ''t'' = Some t \<longrightarrow> ParseFloat ft t = Some x \<longrightarrow> sane_tokens b x)"

definition budgets_ok :: "float_text \<Rightarrow> Bucket set \<Rightarrow> vstate \<Rightarrow> bool" where
  "budgets_ok ft B v \<longleftrightarrow> (\<forall>b \<in> B. stored_ok ft b v)"

lemma parseBucket_sane:
  assumes "wf_bucket b" "stored_ok ft b v" "cmd_sem (HMGET (budgetKey b) [''t'', ''at'']) v = (r, v')"
  shows "sane_tokens b (st_tokens (parseBucket ft b r now))"
  using assms full_sane [OF assms(1), of now] by (auto simp: parseBucket_def stored_ok_def split: option.splits if_splits)

text \<open>A command that keeps the counts.\<close>

definition keeps_budgets :: "float_text \<Rightarrow> Bucket set \<Rightarrow> cmd \<Rightarrow> bool" where
  "keeps_budgets ft B c \<longleftrightarrow> (\<forall>v. budgets_ok ft B v \<longrightarrow> budgets_ok ft B (snd (cmd_sem c v)))"

lemma keeps_other: "(\<And>b. b \<in> B \<Longrightarrow> budgetKey b \<notin> cmd_writes c) \<Longrightarrow> keeps_budgets ft B c"
  by (auto simp: keeps_budgets_def budgets_ok_def stored_ok_def hash_of_def live_cmd_sem)

lemma keeps_PEXPIRE: "keeps_budgets ft B (PEXPIRE k d)"
  by (auto simp: keeps_budgets_def budgets_ok_def stored_ok_def hash_of_def live_expire_at split: option.splits if_splits vval.splits)

lemma keeps_HSET:
  assumes "inj_on bk_Key B" "b \<in> B" "sane_tokens b x" "ParseFloat ft (FormatFloat ft x) = Some x"
  shows "keeps_budgets ft B (HSET (budgetKey b) [(''t'', FormatFloat ft x), (''at'', m)])"
  unfolding keeps_budgets_def budgets_ok_def
proof (intro allI impI ballI)
  fix v c assume ok: "\<forall>b \<in> B. stored_ok ft b v" and c: "c \<in> B"
  show "stored_ok ft c (snd (cmd_sem (HSET (budgetKey b) [(''t'', FormatFloat ft x), (''at'', m)]) v))"
  proof (cases "bk_Key c = bk_Key b")
    case True
    then have "c = b" using assms(1,2) c by (auto dest: inj_onD)
    then show ?thesis
      using ok assms by (auto simp: stored_ok_def hash_of_def [of "put _ _ _ _"] live_put_expiry)
  next
    case False
    then show ?thesis using ok c by (auto simp: stored_ok_def hash_of_def vk_simps budgetKey_def)
  qed
qed

lemma keeps_writeBucket:
  assumes "inj_on bk_Key B" "b \<in> B" "sane_tokens b (st_tokens st)" "ParseFloat ft (FormatFloat ft (st_tokens st)) = Some (st_tokens st)"
  shows "\<forall>c \<in> set (writeBucket ft b st now). keeps_budgets ft B c"
  using keeps_HSET [OF assms] keeps_PEXPIRE by (simp add: writeBucket_def)

context valkey
begin

lemma exec_preserves:
  assumes "P (view s)" "\<And>v v'. P v \<Longrightarrow> R v v' \<Longrightarrow> P v'" "\<And>c v. c \<in> set cs \<Longrightarrow> P v \<Longrightarrow> P (snd (cmd_sem c v))"
  shows "P (view (snd (ex cs s)))"
proof -
  obtain r s' where r: "ex cs s = (r, s')" by (meson surj_pair)
  show ?thesis
  proof (cases r)
    case (Inr rs)
    then show ?thesis using exec_ok [of cs s rs s'] runs_preserves [of R cs _ rs _ P] r assms by auto
  next
    case (Inl e)
    then obtain k rs where run: "runs R (take k cs) (view s) rs (view s')" using exec_fail r by blast
    have "P (view s')"
      by (rule runs_preserves [where P = P, OF run assms(1)]) (use assms(2,3) in \<open>auto dest: in_set_takeD\<close>)
    then show ?thesis using r by simp
  qed
qed

lemma do1_preserves:
  assumes "P (view s)" "\<And>v v'. P v \<Longrightarrow> R v v' \<Longrightarrow> P v'" "\<And>v. P v \<Longrightarrow> P (snd (cmd_sem c v))"
  shows "P (view (snd (do1 ex c s)))"
proof -
  have "snd (do1 ex c s) = snd (ex [c] s)" by (auto simp: do1_def split: prod.splits sum.splits list.splits)
  then show ?thesis using exec_preserves [of P s "[c]"] assms by auto
qed

end

text \<open>A wait folded over the buckets is zero only if no bucket asks for one.\<close>

lemma fold_wait_ge: "w \<le> fold (\<lambda>x w. if P x then max (max w (f x)) c else w) xs (w :: int)"
proof (induct xs arbitrary: w)
  case (Cons x xs)
  show ?case using Cons [of "if P x then max (max w (f x)) c else w"] by (auto split: if_splits)
qed simp

lemma fold_wait_none:
  assumes "fold (\<lambda>x w. if P x then max (max w (f x)) c else w) xs (w :: int) < c" "x \<in> set xs"
  shows "\<not> P x"
  using assms
proof (induct xs arbitrary: w)
  case (Cons y ys)
  show ?case
  proof (cases "x = y")
    case True
    show ?thesis
    proof
      assume "P x"
      then have "c \<le> fold (\<lambda>x w. if P x then max (max w (f x)) c else w) (y # ys) w"
        using True fold_wait_ge [of "max (max w (f y)) c" P f c ys] by simp
      then show False using Cons.prems(1) by simp
    qed
  next
    case False
    then show ?thesis using Cons.hyps Cons.prems by simp
  qed
qed simp

text \<open>The interface of a replica that keeps the budgets \<open>B\<close>: a client whose environment keeps the counts, and a text form that reads back.\<close>

locale budget_keeper = valkey +
  fixes ft :: float_text and B :: "Bucket set"
  assumes others_keep: "budgets_ok ft B v \<Longrightarrow> R v v' \<Longrightarrow> budgets_ok ft B v'"
    and text_roundtrip: "is_f64 x \<Longrightarrow> ParseFloat ft (FormatFloat ft x) = Some x"
    and buckets_wf: "b \<in> B \<Longrightarrow> wf_bucket b"
    and keys_distinct: "inj_on bk_Key B"
begin

lemma exec_keeps: "budgets_ok ft B (view s) \<Longrightarrow> \<forall>c \<in> set cs. keeps_budgets ft B c \<Longrightarrow> budgets_ok ft B (view (snd (ex cs s)))"
  by (rule exec_preserves [where P = "budgets_ok ft B"]) (auto simp: keeps_budgets_def intro: others_keep)

lemma do1_keeps: "budgets_ok ft B (view s) \<Longrightarrow> keeps_budgets ft B c \<Longrightarrow> budgets_ok ft B (view (snd (do1 ex c s)))"
  by (rule do1_preserves [where P = "budgets_ok ft B"]) (auto simp: keeps_budgets_def intro: others_keep)

lemma run_cmds_keeps:
  "budgets_ok ft B (view s) \<Longrightarrow> \<forall>c \<in> set cs. keeps_budgets ft B c \<Longrightarrow> budgets_ok ft B (view (snd (run_cmds ex cs x s)))"
  using exec_keeps [of s cs] by (auto simp: run_cmds_def split: prod.splits sum.splits)

lemma lock_keeps: "keeps_budgets ft B (SETNX (budgetLockKey ca) token d)" "keeps_budgets ft B (GET k)" "keeps_budgets ft B (DEL (budgetLockKey ca))"
  by (auto intro!: keeps_other simp: budgetLockKey_def budgetKey_def)

lemma release_keeps: "budgets_ok ft B (view s) \<Longrightarrow> budgets_ok ft B (view (releaseBudgetLock ex ca token s))"
proof -
  assume ok: "budgets_ok ft B (view s)"
  obtain r s1 where g: "do1 ex (GET (budgetLockKey ca)) s = (r, s1)" by (meson surj_pair)
  have ok1: "budgets_ok ft B (view s1)" using do1_keeps [OF ok lock_keeps(2), of "budgetLockKey ca"] g by simp
  then show ?thesis using do1_keeps [OF ok1 lock_keeps(3), of ca] by (auto simp: releaseBudgetLock_def g split: sum.splits reply.splits)
qed

lemma locked_keeps:
  assumes "\<And>s. budgets_ok ft B (view s) \<Longrightarrow> budgets_ok ft B (view (snd (fn s)))" "budgets_ok ft B (view s)"
  shows "budgets_ok ft B (view (snd (withBudgetLock ex token cancelled ca fn s)))"
proof -
  have "budgets_ok ft B (view (snd (budget_lock_loop ex token cancelled ca fn n s)))" for n
    using assms(2)
  proof (induct n arbitrary: s)
    case (Suc n)
    obtain r s1 where r: "do1 ex (SETNX (budgetLockKey ca) token budgetLockTTL) s = (r, s1)" by (meson surj_pair)
    have ok1: "budgets_ok ft B (view s1)" using do1_keeps [OF Suc.prems lock_keeps(1), of ca token budgetLockTTL] r by simp
    obtain x s2 where f: "fn s1 = (x, s2)" by (meson surj_pair)
    have "budgets_ok ft B (view s2)" using assms(1) [OF ok1] f by simp
    then show ?case using Suc.hyps [OF ok1] ok1 release_keeps [of s2] by (auto simp: r f split: sum.splits reply.splits)
  qed simp
  then show ?thesis by (simp add: withBudgetLock_def)
qed

lemma read_keeps: "budgets_ok ft B (view s) \<Longrightarrow> readBuckets ex ft bs now s = (r, s1) \<Longrightarrow> budgets_ok ft B (view s1)"
  using exec_keeps [of s "read_cmds bs"]
  by (auto simp: readBuckets_def read_cmds_def keeps_other split: prod.splits sum.splits)

lemma read_runs_sane:
  "runs R (read_cmds bs) v rs v' \<Longrightarrow> budgets_ok ft B v \<Longrightarrow> set bs \<subseteq> B \<Longrightarrow>
   list_all2 (\<lambda>b st. sane_tokens b (st_tokens st)) bs (map2 (\<lambda>b r. parseBucket ft b r now) bs rs)"
proof (induct bs arbitrary: v rs)
  case (Cons b bs)
  obtain v1 r v2 rs' where 1: "R v v1" "cmd_sem (HMGET (budgetKey b) [''t'', ''at'']) v1 = (r, v2)" "runs R (read_cmds bs) v2 rs' v'" "rs = r # rs'"
    using Cons.prems(1) by (auto simp: read_cmds_def runs_Cons_iff simp del: cmd_sem.simps)
  have ok1: "budgets_ok ft B v1" using others_keep [OF Cons.prems(2) 1(1)] .
  have "v2 = v1" using 1(2) by (auto split: if_splits)
  then have "list_all2 (\<lambda>b st. sane_tokens b (st_tokens st)) bs (map2 (\<lambda>b r. parseBucket ft b r now) bs rs')"
    using Cons.hyps [OF 1(3)] ok1 Cons.prems(3) by simp
  moreover have "sane_tokens b (st_tokens (parseBucket ft b r now))"
    by (rule parseBucket_sane [OF _ _ 1(2)]) (use ok1 Cons.prems(3) buckets_wf in \<open>auto simp: budgets_ok_def\<close>)
  ultimately show ?case by (simp add: 1(4))
qed simp

lemma read_sane:
  assumes "budgets_ok ft B (view s)" "set bs \<subseteq> B" "readBuckets ex ft bs now s = (Inr states, s1)"
  shows "list_all2 (\<lambda>b st. sane_tokens b (st_tokens st)) bs states"
proof -
  obtain rs where "ex (read_cmds bs) s = (Inr rs, s1)" "states = map2 (\<lambda>b r. parseBucket ft b r now) bs rs"
    using assms(3) by (auto simp: readBuckets_def split: prod.splits sum.splits)
  then show ?thesis using read_runs_sane exec_ok assms(1,2) by blast
qed

lemma write_keeps: "b \<in> B \<Longrightarrow> sane_tokens b (st_tokens st) \<Longrightarrow> \<forall>c \<in> set (writeBucket ft b st now). keeps_budgets ft B c"
  by (rule keeps_writeBucket [OF keys_distinct]) (auto simp: sane_tokens_def text_roundtrip)

lemma take_keeps:
  assumes "set bs \<subseteq> B" "budgets_ok ft B (view s)"
  shows "budgets_ok ft B (view (snd (take_section ex ft bs now s)))"
proof -
  obtain r s1 where r: "readBuckets ex ft bs now s = (r, s1)" by (meson surj_pair)
  have ok1: "budgets_ok ft B (view s1)" by (rule read_keeps [OF assms(2) r])
  show ?thesis
  proof (cases r)
    case (Inr states)
    show ?thesis
    proof (cases "take_wait bs states now > 0")
      case False
      have sane: "list_all2 (\<lambda>b st. sane_tokens b (st_tokens st)) bs states" using read_sane [OF assms(2,1)] r Inr by simp
      have "\<forall>c \<in> set (writeBucket ft b (spend b st now) now). keeps_budgets ft B c" if "(b, st) \<in> set (zip bs states)" for b st
      proof (rule write_keeps)
        show b: "b \<in> B" using that assms(1) by (auto dest: set_zip_leftD)
        have "\<not> tokensAt b st now < 1"
          using fold_wait_none [where c = Millisecond and P = "\<lambda>p. tokensAt (fst p) (snd p) now < 1" and f = "\<lambda>p. waitFor (fst p) (snd p) now 1"
              and xs = "zip bs states" and w = 0 and x = "(b, st)"] False that
          by (simp add: take_wait_def case_prod_beta split_def)
        then show "sane_tokens b (st_tokens (spend b st now))"
          using spendN_exact(2) [OF buckets_wf [OF b], of st 1 now] sane that by (auto simp: spend_def list_all2_iff)
      qed
      then have "\<forall>c \<in> set (concat (map2 (\<lambda>b st. writeBucket ft b (spend b st now) now) bs states)). keeps_budgets ft B c" by force
      from run_cmds_keeps [OF ok1 this] show ?thesis using False by (simp add: take_section_def r Inr Let_def)
    qed (simp add: take_section_def r Inr Let_def ok1)
  qed (simp add: take_section_def r ok1)
qed

lemma read_one:
  assumes "b \<in> B" "budgets_ok ft B (view s)" "readBuckets ex ft [b] now s = (Inr states, s1)"
  obtains st where "states = [st]" "sane_tokens b (st_tokens st)" "budgets_ok ft B (view s1)"
  using read_sane [OF assms(2) _ assms(3)] read_keeps [OF assms(2,3)] assms(1) that by (auto simp: list_all2_Cons1)

lemma one_keeps:
  assumes "b \<in> B" "budgets_ok ft B (view s)"
    and "\<And>(st :: bucketState) s1. sane_tokens b (st_tokens st) \<Longrightarrow> budgets_ok ft B (view s1) \<Longrightarrow> budgets_ok ft B (view (snd (k st s1)))"
  shows "budgets_ok ft B (view (snd (case readBuckets ex ft [b] now s of (Inr [st], s1) \<Rightarrow> k st s1 | (Inr _, s1) \<Rightarrow> (Inl e, s1) | (Inl e, s1) \<Rightarrow> (Inl e, s1))))"
proof -
  obtain r s1 where r: "readBuckets ex ft [b] now s = (r, s1)" by (meson surj_pair)
  show ?thesis
  proof (cases r)
    case (Inr states)
    then obtain st where "states = [st]" "sane_tokens b (st_tokens st)" "budgets_ok ft B (view s1)"
      using read_one [OF assms(1,2)] r by blast
    then show ?thesis using assms(3) r Inr by simp
  next
    case (Inl e)
    then show ?thesis using read_keeps [OF assms(2) r] r by simp
  qed
qed

lemma prepay_keeps:
  assumes "b \<in> B" "0 < n" "n \<le> trunc (bk_Capacity b)" "budgets_ok ft B (view s)"
  shows "budgets_ok ft B (view (snd (prepay_section ex ft b n now s)))"
  unfolding prepay_section_def
proof (rule one_keeps [OF assms(1,4)])
  fix st :: bucketState and s1 assume st: "sane_tokens b (st_tokens st)" and ok: "budgets_ok ft B (view s1)"
  obtain m where m: "bk_Capacity b = of_int m" "0 \<le> m" "m \<le> 2 ^ 53" using buckets_wf [OF assms(1)] by (auto simp: wf_bucket_def)
  then have n: "float64 n = of_int n" using assms(2,3) by (auto simp: trunc_def intro!: float64_exact)
  have "budgets_ok ft B (view (snd (run_cmds ex (writeBucket ft b (spendN b st now (float64 n)) now) (0 :: duration) s1)))" if "\<not> tokensAt b st now < float64 n"
    by (rule run_cmds_keeps [OF ok write_keeps [OF assms(1)]])
      (use spendN_exact(2) [OF buckets_wf [OF assms(1)] st, of n now] that n assms(2) in simp)
  then show "budgets_ok ft B (view (snd (if tokensAt b st now < float64 n then (Inr (max (waitFor b st now (float64 n)) Millisecond), s1)
      else run_cmds ex (writeBucket ft b (spendN b st now (float64 n)) now) 0 s1)))" using ok by simp
qed

lemma refund_keeps:
  assumes "b \<in> B" "0 < n" "budgets_ok ft B (view s)"
  shows "budgets_ok ft B (view (snd (refund_section ex ft b n now s)))"
  unfolding refund_section_def
proof (rule one_keeps [OF assms(1,3)])
  fix st :: bucketState and s1 assume st: "sane_tokens b (st_tokens st)" and ok: "budgets_ok ft B (view s1)"
  let ?x = "min (bk_Capacity b) (f64 (tokensAt b st now + float64 n))"
  have t: "sane_tokens b (tokensAt b st now)" by (rule tokensAt_sane(1) [OF buckets_wf [OF assms(1)] st])
  have "0 \<le> float64 n" using float64_mono [of 0 n] assms(2) by simp
  then have "0 \<le> f64 (tokensAt b st now + float64 n)" using t f64_mono [of 0 "tokensAt b st now + float64 n"] by (simp add: sane_tokens_def)
  then have "sane_tokens b ?x" using wf_capacity [OF buckets_wf [OF assms(1)]] is_f64_f64 by (auto simp: sane_tokens_def min_def)
  then have "budgets_ok ft B (view (snd (run_cmds ex (writeBucket ft b \<lparr>st_tokens = ?x, st_at = now\<rparr> now) () s1)))"
    using run_cmds_keeps [OF ok write_keeps [OF assms(1), of "\<lparr>st_tokens = ?x, st_at = now\<rparr>"]] by simp
  then show "budgets_ok ft B (view (snd (if now < st_at st then (Inr (), s1)
      else run_cmds ex (writeBucket ft b \<lparr>st_tokens = ?x, st_at = now\<rparr> now) () s1)))" using ok by simp
qed

lemma resync_keeps:
  assumes "set bs \<subseteq> B" "budgets_ok ft B (view s)"
  shows "budgets_ok ft B (view (snd (resync_section ex ft bs d now s)))"
proof -
  have "is_f64 0" using is_f64_int [of 0] by simp
  then have "\<forall>c \<in> set (writeBucket ft b \<lparr>st_tokens = 0, st_at = now + (d - bk_Refill b)\<rparr> now). keeps_budgets ft B c" if "b \<in> set bs" for b
    using that assms(1) wf_capacity [OF buckets_wf, of b] by (intro write_keeps) (auto simp: sane_tokens_def)
  then show ?thesis unfolding resync_section_def by (intro run_cmds_keeps [OF assms(2)]) auto
qed

end

text \<open>The operations on the request budgets, by any replica.\<close>

datatype budget_op =
    Take lock_io string "Bucket list"
  | Prepay lock_io string Bucket int
  | Refund lock_io string Bucket int
  | Resync lock_io string "Bucket list" duration

fun budget_step :: "'s client \<Rightarrow> float_text \<Rightarrow> budget_op \<Rightarrow> 's \<Rightarrow> 's" where
  "budget_step ex ft (Take io ca bs) s = snd (TakeACME ex ft io ca bs s)"
| "budget_step ex ft (Prepay io ca b n) s = snd (PrepayACME ex ft io ca b n s)"
| "budget_step ex ft (Refund io ca b n) s = snd (RefundACME ex ft io ca b n s)"
| "budget_step ex ft (Resync io ca bs d) s = snd (ResyncACME ex ft io ca bs d s)"

fun op_buckets :: "budget_op \<Rightarrow> Bucket set" where
  "op_buckets (Take _ _ bs) = set bs"
| "op_buckets (Prepay _ _ b _) = {b}"
| "op_buckets (Refund _ _ b _) = {b}"
| "op_buckets (Resync _ _ bs _) = set bs"

context budget_keeper
begin

lemma budget_step_keeps:
  assumes "op_buckets op \<subseteq> B" "budgets_ok ft B (view s)"
  shows "budgets_ok ft B (view (budget_step ex ft op s))"
proof (cases op)
  case (Take io ca bs)
  then show ?thesis using assms by (auto simp: TakeACME_def intro!: locked_keeps take_keeps)
next
  case (Prepay io ca b n)
  let ?n = "min n (trunc (bk_Capacity b))"
  have "budgets_ok ft B (view (snd (withBudgetLock ex (li_token io) (li_cancelled io) ca (prepay_section ex ft b ?n (li_now io)) s)))" if "\<not> ?n \<le> 0"
    using assms Prepay that by (auto intro!: locked_keeps prepay_keeps)
  then show ?thesis using assms Prepay by (auto simp: PrepayACME_def Let_def split: prod.splits sum.splits)
next
  case (Refund io ca b n)
  then show ?thesis using assms by (auto simp: RefundACME_def intro!: locked_keeps refund_keeps)
next
  case (Resync io ca bs d)
  then show ?thesis using assms by (auto simp: ResyncACME_def intro!: locked_keeps resync_keeps)
qed

end

text \<open>
  C33. Whatever requests replicas make of the request budgets (taking, paying ahead, refunding, adjusting to a rate-limit answer), in any
  order, with calls that fail half way and other replicas acting in between, no stored count ever drops below zero or
  rises above the bucket's capacity: no request is sent on credit, and a refund never overfills a bucket.
\<close>

theorem request_budget_within_capacity:
  assumes "budget_keeper ex view R ft B" "\<forall>op \<in> set ops. op_buckets op \<subseteq> B" "budgets_ok ft B (view s)"
  shows "budgets_ok ft B (view (fold (budget_step ex ft) ops s))"
  using assms(2,3)
proof (induct ops arbitrary: s)
  case (Cons op ops)
  then show ?case using budget_keeper.budget_step_keeps [OF assms(1)] by simp
qed simp

text \<open>A text form that reads back, over the store in memory: sign, numerator, denominator.\<close>

definition demo_text :: float_text where
  "demo_text = \<lparr>FormatFloat = (\<lambda>x. case quotient_of x of (p, q) \<Rightarrow>
       (if p < 0 then CHR ''-'' else CHR ''+'') # utoa (nat \<bar>p\<bar>) @ CHR ''/'' # utoa (nat q)),
     ParseFloat = (\<lambda>s. case s of [] \<Rightarrow> None
       | c # t \<Rightarrow> (case CutByte t (CHR ''/'') of (a, b, _) \<Rightarrow>
           Some ((if c = CHR ''-'' then - 1 else 1) * of_nat (digits_val a) / of_nat (digits_val b))))\<rparr>"

lemma CutByte_append: "c \<notin> set a \<Longrightarrow> CutByte (a @ c # b) c = (a, b, True)"
  by (induct a) auto

lemma slash_not_in_utoa: "CHR ''/'' \<notin> set (utoa n)"
  using list_all_digit_utoa [of n] by (auto simp: list_all_iff is_digit_def dest!: bspec [of _ _ "CHR ''/''"])

lemma demo_text_roundtrip: "ParseFloat demo_text (FormatFloat demo_text x) = Some x"
proof -
  obtain p q where pq: "quotient_of x = (p, q)" by (meson surj_pair)
  have q: "0 < q" "x = of_int p / of_int q" using quotient_of_denom_pos [OF pq] quotient_of_div [OF pq] by auto
  have "FormatFloat demo_text x = (if p < 0 then CHR ''-'' else CHR ''+'') # utoa (nat \<bar>p\<bar>) @ CHR ''/'' # utoa (nat q)"
    by (simp add: demo_text_def pq)
  then have "ParseFloat demo_text (FormatFloat demo_text x) = Some ((if p < 0 then - 1 else 1) * of_nat (nat \<bar>p\<bar>) / of_nat (nat q))"
    by (simp add: demo_text_def CutByte_append [OF slash_not_in_utoa])
  then show ?thesis using q by (simp split: if_splits)
qed

definition demo_rate :: Rate where "demo_rate = \<lparr>rt_Count = 20, rt_Period = Second, rt_Burst = 2\<rparr>"

definition demo_bucket :: Bucket where "demo_bucket = Rate_Bucket demo_rate ''gts:requests:a''"

text \<open>Every bucket of a rate, over the store in memory.\<close>

interpretation mem_budgets: budget_keeper mem_exec id "(=)" demo_text "range (Rate_Bucket demo_rate)"
proof
  show "wf_bucket b" if "b \<in> range (Rate_Bucket demo_rate)" for b using that Rate_Bucket_wf by (auto simp: demo_rate_def)
  show "inj_on bk_Key (range (Rate_Bucket demo_rate))" by (auto simp: inj_on_def Rate_Bucket_def)
qed (auto simp: demo_text_roundtrip)

definition demo_lock_io :: "int \<Rightarrow> lock_io" where
  "demo_lock_io now = \<lparr>li_token = ''tok'', li_cancelled = (\<lambda>_. False), li_now = now\<rparr>"

theorem request_budget_within_capacity_witness:
  "budgets_ok demo_text (range (Rate_Bucket demo_rate)) (id (fold (budget_step mem_exec demo_text)
     [Take (demo_lock_io 0) ''gts'' [demo_bucket], Prepay (demo_lock_io 1) ''gts'' demo_bucket 9, Refund (demo_lock_io 2) ''gts'' demo_bucket 5,
      Resync (demo_lock_io 3) ''gts'' [demo_bucket] Second] \<lparr>clock = 0, keyspace = Map.empty\<rparr>))"
  by (rule request_budget_within_capacity [OF mem_budgets.budget_keeper_axioms])
    (auto simp: budgets_ok_def stored_ok_def hash_of_def live_def demo_bucket_def)

subsection \<open>An order is granted only within the budget\<close>

lemma held_below:
  assumes "is_f64 t" "t \<le> 2 ^ 53" "0 \<le> h" "\<not> f64 (t - float64 h) < 1"
  shows "of_int h + 1 \<le> t"
proof (rule ccontr)
  assume lt: "\<not> of_int h + 1 \<le> t"
  show False
  proof (cases "h \<le> 2 ^ 53 \<and> of_int h \<le> t")
    case True
    then have "f64 (t - float64 h) = t - of_int h" using f64_diff_int [OF assms(1,3) _ assms(2)] assms(3) by (simp add: float64_exact)
    then show False using lt assms(4) by simp
  next
    case False
    have "t \<le> float64 h"
    proof (cases "h \<le> 2 ^ 53")
      case True
      then show ?thesis using False assms(3) by (simp add: float64_exact)
    next
      case big: False
      then show ?thesis using float64_mono [of "2 ^ 53" h] float64_exact [of "2 ^ 53"] assms(2) by simp
    qed
    then show False using f64_mono [of "t - float64 h" 0] assms(4) by simp
  qed
qed

text \<open>What is stored of a bucket, and the orders in progress on the given nodes whose deadline has not passed.\<close>

definition stored_bucket :: "float_text \<Rightarrow> vstate \<Rightarrow> Bucket \<Rightarrow> int \<Rightarrow> bucketState" where
  "stored_bucket ft v b now = parseBucket ft b (RVals (map (hash_of v (budgetKey b)) [''t'', ''at''])) now"

definition in_flight :: "vstate \<Rightarrow> int \<Rightarrow> vkey \<Rightarrow> int" where
  "in_flight v now k = int (zcard (filter (\<lambda>p. UnixMilli now < snd p) (zset_of v k)))"

definition held_orders :: "vstate \<Rightarrow> Bucket \<Rightarrow> string list \<Rightarrow> int \<Rightarrow> int" where
  "held_orders v b nodes now = sum_list (map (\<lambda>node. in_flight v now (inflightKey b node)) nodes)"

lemma held_orders_cong:
  "(\<And>node. node \<in> set nodes \<Longrightarrow> live v' (inflightKey b node) = live v (inflightKey b node)) \<Longrightarrow>
   held_orders v' b nodes now = held_orders v b nodes now"
  by (simp add: held_orders_def in_flight_def zset_of_def cong: map_cong)

lemma sum_cards_runs:
  "runs (steady K) (concat (map (\<lambda>k. [ZREMRANGE_UPTO k (UnixMilli now), ZCARD k]) ks)) v rs v' \<Longrightarrow> \<forall>r \<in> set rs. \<not> is_err r \<Longrightarrow>
   distinct ks \<Longrightarrow> set ks \<subseteq> K \<Longrightarrow> sum_cards (length ks) rs = sum_list (map (in_flight v now) ks)"
proof (induct ks arbitrary: v rs)
  case (Cons k ks)
  obtain v1 r1 v2 v3 r2 v4 rs' where 1: "steady K v v1" "cmd_sem (ZREMRANGE_UPTO k (UnixMilli now)) v1 = (r1, v2)" "steady K v2 v3"
      "cmd_sem (ZCARD k) v3 = (r2, v4)" "runs (steady K) (concat (map (\<lambda>k. [ZREMRANGE_UPTO k (UnixMilli now), ZCARD k]) ks)) v4 rs' v'" "rs = r1 # r2 # rs'"
    using Cons.prems(1) by (auto simp: runs_Cons_iff simp del: cmd_sem.simps)
  have k: "k \<in> K" "live v1 k = live v k" "live v3 k = live v2 k" using Cons.prems(4) 1(1,3) by (auto simp: steady_def)
  have e: "\<not> is_err r1" "\<not> is_err r2" using Cons.prems(2) 1(6) by auto
  have v2: "v2 = put_zset v1 k (filter (\<lambda>p. UnixMilli now < snd p) (zset_of v1 k))" using 1(2) e by (auto split: if_splits)
  then have "zset_of v2 k = filter (\<lambda>p. UnixMilli now < snd p) (zset_of v1 k)"
    by (auto simp: put_zset_def zset_of_def [of "put _ _ _ _"] zset_of_def [of "del _ _"] live_put_expiry live_del)
  then have r2: "r2 = RInt (in_flight v now k)" "v4 = v3" using 1(4) e k by (auto simp: in_flight_def zset_of_def split: if_splits)
  have keep: "in_flight v4 now k' = in_flight v now k'" if "k' \<in> set ks" for k'
  proof -
    have "k' \<noteq> k" "k' \<in> K" using that Cons.prems(3,4) by auto
    then have "live v4 k' = live v k'" using 1(1,3) r2(2) v2 live_cmd_sem [of k' "ZREMRANGE_UPTO k (UnixMilli now)" v1] 1(2) by (auto simp: steady_def)
    then show ?thesis by (simp add: in_flight_def zset_of_def)
  qed
  have "sum_cards (length ks) rs' = sum_list (map (in_flight v4 now) ks)" using Cons.hyps [OF 1(5)] Cons.prems 1(6) by auto
  also have "map (in_flight v4 now) ks = map (in_flight v now) ks" using keep by simp
  finally show ?case using 1(6) r2 by simp
qed simp

text \<open>The replies of a pipeline that reads several buckets split at the bucket boundaries.\<close>

lemma bucket_cards_runs:
  "runs (steady K) (inflight_cmds bs nodes now) v rs v' \<Longrightarrow> \<forall>r \<in> set rs. \<not> is_err r \<Longrightarrow>
   distinct (concat (map (\<lambda>b. map (inflightKey b) nodes) bs)) \<Longrightarrow> (\<Union>b \<in> set bs. inflightKey b ` set nodes) \<subseteq> K \<Longrightarrow>
   bucket_cards (length bs) (length nodes) rs = map (\<lambda>b. held_orders v b nodes now) bs"
proof (induct bs arbitrary: v rs)
  case (Cons b bs)
  let ?cs = "concat (map (\<lambda>k. [ZREMRANGE_UPTO k (UnixMilli now), ZCARD k]) (map (inflightKey b) nodes))"
  have split: "inflight_cmds (b # bs) nodes now = ?cs @ inflight_cmds bs nodes now" by (simp add: inflight_cmds_def comp_def)
  obtain rs1 v1 rs2 where r: "runs (steady K) ?cs v rs1 v1" "runs (steady K) (inflight_cmds bs nodes now) v1 rs2 v'" "rs = rs1 @ rs2"
    using Cons.prems(1) unfolding split runs_append by blast
  have len: "length rs1 = 2 * length nodes" using runs_length [OF r(1)] by (simp add: length_concat comp_def sum_list_triv)
  have "sum_cards (length nodes) rs1 = held_orders v b nodes now"
    using sum_cards_runs [OF r(1)] Cons.prems(2-4) r(3) by (auto simp: held_orders_def comp_def)
  moreover have "sum_cards m (rs1 @ rs2) = sum_cards m rs1" if "length rs1 = 2 * m" for m
    using that by (induct m rs1 rule: sum_cards.induct) auto
  moreover have "bucket_cards (length bs) (length nodes) rs2 = map (\<lambda>c. held_orders v1 c nodes now) bs"
    using Cons.hyps [OF r(2)] Cons.prems(2-4) r(3) by auto
  moreover have "held_orders v1 c nodes now = held_orders v c nodes now" if c: "c \<in> set bs" for c
  proof -
    have other: "inflightKey c node \<noteq> inflightKey b y" if "node \<in> set nodes" "y \<in> set nodes" for node y
      using Cons.prems(3) c that by (auto simp: disjoint_iff)
    have "live v1 (inflightKey c node) = live v (inflightKey c node)" if "node \<in> set nodes" for node
    proof (rule runs_live [OF r(1)])
      have "inflightKey c node \<in> (\<Union>b \<in> set (b # bs). inflightKey b ` set nodes)" using c that by auto
      then show "inflightKey c node \<in> K" using Cons.prems(4) by (rule rev_subsetD)
    qed (use that other in auto)
    then show ?thesis by (rule held_orders_cong)
  qed
  ultimately show ?case using len r(3) by simp
qed (simp add: inflight_cmds_def)

lemma read_steady:
  "runs (steady K) (read_cmds bs) v rs v' \<Longrightarrow> \<forall>r \<in> set rs. \<not> is_err r \<Longrightarrow> budgetKey ` set bs \<subseteq> K \<Longrightarrow>
   map2 (\<lambda>b r. parseBucket ft b r now) bs rs = map (\<lambda>b. stored_bucket ft v b now) bs"
proof (induct bs arbitrary: v rs)
  case (Cons b bs)
  obtain v1 r v2 rs' where 1: "steady K v v1" "cmd_sem (HMGET (budgetKey b) [''t'', ''at'']) v1 = (r, v2)" "runs (steady K) (read_cmds bs) v2 rs' v'" "rs = r # rs'"
    using Cons.prems(1) by (auto simp: read_cmds_def runs_Cons_iff simp del: cmd_sem.simps)
  have live: "live v1 k = live v k" if "k \<in> K" for k using that 1(1) by (auto simp: steady_def)
  have "r = RVals (map (hash_of v1 (budgetKey b)) [''t'', ''at''])" "v2 = v1" using 1(2,4) Cons.prems(2) by (auto split: if_splits)
  then have "parseBucket ft b r now = stored_bucket ft v b now" using live Cons.prems(3) by (simp add: stored_bucket_def hash_of_def)
  moreover have "map2 (\<lambda>b r. parseBucket ft b r now) bs rs' = map (\<lambda>b. stored_bucket ft v1 b now) bs"
    using Cons.hyps [OF 1(3)] Cons.prems 1(4) \<open>v2 = v1\<close> by auto
  moreover have "stored_bucket ft v1 c now = stored_bucket ft v c now" if "c \<in> set bs" for c
    using that live Cons.prems(3) by (simp add: stored_bucket_def hash_of_def image_subset_iff)
  ultimately show ?case using 1(4) by simp
qed simp

lemma locked_section:
  assumes "valkey ex view (steady K)" "budgetLockKey ca \<notin> K" "withBudgetLock ex token cancelled ca fn s = (Inr x, s')"
  obtains s1 s2 where "fn s1 = (Inr x, s2)" "\<forall>k \<in> K. live (view s1) k = live (view s) k"
proof -
  have "\<exists>s1 s2. fn s1 = (Inr x, s2) \<and> (\<forall>k \<in> K. live (view s1) k = live (view s) k)"
    if "budget_lock_loop ex token cancelled ca fn n s = (Inr x, s')" for n s
    using that
  proof (induct n arbitrary: s)
    case (Suc n)
    obtain r s1 where r: "do1 ex (SETNX (budgetLockKey ca) token budgetLockTTL) s = (r, s1)" by (meson surj_pair)
    then obtain ok where ok: "r = Inr (RBool ok)" using Suc.prems by (auto split: sum.splits reply.splits)
    obtain v1 where v1: "steady K (view s) v1" "cmd_sem (SETNX (budgetLockKey ca) token budgetLockTTL) v1 = (RBool ok, view s1)"
      by (rule valkey.do1_ok [OF assms(1), of _ s "RBool ok" s1]) (use r ok in auto)
    have live: "live (view s1) k = live (view s) k" if "k \<in> K" for k
      using live_cmd_sem [of k "SETNX (budgetLockKey ca) token budgetLockTTL" v1] v1 that assms(2) by (auto simp: steady_def)
    show ?case
    proof (cases ok)
      case True
      obtain y s2 where f: "fn s1 = (y, s2)" by (meson surj_pair)
      then have "y = Inr x" using Suc.prems True by (simp add: r ok)
      then show ?thesis using f live by blast
    next
      case False
      then have "budget_lock_loop ex token cancelled ca fn n s1 = (Inr x, s')" using Suc.prems by (simp add: r ok split: if_splits)
      then show ?thesis using Suc.hyps live by metis
    qed
  qed simp
  then show ?thesis using assms(3) that unfolding withBudgetLock_def by blast
qed

definition order_keys :: "Bucket list \<Rightarrow> string list \<Rightarrow> vkey set" where
  "order_keys bs nodes = budgetKey ` set bs \<union> (\<Union>b \<in> set bs. inflightKey b ` set nodes)"

text \<open>
  C34. A certificate order is granted only if each of its budgets holds, at that time, at least one whole token more than there are
  orders in progress on the live nodes, so that all of them and the new one could be paid for. The comparison is exact although the code
  subtracts \<^verbatim>\<open>float64\<close> values. This needs that no other replica changes these keys meanwhile (the lock) and none expires.
\<close>

theorem ReserveACME_within_budget:
  assumes "valkey ex view (steady (order_keys bs nodes))" "\<forall>b \<in> set bs. wf_bucket b \<and> stored_ok ft b (view s)"
    and "distinct (concat (map (\<lambda>b. map (inflightKey b) nodes) bs))" "nodes \<noteq> []"
    and "ReserveACME ex ft io ca bs node member deadline nodes s = (Inr (True, 0), s')" "b \<in> set bs"
  shows "of_int (held_orders (view s) b nodes (li_now io)) + 1 \<le> tokensAt b (stored_bucket ft (view s) b (li_now io)) (li_now io)"
proof -
  let ?K = "order_keys bs nodes" and ?now = "li_now io"
  have "budgetLockKey ca \<notin> ?K" by (auto simp: order_keys_def budgetLockKey_def budgetKey_def inflightKey_def)
  then obtain s1 s2 where sec: "reserve_section ex ft bs node member deadline nodes ?now s1 = (Inr (True, 0), s2)"
    and live: "\<forall>k \<in> ?K. live (view s1) k = live (view s) k"
    by (rule locked_section [OF assms(1)]) (use assms(5,6) in \<open>auto simp: ReserveACME_def split: if_splits\<close>)
  obtain states s3 where rd: "readBuckets ex ft bs ?now s1 = (Inr states, s3)"
    using sec by (auto simp: reserve_section_def split: prod.splits sum.splits)
  obtain held s4 where hd: "inflightCounts ex bs nodes ?now s3 = (Inr held, s4)"
    using sec rd by (auto simp: reserve_section_def split: prod.splits sum.splits)
  have wait: "reserve_wait bs states held ?now \<le> 0"
    using sec by (auto simp: reserve_section_def rd hd Let_def split: if_splits)
  obtain rs where rs: "ex (read_cmds bs) s1 = (Inr rs, s3)" "states = map2 (\<lambda>b r. parseBucket ft b r ?now) bs rs"
    using rd by (auto simp: readBuckets_def split: prod.splits sum.splits)
  have run: "runs (steady ?K) (read_cmds bs) (view s1) rs (view s3)" "\<forall>r \<in> set rs. \<not> is_err r"
    using valkey.exec_ok [OF assms(1) rs(1)] by auto
  have states: "states = map (\<lambda>b. stored_bucket ft (view s1) b ?now) bs"
    unfolding rs(2) by (rule read_steady [OF run]) (auto simp: order_keys_def)
  have live3: "live (view s3) k = live (view s) k" if "k \<in> ?K" for k
    using runs_live [OF run(1) that] live that by (auto simp: read_cmds_def)
  obtain qs where qs: "ex (inflight_cmds bs nodes ?now) s3 = (Inr qs, s4)" "held = bucket_cards (length bs) (length nodes) qs"
    using hd assms(4) by (auto simp: inflightCounts_def split: prod.splits sum.splits)
  have run2: "runs (steady ?K) (inflight_cmds bs nodes ?now) (view s3) qs (view s4)" "\<forall>r \<in> set qs. \<not> is_err r"
    using valkey.exec_ok [OF assms(1) qs(1)] by auto
  have held: "held = map (\<lambda>b. held_orders (view s3) b nodes ?now) bs"
    unfolding qs(2) by (rule bucket_cards_runs [OF run2 assms(3)]) (auto simp: order_keys_def)
  let ?st = "stored_bucket ft (view s) b ?now" and ?h = "held_orders (view s) b nodes ?now"
  have "budgetKey b \<in> ?K" "\<And>node. node \<in> set nodes \<Longrightarrow> inflightKey b node \<in> ?K" using assms(6) by (auto simp: order_keys_def)
  then have same: "stored_bucket ft (view s1) b ?now = ?st" "held_orders (view s3) b nodes ?now = ?h"
    using live live3 by (auto simp: stored_bucket_def hash_of_def intro!: held_orders_cong)
  have "(b, ?st, ?h) \<in> set (zip bs (zip states held))"
    using assms(6) same unfolding states held by (auto simp: in_set_conv_nth in_set_zip)
  then have "\<not> f64 (tokensAt b ?st ?now - float64 ?h) < 1"
    using fold_wait_none [where c = Second and P = "\<lambda>p. f64 (tokensAt (fst p) (fst (snd p)) ?now - float64 (snd (snd p))) < 1"
        and f = "\<lambda>p. waitFor (fst p) (fst (snd p)) ?now (f64 (float64 (snd (snd p)) + 1))" and xs = "zip bs (zip states held)" and w = 0 and x = "(b, ?st, ?h)"] wait
    by (simp add: reserve_wait_def case_prod_beta split_def)
  moreover have "sane_tokens b (tokensAt b ?st ?now)"
  proof (rule tokensAt_sane(1))
    show w: "wf_bucket b" using assms(2,6) by simp
    show "sane_tokens b (st_tokens ?st)"
      using assms(2,6) full_sane [OF w, of ?now] by (auto simp: stored_bucket_def parseBucket_def stored_ok_def split: option.splits)
  qed
  moreover have "0 \<le> ?h" by (auto simp: held_orders_def in_flight_def intro!: sum_list_nonneg)
  ultimately show ?thesis
    using held_below [of "tokensAt b ?st ?now" ?h] wf_capacity [of b] assms(2,6) by (auto simp: sane_tokens_def)
qed

lemma expire_no_error: "\<not> is_err (fst (cmd_sem (EXPIRE_NX k d) v))" "\<not> is_err (fst (cmd_sem (EXPIRE_GT k d) v))"
  by (simp_all split: option.split)

definition demo_orders :: vstate where
  "demo_orders = \<lparr>clock = 0, keyspace = [inflightKey demo_bucket ''n1'' \<mapsto> (VZSet [(''m'', 60000)], Some 120000)]\<rparr>"

theorem ReserveACME_within_budget_witness:
  "of_int (held_orders (id demo_orders) demo_bucket [''n1'', ''n2''] 0) + 1 \<le>
     tokensAt demo_bucket (stored_bucket demo_text (id demo_orders) demo_bucket 0) 0 \<and> held_orders demo_orders demo_bucket [''n1'', ''n2''] 0 = 1"
proof -
  let ?s = "demo_orders" and ?nodes = "[''n1'', ''n2'']" and ?io = "demo_lock_io 0"
  have f [simp]: "float64 0 = 0" "float64 1 = 1" "float64 2 = 2" "f64 1 = 1" "f64 2 = 2"
    using float64_exact [of 1] float64_exact [of 2] by (simp_all add: float64_def)
  have c: "bk_Capacity demo_bucket = 2" "bk_Refill demo_bucket = 50000000" by (simp_all add: demo_bucket_def demo_rate_def Rate_Bucket_def go_div_def)
  have k: "inflightKey demo_bucket ''n1'' \<noteq> inflightKey demo_bucket ''n2''" "budgetLockKey x \<noteq> inflightKey b n" "budgetLockKey x \<noteq> budgetKey b" "budgetKey b \<noteq> inflightKey b' n"
    for x b b' n by (simp_all add: inflightKey_def budgetLockKey_def budgetKey_def)
  have held: "held_orders demo_orders demo_bucket ?nodes 0 = 1"
    using k(1) by (simp add: held_orders_def in_flight_def zset_of_def live_def demo_orders_def zcard_def UnixMilli_def)
  define s1 where "s1 = put ?s (budgetLockKey ''gts'') (VStr ''tok'') (ttl_at ?s budgetLockTTL)"
  have live1: "live s1 (inflightKey demo_bucket ''n1'') = Some (VZSet [(''m'', 60000)], Some 120000)"
    "live s1 (inflightKey demo_bucket ''n2'') = None" "live s1 (budgetKey demo_bucket) = None" "clock s1 = 0"
    using k [symmetric] k by (auto simp: s1_def vk_simps live_def demo_orders_def)
  have lock: "do1 mem_exec (SETNX (budgetLockKey ''gts'') ''tok'' budgetLockTTL) ?s = (Inr (RBool True), s1)"
    using k by (simp add: do1_def mem_exec_def net_exec_def s1_def live_def demo_orders_def)
  have rd: "readBuckets mem_exec demo_text [demo_bucket] 0 s1 = (Inr [full_bucket demo_bucket 0], s1)"
    by (simp add: readBuckets_def read_cmds_def mem_exec_def net_exec_def is_hash_def hash_of_def live1 parseBucket_def)
  define s2 where "s2 = put s1 (inflightKey demo_bucket ''n1'') (VZSet [(''m'', 60000)]) (Some 120000)"
  have cnt: "inflightCounts mem_exec [demo_bucket] ?nodes 0 s1 = (Inr [1], del s2 (inflightKey demo_bucket ''n2''))"
    using k(1) by (simp add: inflightCounts_def inflight_cmds_def mem_exec_def net_exec_def is_zset_def zset_of_def expiry_of_def live1 put_zset_def
        vk_simps s2_def UnixMilli_def zcard_def)
  have wait: "reserve_wait [demo_bucket] [full_bucket demo_bucket 0] [1] 0 = 0"
    by (simp add: reserve_wait_def tokensAt_def full_bucket_def c)
  obtain s3 where "run_cmds mem_exec (reserve_cmds [demo_bucket] ''n1'' ''x'' Minute 0) (True, 0 :: duration) (del s2 (inflightKey demo_bucket ''n2'')) = (Inr (True, 0), s3)"
    using k(1) expire_no_error
    by (simp add: run_cmds_def reserve_cmds_def mem_exec_def net_exec_def is_zset_def zset_of_def live1 s2_def vk_simps del: cmd_sem.simps(8,9))
  then obtain s' where run: "ReserveACME mem_exec demo_text ?io ''gts'' [demo_bucket] ''n1'' ''x'' Minute ?nodes ?s = (Inr (True, 0), s')"
    using lock by (simp add: ReserveACME_def withBudgetLock_def budgetLockTries_def numeral_eq_Suc demo_lock_io_def reserve_section_def rd cnt wait)
  have pre: "\<forall>b \<in> set [demo_bucket]. wf_bucket b \<and> stored_ok demo_text b (id ?s)"
    using Rate_Bucket_wf k(4) by (simp add: demo_bucket_def demo_rate_def stored_ok_def hash_of_def live_def demo_orders_def)
  show ?thesis
    using ReserveACME_within_budget [OF mem_steady pre _ _ run] k(1) held by (simp add: demo_lock_io_def)
qed

end
