(* ===== verification/Acme_Order.thy ===== *)
theory Acme_Order
  imports Acme_Budget Challenge_Store
begin

text \<open>
  One certificate order and its requests (\<^verbatim>\<open>src/internal/acme/budget.go\<close>, \<^verbatim>\<open>track.go\<close>, \<^verbatim>\<open>transport.go\<close>,
  \<^verbatim>\<open>challenge_providers.go\<close>): which budgets an order and a request draw on, the record of what an order has sent, and the transport
  that paces every request to a certificate authority, keeps to its waits and learns from its answers. The authority and the network are
  arguments: a call says what it answers. The list of public suffixes, JSON and HTTP dates are arguments too.
\<close>

subsection \<open>Which budgets\<close>

definition CALetsEncrypt :: string where "CALetsEncrypt = ''letsencrypt''"
definition CAGTS :: string where "CAGTS = ''gts''"
definition CAZeroSSL :: string where "CAZeroSSL = ''zerossl''"

record Budgets =
  bg_Domain :: string
  bg_LEDomain :: Rate
  bg_LEOrders :: Rate
  bg_LEName :: Rate
  bg_GTSOrders :: Rate
  bg_GTSRequests :: Rate
  bg_GTSCertPolls :: Rate
  bg_ZeroSSLOrders :: Rate
  bg_ZeroSSLRequests :: Rate

record account =
  ac_ca :: string
  ac_id :: string
  ac_label :: string
  ac_timeout :: duration

text \<open>\<open>etld1\<close> is \<^verbatim>\<open>publicsuffix.EffectiveTLDPlusOne\<close>.\<close>

definition registeredDomain :: "(string \<Rightarrow> string) \<Rightarrow> (string \<Rightarrow> string option) \<Rightarrow> string \<Rightarrow> string" where
  "registeredDomain uni etld1 fqdn =
     (let name = ToLower uni (TrimSuffix fqdn ''.'') in case etld1 name of None \<Rightarrow> name | Some d \<Rightarrow> d)"

definition leDomain :: "(string \<Rightarrow> string) \<Rightarrow> (string \<Rightarrow> string option) \<Rightarrow> Budgets \<Rightarrow> string \<Rightarrow> Bucket" where
  "leDomain uni etld1 b fqdn = Rate_Bucket (bg_LEDomain b) (''letsencrypt:domain:'' @ registeredDomain uni etld1 fqdn)"

definition leOrders :: "Budgets \<Rightarrow> account \<Rightarrow> Bucket" where
  "leOrders b a = Rate_Bucket (bg_LEOrders b) (''letsencrypt:orders:'' @ ac_id a)"

definition leName :: "Budgets \<Rightarrow> string \<Rightarrow> Bucket" where
  "leName b fqdn = Rate_Bucket (bg_LEName b) (''letsencrypt:name:'' @ fqdn)"

definition gtsOrders :: "Budgets \<Rightarrow> account \<Rightarrow> Bucket" where
  "gtsOrders b a = Rate_Bucket (bg_GTSOrders b) (''gts:orders:'' @ ac_id a)"

definition gtsRequests :: "Budgets \<Rightarrow> account \<Rightarrow> Bucket" where
  "gtsRequests b a = Rate_Bucket (bg_GTSRequests b) (''gts:requests:'' @ ac_id a)"

definition gtsCertPolls :: "Budgets \<Rightarrow> account \<Rightarrow> Bucket" where
  "gtsCertPolls b a = Rate_Bucket (bg_GTSCertPolls b) (''gts:cert:'' @ ac_id a)"

definition zerosslOrders :: "Budgets \<Rightarrow> account \<Rightarrow> Bucket" where
  "zerosslOrders b a = Rate_Bucket (bg_ZeroSSLOrders b) (''zerossl:orders:'' @ ac_id a)"

definition zerosslRequests :: "Budgets \<Rightarrow> account \<Rightarrow> Bucket" where
  "zerosslRequests b a = Rate_Bucket (bg_ZeroSSLRequests b) (''zerossl:requests:'' @ ac_id a)"

definition no_bucket :: Bucket where "no_bucket = \<lparr>bk_Key = [], bk_Capacity = 0, bk_Refill = 0\<rparr>"

definition gtsRequestsPerOrder :: int where "gtsRequestsPerOrder = 9"
definition zerosslRequestsPerOrder :: int where "zerosslRequestsPerOrder = 9"

definition prepayBucket :: "Budgets \<Rightarrow> account \<Rightarrow> Bucket \<times> int" where
  "prepayBucket b a =
     (if ac_ca a = CAGTS then (gtsRequests b a, gtsRequestsPerOrder)
      else if ac_ca a = CAZeroSSL then (zerosslRequests b a, zerosslRequestsPerOrder)
      else (no_bucket, 0))"

text \<open>The buckets paid when the order is created, and those paid when it succeeds.\<close>

definition orderBuckets ::
  "(string \<Rightarrow> string) \<Rightarrow> (string \<Rightarrow> string option) \<Rightarrow> Budgets \<Rightarrow> account \<Rightarrow> string \<Rightarrow> bool \<Rightarrow> Bucket list \<times> Bucket list" where
  "orderBuckets uni etld1 b a fqdn leRenewal =
     (if ac_ca a = CALetsEncrypt then
        (if leRenewal then ([], [leName b fqdn]) else ([leOrders b a], [leName b fqdn, leDomain uni etld1 b fqdn]))
      else if ac_ca a = CAGTS then ([gtsOrders b a], [])
      else if ac_ca a = CAZeroSSL then ([zerosslOrders b a], [])
      else ([], []))"

fun Contains :: "string \<Rightarrow> string \<Rightarrow> bool" where
  "Contains [] sub = (sub = [])"
| "Contains (c # s) sub = (HasPrefix (c # s) sub \<or> Contains s sub)"

record acme_request =
  aq_Method :: string
  aq_URL :: string
  aq_Path :: string

definition requestBuckets :: "Budgets \<Rightarrow> account \<Rightarrow> acme_request \<Rightarrow> Bucket list" where
  "requestBuckets b a req =
     (if ac_ca a = CAGTS then
        (if Contains (aq_Path req) ''/cert/'' then [gtsRequests b a, gtsCertPolls b a] else [gtsRequests b a])
      else if ac_ca a = CAZeroSSL then [zerosslRequests b a]
      else [])"

definition accountBuckets :: "(string \<Rightarrow> string) \<Rightarrow> (string \<Rightarrow> string option) \<Rightarrow> Budgets \<Rightarrow> account \<Rightarrow> (string \<times> Bucket) list" where
  "accountBuckets uni etld1 b a =
     (if ac_ca a = CALetsEncrypt then [(''domain'', leDomain uni etld1 b (bg_Domain b)), (''orders'', leOrders b a)]
      else if ac_ca a = CAGTS then [(''orders'', gtsOrders b a), (''requests'', gtsRequests b a), (''cert-polls'', gtsCertPolls b a)]
      else if ac_ca a = CAZeroSSL then [(''orders'', zerosslOrders b a), (''requests'', zerosslRequests b a)]
      else [])"

definition ordersBucket :: "Budgets \<Rightarrow> account \<Rightarrow> Bucket" where
  "ordersBucket b a =
     (if ac_ca a = CAGTS then gtsOrders b a else if ac_ca a = CAZeroSSL then zerosslOrders b a else leOrders b a)"

subsection \<open>What an order has sent\<close>

text \<open>The one clean-up an order leaves for when it is abandoned: removing its tls-alpn-01 answer.\<close>

datatype cleanup = DropALPN string string

record orderTrack =
  ot_name :: Bucket
  ot_domain :: Bucket
  ot_orderURL :: string
  ot_finalizeURL :: string
  ot_finalizedAt :: int
  ot_lastPoll :: int
  ot_created :: bool
  ot_orderSent :: bool
  ot_finalSent :: bool
  ot_cleanups :: "cleanup list"
  ot_prepaidKey :: string
  ot_prepaidMark :: string
  ot_prepaid :: int
  ot_limited :: "duration option"
  ot_done :: bool

record orderOutcome =
  oo_created :: bool
  oo_finalized :: bool
  oo_abandoned :: bool

datatype sentRequest = sentOther | sentOrder | sentFinalize

abbreviation no_time :: int where "no_time \<equiv> - zero_time"

definition newOrderTrack :: "Bucket \<Rightarrow> Bucket \<Rightarrow> orderTrack" where
  "newOrderTrack name domain =
     \<lparr>ot_name = name, ot_domain = domain, ot_orderURL = [], ot_finalizeURL = [], ot_finalizedAt = no_time, ot_lastPoll = no_time,
      ot_created = False, ot_orderSent = False, ot_finalSent = False, ot_cleanups = [], ot_prepaidKey = [], ot_prepaidMark = [],
      ot_prepaid = 0, ot_limited = None, ot_done = False\<rparr>"

definition setPrepaid :: "string \<Rightarrow> int \<Rightarrow> string \<Rightarrow> orderTrack \<Rightarrow> orderTrack" where
  "setPrepaid k n mark t = t\<lparr>ot_prepaidKey := k, ot_prepaid := n, ot_prepaidMark := mark\<rparr>"

definition dropPrepaid :: "string \<Rightarrow> bool \<Rightarrow> orderTrack \<Rightarrow> int \<times> orderTrack" where
  "dropPrepaid mark known t =
     (if known \<and> (mark = [] \<or> mark = ot_prepaidMark t) then (0, t) else (ot_prepaid t, t\<lparr>ot_prepaid := 0\<rparr>))"

definition usePrepaid :: "orderTrack \<Rightarrow> string option \<times> orderTrack" where
  "usePrepaid t = (if ot_prepaid t \<le> 0 then (None, t) else (Some (ot_prepaidKey t), t\<lparr>ot_prepaid := ot_prepaid t - 1\<rparr>))"

definition returnPrepaid :: "orderTrack \<Rightarrow> orderTrack" where
  "returnPrepaid t = t\<lparr>ot_prepaid := ot_prepaid t + 1\<rparr>"

definition drainPrepaid :: "orderTrack \<Rightarrow> (int \<times> string) \<times> orderTrack" where
  "drainPrepaid t = ((ot_prepaid t, ot_prepaidMark t), t\<lparr>ot_prepaid := 0\<rparr>)"

definition finalizeSent :: "orderTrack \<Rightarrow> bool" where
  "finalizeSent t \<longleftrightarrow> ot_finalSent t \<or> ot_finalizedAt t \<noteq> no_time"

definition abandon :: "orderTrack \<Rightarrow> orderTrack" where "abandon t = t\<lparr>ot_done := True\<rparr>"

text \<open>The channel holds one value; a second signal is dropped.\<close>

definition signalLimited :: "duration \<Rightarrow> orderTrack \<Rightarrow> orderTrack" where
  "signalLimited d t = (if ot_limited t = None then t\<lparr>ot_limited := Some d\<rparr> else t)"

definition onAbandon :: "cleanup \<Rightarrow> orderTrack \<Rightarrow> orderTrack" where
  "onAbandon f t = t\<lparr>ot_cleanups := ot_cleanups t @ [f]\<rparr>"

definition takeCleanups :: "orderTrack \<Rightarrow> cleanup list \<times> orderTrack" where
  "takeCleanups t = (ot_cleanups t, t\<lparr>ot_cleanups := []\<rparr>)"

definition setOrder :: "string \<Rightarrow> string \<Rightarrow> orderTrack \<Rightarrow> orderTrack" where
  "setOrder orderURL finalizeURL t = t\<lparr>ot_orderURL := orderURL, ot_finalizeURL := finalizeURL, ot_created := True\<rparr>"

definition isFinalize :: "string \<Rightarrow> orderTrack \<Rightarrow> bool" where
  "isFinalize u t \<longleftrightarrow> ot_finalizeURL t \<noteq> [] \<and> u = ot_finalizeURL t"

definition markFinalized :: "int \<Rightarrow> orderTrack \<Rightarrow> orderTrack" where
  "markFinalized now t = t\<lparr>ot_finalizedAt := now\<rparr>"

definition isPoll :: "string \<Rightarrow> orderTrack \<Rightarrow> bool" where
  "isPoll u t \<longleftrightarrow> ot_finalizedAt t \<noteq> no_time \<and> u = ot_orderURL t"

definition pollDue :: "duration \<Rightarrow> duration \<Rightarrow> orderTrack \<Rightarrow> int" where
  "pollDue first every t =
     (let due = ot_finalizedAt t + first
      in if ot_lastPoll t \<noteq> no_time \<and> ot_lastPoll t + every > due then ot_lastPoll t + every else due)"

definition markPoll :: "int \<Rightarrow> orderTrack \<Rightarrow> orderTrack" where
  "markPoll now t = t\<lparr>ot_lastPoll := now\<rparr>"

definition markSent :: "string \<Rightarrow> string \<Rightarrow> orderTrack \<Rightarrow> sentRequest \<times> orderTrack" where
  "markSent meth u t =
     (if ot_finalizeURL t \<noteq> [] \<and> u = ot_finalizeURL t then (sentFinalize, t\<lparr>ot_finalSent := True\<rparr>)
      else if \<not> ot_created t \<and> meth = ''POST'' then (sentOrder, t\<lparr>ot_orderSent := True\<rparr>)
      else (sentOther, t))"

fun markAnswered :: "sentRequest \<Rightarrow> orderTrack \<Rightarrow> orderTrack" where
  "markAnswered sentOrder t = t\<lparr>ot_orderSent := False\<rparr>"
| "markAnswered sentFinalize t = t\<lparr>ot_finalSent := False\<rparr>"
| "markAnswered sentOther t = t"

definition track_outcome :: "orderTrack \<Rightarrow> orderOutcome" where
  "track_outcome t =
     \<lparr>oo_created = (ot_created t \<or> ot_orderSent t), oo_finalized = (ot_finalizedAt t \<noteq> no_time \<or> ot_finalSent t), oo_abandoned = ot_done t\<rparr>"

definition resyncBuckets :: "Budgets \<Rightarrow> account \<Rightarrow> string \<Rightarrow> orderTrack option \<Rightarrow> Bucket list" where
  "resyncBuckets b a detail tr =
     (if ac_ca a = CALetsEncrypt then
        (if Contains detail ''#new-orders-per-account'' then [leOrders b a]
         else case tr of
           None \<Rightarrow> []
         | Some t \<Rightarrow>
             if Contains detail ''#new-certificates-per-registered-domain'' \<and> bk_Key (ot_domain t) \<noteq> [] then [ot_domain t]
             else if Contains detail ''#new-certificates-per-exact-set-of-identifiers'' \<and> bk_Key (ot_name t) \<noteq> [] then [ot_name t]
             else [])
      else if ac_ca a = CAGTS then
        (if Contains detail (''resource '' @ [CHR 0x22] @ ''cert'' @ [CHR 0x22]) then [gtsCertPolls b a] else [gtsRequests b a])
      else if ac_ca a = CAZeroSSL then [zerosslRequests b a]
      else [])"

subsection \<open>The challenge providers\<close>

definition alpn_Present ::
  "'s client \<Rightarrow> (string \<Rightarrow> string) \<Rightarrow> duration \<Rightarrow> string \<Rightarrow> string \<Rightarrow> orderTrack option \<Rightarrow> 's \<Rightarrow> (chal_err + unit) \<times> orderTrack option \<times> 's" where
  "alpn_Present ex uni ttl domain keyAuth tr s =
     (case PutTLSALPN ex uni ttl domain keyAuth s of
        (Inl e, s1) \<Rightarrow> (Inl e, tr, s1)
      | (Inr _, s1) \<Rightarrow> (Inr (), map_option (onAbandon (DropALPN domain keyAuth)) tr, s1))"

definition alpn_CleanUp :: "'s client \<Rightarrow> (string \<Rightarrow> string) \<Rightarrow> string \<Rightarrow> string \<Rightarrow> 's \<Rightarrow> (chal_err + unit) \<times> 's" where
  "alpn_CleanUp ex uni domain keyAuth s = DeleteTLSALPN ex uni domain keyAuth s"

definition http_Present ::
  "'s client \<Rightarrow> (string \<Rightarrow> string) \<Rightarrow> duration \<Rightarrow> string \<Rightarrow> string \<Rightarrow> string \<Rightarrow> 's \<Rightarrow> (chal_err + unit) \<times> 's" where
  "http_Present ex uni ttl domain token keyAuth s = PutHTTP ex uni ttl domain token keyAuth s"

definition http_CleanUp ::
  "'s client \<Rightarrow> (string \<Rightarrow> string) \<Rightarrow> string \<Rightarrow> string \<Rightarrow> string \<Rightarrow> 's \<Rightarrow> (chal_err + unit) \<times> 's" where
  "http_CleanUp ex uni domain token keyAuth s = DeleteHTTP ex uni domain token keyAuth s"

primrec run_cleanup :: "'s client \<Rightarrow> (string \<Rightarrow> string) \<Rightarrow> cleanup \<Rightarrow> 's \<Rightarrow> 's" where
  "run_cleanup ex uni (DropALPN domain keyAuth) s = snd (DeleteTLSALPN ex uni domain keyAuth s)"

subsection \<open>The transport\<close>

datatype acme_err = errOrderAbandoned | errAccountCooling | errAccountBudget | ErrContext | ErrSend | ErrBody

definition maxACMEBody :: nat where "maxACMEBody = 1048576"

record transport =
  tp_acct :: account
  tp_budgets :: Budgets
  tp_cooldown :: duration
  tp_markTTL :: duration
  tp_firstPoll :: duration
  tp_pollEvery :: duration

text \<open>An answer; reading its body may fail (\<open>None\<close>).\<close>

record acme_response =
  ar_Status :: int
  ar_RetryAfter :: string
  ar_Location :: string
  ar_ContentType :: string
  ar_Link :: "string list"
  ar_Body :: "string option"

definition waitState :: "'s client \<Rightarrow> account \<Rightarrow> 's \<Rightarrow> (duration \<times> string \<times> bool) \<times> 's" where
  "waitState ex a s =
     (case CAWaitState ex (ac_id a) s of
        (Inl _, s1) \<Rightarrow> ((0, [], False), s1)
      | (Inr (cool, mark), s1) \<Rightarrow> ((cool, mark, True), s1))"

text \<open>How a pause ends, and one turn of the loop of \<^verbatim>\<open>before\<close> up to its pause: the clock where it is read, and the lock of the budgets.\<close>

datatype sleep_end = Slept | SleepContext | SleepAbandoned

record turn =
  tn_now :: int
  tn_now_mark :: int
  tn_lock :: lock_io
  tn_sleep :: sleep_end

datatype turn_result = Send bool | Pause duration

definition before_turn ::
  "'s client \<Rightarrow> float_text \<Rightarrow> transport \<Rightarrow> Bucket list \<Rightarrow> bool \<Rightarrow> turn \<Rightarrow> duration \<times> string \<times> bool \<Rightarrow> orderTrack \<Rightarrow> 's
   \<Rightarrow> turn_result \<times> orderTrack \<times> 's" where
  "before_turn ex ft tp bs poll tn w tr s =
     (case w of (cool, mark, known) \<Rightarrow>
      if cool > 0 then (Pause cool, tr, s)
      else if poll \<and> pollDue (tp_firstPoll tp) (tp_pollEvery tp) tr - tn_now tn > 0
      then (Pause (pollDue (tp_firstPoll tp) (tp_pollEvery tp) tr - tn_now tn), tr, s)
      else
        let (_, tr1) = dropPrepaid mark known tr; (k, tr2) = usePrepaid tr1;
            charge = (case k of None \<Rightarrow> bs | Some k \<Rightarrow> filter (\<lambda>b. bk_Key b \<noteq> k) bs);
            (r, s1) = TakeACME ex ft (tn_lock tn) (ac_ca (tp_acct tp)) charge s;
            wait = (case r of Inl _ \<Rightarrow> 0 | Inr d \<Rightarrow> d)
        in if wait \<le> 0 then (Send (k \<noteq> None), if poll then markPoll (tn_now_mark tn) tr2 else tr2, s1)
           else (Pause wait, if k \<noteq> None then returnPrepaid tr2 else tr2, s1))"

text \<open>The turns are what happens until the request may go out or is given up; \<open>None\<close> is a request still waiting after them.\<close>

fun before_loop ::
  "'s client \<Rightarrow> float_text \<Rightarrow> transport \<Rightarrow> Bucket list \<Rightarrow> bool \<Rightarrow> turn list \<Rightarrow> duration \<times> string \<times> bool \<Rightarrow> orderTrack \<Rightarrow> 's
   \<Rightarrow> ((acme_err + bool) \<times> orderTrack \<times> 's) option" where
  "before_loop ex ft tp bs poll [] w tr s = None"
| "before_loop ex ft tp bs poll (tn # turns) w tr s =
     (case before_turn ex ft tp bs poll tn w tr s of
        (Send paid, tr1, s1) \<Rightarrow> Some (Inr paid, tr1, s1)
      | (Pause d, tr1, s1) \<Rightarrow>
          (case tn_sleep tn of
             SleepContext \<Rightarrow> Some (Inl ErrContext, tr1, s1)
           | SleepAbandoned \<Rightarrow> Some (Inl errOrderAbandoned, tr1, s1)
           | Slept \<Rightarrow> (let (w1, s2) = waitState ex (tp_acct tp) s1 in before_loop ex ft tp bs poll turns w1 tr1 s2)))"

text \<open>\<^verbatim>\<open>before\<close> for a request outside an order, which never waits.\<close>

definition before_untracked ::
  "'s client \<Rightarrow> float_text \<Rightarrow> transport \<Rightarrow> lock_io \<Rightarrow> acme_request \<Rightarrow> 's \<Rightarrow> (acme_err + bool) \<times> 's" where
  "before_untracked ex ft tp io req s =
     (case waitState ex (tp_acct tp) s of
        ((cool, _, _), s1) \<Rightarrow>
          if cool > 0 then (Inl errAccountCooling, s1)
          else case TakeACME ex ft io (ac_ca (tp_acct tp)) (requestBuckets (tp_budgets tp) (tp_acct tp) req) s1 of
            (Inl _, s2) \<Rightarrow> (Inr False, s2)
          | (Inr wait, s2) \<Rightarrow> if wait > 0 then (Inl errAccountBudget, s2) else (Inr False, s2))"

definition before_tracked ::
  "'s client \<Rightarrow> float_text \<Rightarrow> transport \<Rightarrow> turn list \<Rightarrow> acme_request \<Rightarrow> orderTrack \<Rightarrow> 's \<Rightarrow> ((acme_err + bool) \<times> orderTrack \<times> 's) option" where
  "before_tracked ex ft tp turns req tr s =
     (if ot_done tr then Some (Inl errOrderAbandoned, tr, s)
      else case waitState ex (tp_acct tp) s of
        (w, s1) \<Rightarrow> before_loop ex ft tp (requestBuckets (tp_budgets tp) (tp_acct tp) req) (isPoll (aq_URL req) tr) turns w tr s1)"

text \<open>\<^verbatim>\<open>retryAfter\<close>: seconds, as a 64-bit duration, or an HTTP date; \<open>None\<close> is the error.\<close>

definition wrap64 :: "int \<Rightarrow> int" where "wrap64 x = (x + 2 ^ 63) mod 2 ^ 64 - 2 ^ 63"

definition retryAfter :: "(string \<Rightarrow> string) \<Rightarrow> (string \<Rightarrow> int option) \<Rightarrow> string \<Rightarrow> int \<Rightarrow> duration option" where
  "retryAfter uni parseTime v now =
     (let v = TrimSpace uni v in
      if v = [] then Some 0
      else case parse_int v of
        Some sec \<Rightarrow> Some (wrap64 (sec * Second))
      | None \<Rightarrow> map_option (\<lambda>t. t - now) (parseTime v))"

text \<open>Readers of the texts an authority sends: the \<^verbatim>\<open>detail\<close> of a problem, the \<^verbatim>\<open>finalize\<close> address of an order, and a date.\<close>

record acme_readers =
  rd_uni :: "string \<Rightarrow> string"
  rd_detail :: "string \<Rightarrow> string"
  rd_finalize :: "string \<Rightarrow> string option"
  rd_time :: "string \<Rightarrow> int option"

record trip_io =
  io_turns :: "turn list"
  io_lock :: lock_io
  io_abandons :: bool
  io_answer :: "acme_response option"
  io_now :: int
  io_mark1 :: string
  io_mark2 :: string

definition rateLimited ::
  "'s client \<Rightarrow> float_text \<Rightarrow> acme_readers \<Rightarrow> transport \<Rightarrow> trip_io \<Rightarrow> acme_response \<Rightarrow> orderTrack option \<Rightarrow> 's
   \<Rightarrow> (acme_err + acme_response) \<times> orderTrack option \<times> 's" where
  "rateLimited ex ft rdr tp io resp tr s =
     (let d0 = (case retryAfter (rd_uni rdr) (rd_time rdr) (ar_RetryAfter resp) (io_now io) of None \<Rightarrow> 0 | Some d \<Rightarrow> d);
          d = (if d0 \<le> 0 then tp_cooldown tp else d0);
          a = tp_acct tp;
          s1 = snd (SetCACooldown ex (ac_id a) d s);
          s2 = snd (MarkCALimited ex (io_mark1 io) (ac_id a) (tp_markTTL tp) s1);
          tr1 = map_option (signalLimited d) tr
      in case ar_Body resp of
           None \<Rightarrow> (Inl ErrBody, tr1, s2)
         | Some body \<Rightarrow>
             (let raw = take maxACMEBody body;
                  s3 = snd (ResyncACME ex ft (io_lock io) (ac_ca a) (resyncBuckets (tp_budgets tp) a (rd_detail rdr raw) tr1) d s2);
                  s4 = snd (MarkCALimited ex (io_mark2 io) (ac_id a) (tp_markTTL tp) s3)
              in (Inr (resp\<lparr>ar_Body := Some raw\<rparr>), tr1, s4)))"

definition observe ::
  "acme_readers \<Rightarrow> int \<Rightarrow> acme_request \<Rightarrow> acme_response \<Rightarrow> orderTrack \<Rightarrow> (acme_err + acme_response) \<times> orderTrack" where
  "observe rdr now req resp tr =
     (if isFinalize (aq_URL req) tr then
        (Inr resp, if go_div (ar_Status resp) 100 = 2 then markFinalized now tr else tr)
      else if ar_Status resp \<noteq> 201 \<or> ar_Location resp = [] \<or> ot_created tr then (Inr resp, tr)
      else case ar_Body resp of
        None \<Rightarrow> (Inl ErrBody, tr)
      | Some body \<Rightarrow>
          (let raw = take maxACMEBody body in
           (Inr (resp\<lparr>ar_Body := Some raw\<rparr>),
            case rd_finalize rdr raw of
              Some f \<Rightarrow> if f \<noteq> [] then setOrder (ar_Location resp) f tr else tr
            | None \<Rightarrow> tr)))"

definition validationPoll :: "string \<Rightarrow> string" where
  "validationPoll ca = (if ca = CAGTS then ''2'' else ''1'')"

text \<open>
  The two patterns of the \<^verbatim>\<open>Link\<close> header. A link value is an opening bracket, anything up to the first closing bracket, and what
  follows up to the next opening one; white space is ASCII's without the vertical tab.
\<close>

function link_values :: "string \<Rightarrow> string list" where
  "link_values s =
     (case dropWhile (\<lambda>c. c \<noteq> CHR ''<'') s of
        [] \<Rightarrow> []
      | c # u \<Rightarrow>
          (case dropWhile (\<lambda>c. c \<noteq> CHR ''>'') u of
             [] \<Rightarrow> []
           | e # t \<Rightarrow> (c # takeWhile (\<lambda>c. c \<noteq> CHR ''>'') u @ e # takeWhile (\<lambda>c. c \<noteq> CHR ''<'') t) # link_values (dropWhile (\<lambda>c. c \<noteq> CHR ''<'') t)))"
  by pat_completeness auto
termination
proof (relation "measure length")
  fix s c u e t
  assume "dropWhile (\<lambda>c. c \<noteq> CHR ''<'') s = c # u" "dropWhile (\<lambda>c. c \<noteq> CHR ''>'') u = e # t"
  then have "length (c # u) \<le> length s" "length (e # t) \<le> length u" by (metis length_dropWhile_le)+
  then show "(dropWhile (\<lambda>c. c \<noteq> CHR ''<'') t, s) \<in> measure length" using length_dropWhile_le [of "\<lambda>c. c \<noteq> CHR ''<''" t] by simp
qed simp

declare link_values.simps [simp del]

definition re_space :: "char \<Rightarrow> bool" where
  "re_space c \<longleftrightarrow> (of_char c :: nat) \<in> {9, 10, 12, 13, 32}"

fun alternateRel :: "string \<Rightarrow> bool" where
  "alternateRel [] = False"
| "alternateRel (c # s) =
     (c = CHR '';'' \<and> HasPrefix (dropWhile re_space s) (''rel='' @ [CHR 0x22] @ ''alternate'' @ [CHR 0x22]) \<or> alternateRel s)"

definition link_value :: "(string \<Rightarrow> string) \<Rightarrow> string \<Rightarrow> string" where
  "link_value uni lv = TrimSpace uni (rev (dropWhile (\<lambda>c. c = CHR '','') (rev (TrimSpace uni lv))))"

definition dropAlternateChains :: "(string \<Rightarrow> string) \<Rightarrow> acme_response \<Rightarrow> acme_response" where
  "dropAlternateChains uni resp =
     (if \<not> HasPrefix (ar_ContentType resp) ''application/pem-certificate-chain'' then resp
      else resp\<lparr>ar_Link := filter (\<lambda>lv. \<not> alternateRel lv) (map (link_value uni) (concat (map link_values (ar_Link resp))))\<rparr>)"

text \<open>
  \<^verbatim>\<open>roundTrip\<close>. Its first result says whether the request reached the network; \<open>None\<close> is a request that is still waiting.
\<close>

definition round_untracked ::
  "'s client \<Rightarrow> float_text \<Rightarrow> acme_readers \<Rightarrow> transport \<Rightarrow> trip_io \<Rightarrow> acme_request \<Rightarrow> 's \<Rightarrow> bool \<times> (acme_err + acme_response) \<times> 's" where
  "round_untracked ex ft rdr tp io req s =
     (case before_untracked ex ft tp (io_lock io) req s of
        (Inl e, s1) \<Rightarrow> (False, Inl e, s1)
      | (Inr _, s1) \<Rightarrow>
          (case io_answer io of
             None \<Rightarrow> (True, Inl ErrSend, s1)
           | Some resp \<Rightarrow>
               if ar_Status resp = 429 then (case rateLimited ex ft rdr tp io resp None s1 of (r, _, s2) \<Rightarrow> (True, r, s2))
               else (True, Inr resp, s1)))"

definition finish_response :: "acme_readers \<Rightarrow> string \<Rightarrow> acme_response \<Rightarrow> acme_response" where
  "finish_response rdr ca resp =
     (if go_div (ar_Status resp) 100 = 2
      then dropAlternateChains (rd_uni rdr) (if ar_RetryAfter resp = [] then resp\<lparr>ar_RetryAfter := validationPoll ca\<rparr> else resp)
      else resp)"

text \<open>The exchange with the authority, once the request is marked as sent.\<close>

definition exchange ::
  "'s client \<Rightarrow> float_text \<Rightarrow> acme_readers \<Rightarrow> transport \<Rightarrow> trip_io \<Rightarrow> acme_request \<Rightarrow> sentRequest \<Rightarrow> orderTrack \<Rightarrow> 's
   \<Rightarrow> (acme_err + acme_response) \<times> orderTrack \<times> 's" where
  "exchange ex ft rdr tp io req sent tr s =
     (case io_answer io of
        None \<Rightarrow> (Inl ErrSend, tr, s)
      | Some resp \<Rightarrow>
          if ar_Status resp = 429 then
            (case rateLimited ex ft rdr tp io resp (Some tr) s of
               (Inl e, t, s1) \<Rightarrow> (Inl e, the t, s1)
             | (Inr r, t, s1) \<Rightarrow> (Inr r, markAnswered sent (the t), s1))
          else
            (case observe rdr (io_now io) req resp tr of
               (Inl e, tr1) \<Rightarrow> (Inl e, tr1, s)
             | (Inr r, tr1) \<Rightarrow> (Inr (finish_response rdr (ac_ca (tp_acct tp)) r), markAnswered sent tr1, s)))"

definition round_tracked ::
  "'s client \<Rightarrow> float_text \<Rightarrow> acme_readers \<Rightarrow> transport \<Rightarrow> trip_io \<Rightarrow> acme_request \<Rightarrow> orderTrack \<Rightarrow> 's
   \<Rightarrow> (bool \<times> (acme_err + acme_response) \<times> orderTrack \<times> 's) option" where
  "round_tracked ex ft rdr tp io req tr s =
     (case before_tracked ex ft tp (io_turns io) req tr s of
        None \<Rightarrow> None
      | Some (Inl e, tr1, s1) \<Rightarrow> Some (False, Inl e, tr1, s1)
      | Some (Inr paid, tr1, s1) \<Rightarrow>
          (let (sent, tr2) = markSent (aq_Method req) (aq_URL req) tr1;
               tr3 = (if io_abandons io then abandon tr2 else tr2)
           in if ot_done tr3 then
                (let tr4 = markAnswered sent tr3
                 in Some (False, Inl errOrderAbandoned, if paid then returnPrepaid tr4 else tr4, s1))
              else case exchange ex ft rdr tp io req sent tr3 s1 of (r, tr4, s2) \<Rightarrow> Some (True, r, tr4, s2)))"

subsection \<open>What is left of the requests paid ahead\<close>

text \<open>The requests of one order, in the order the client library makes them, with the number that reached the network.\<close>

fun run_trips ::
  "'s client \<Rightarrow> float_text \<Rightarrow> acme_readers \<Rightarrow> transport \<Rightarrow> (trip_io \<times> acme_request) list \<Rightarrow> orderTrack \<Rightarrow> 's
   \<Rightarrow> (nat \<times> orderTrack \<times> 's) option" where
  "run_trips ex ft rdr tp [] tr s = Some (0, tr, s)"
| "run_trips ex ft rdr tp ((io, req) # trips) tr s =
     (case round_tracked ex ft rdr tp io req tr s of
        None \<Rightarrow> None
      | Some (sent, _, tr1, s1) \<Rightarrow>
          map_option (\<lambda>(n, tr2, s2). (n + (if sent then 1 else 0), tr2, s2)) (run_trips ex ft rdr tp trips tr1 s1))"

lemmas track_defs = setPrepaid_def dropPrepaid_def usePrepaid_def returnPrepaid_def abandon_def signalLimited_def onAbandon_def setOrder_def
  markFinalized_def markPoll_def

lemma prepaid_kept [simp]:
  "ot_prepaid (abandon t) = ot_prepaid t" "ot_prepaid (signalLimited d t) = ot_prepaid t" "ot_prepaid (markFinalized now t) = ot_prepaid t"
  "ot_prepaid (markPoll now t) = ot_prepaid t" "ot_prepaid (setOrder u f t) = ot_prepaid t" "ot_prepaid (markAnswered sr t) = ot_prepaid t"
  "ot_prepaid (snd (markSent m u t)) = ot_prepaid t" "ot_prepaid (returnPrepaid t) = ot_prepaid t + 1"
  by (simp_all add: track_defs markSent_def) (cases sr; simp)

lemma observe_prepaid: "observe rdr now req resp tr = (r, tr') \<Longrightarrow> ot_prepaid tr' = ot_prepaid tr"
  by (auto simp: observe_def Let_def split: if_splits option.splits)

lemma rateLimited_track: "rateLimited ex ft rdr tp io resp (Some tr) s = (r, tr', s') \<Longrightarrow> \<exists>d. tr' = Some (signalLimited d tr)"
  by (auto simp: rateLimited_def Let_def split: option.splits)

lemma exchange_prepaid: "exchange ex ft rdr tp io req sent tr s = (r, tr', s') \<Longrightarrow> ot_prepaid tr' = ot_prepaid tr"
  by (auto simp: exchange_def split: option.splits if_splits prod.splits sum.splits dest!: rateLimited_track observe_prepaid)

text \<open>A turn that sends uses one prepaid request if there is one; a turn that pauses keeps the number; either may drop all.\<close>

lemma before_turn_prepaid:
  assumes "0 \<le> ot_prepaid tr"
  shows "before_turn ex ft tp bs poll tn w tr s = (Send paid, tr1, s1) \<Longrightarrow> ot_prepaid tr1 = (if paid then ot_prepaid tr - 1 else 0) \<and> (paid \<longrightarrow> 0 < ot_prepaid tr)"
    and "before_turn ex ft tp bs poll tn w tr s = (Pause d, tr1, s1) \<Longrightarrow> ot_prepaid tr1 = ot_prepaid tr \<or> ot_prepaid tr1 = 0"
  using assms
  by (auto simp: before_turn_def Let_def dropPrepaid_def usePrepaid_def returnPrepaid_def split: prod.splits if_splits sum.splits)

lemma before_loop_prepaid:
  assumes "before_loop ex ft tp bs poll turns w tr s = Some (r, tr', s')" "0 \<le> ot_prepaid tr"
  shows "case r of Inl _ \<Rightarrow> ot_prepaid tr' = ot_prepaid tr \<or> ot_prepaid tr' = 0
     | Inr paid \<Rightarrow> ot_prepaid tr' = (if paid then ot_prepaid tr - 1 else 0) \<and> (paid \<longrightarrow> 0 < ot_prepaid tr)"
  using assms
proof (induct ex ft tp bs poll turns w tr s rule: before_loop.induct)
  case (2 ex ft tp bs poll tn turns w tr s)
  obtain res tr1 s1 where b: "before_turn ex ft tp bs poll tn w tr s = (res, tr1, s1)" by (metis surj_pair)
  show ?case
  proof (cases res)
    case (Send paid)
    then show ?thesis using "2.prems" before_turn_prepaid(1) [of tr ex ft tp bs poll tn w s paid tr1 s1] b by auto
  next
    case (Pause d)
    have p: "ot_prepaid tr1 = ot_prepaid tr \<or> ot_prepaid tr1 = 0" by (rule before_turn_prepaid(2) [OF "2.prems"(2) b [unfolded Pause]])
    show ?thesis
    proof (cases "tn_sleep tn")
      case Slept
      obtain w1 s2 where w: "waitState ex (tp_acct tp) s1 = (w1, s2)" by (meson surj_pair)
      have "before_loop ex ft tp bs poll turns w1 tr1 s2 = Some (r, tr', s')" using "2.prems"(1) b Pause Slept w by simp
      from "2.hyps" [OF b [symmetric] Pause refl Slept w [symmetric] refl this] p "2.prems"(2)
      show ?thesis by (auto split: sum.splits if_splits)
    qed (use "2.prems" b Pause p in auto)
  qed
qed simp

lemma round_tracked_prepaid:
  assumes "round_tracked ex ft rdr tp io req tr s = Some (sent, r, tr', s')" "0 \<le> ot_prepaid tr"
  shows "ot_prepaid tr' = (if sent then max 0 (ot_prepaid tr - 1) else ot_prepaid tr) \<or> ot_prepaid tr' = 0"
proof -
  obtain q tr1 s1 where b: "before_tracked ex ft tp (io_turns io) req tr s = Some (q, tr1, s1)"
    using assms(1) by (auto simp: round_tracked_def split: option.splits)
  have p: "case q of Inl _ \<Rightarrow> ot_prepaid tr1 = ot_prepaid tr \<or> ot_prepaid tr1 = 0
     | Inr paid \<Rightarrow> ot_prepaid tr1 = (if paid then ot_prepaid tr - 1 else 0) \<and> (paid \<longrightarrow> 0 < ot_prepaid tr)"
  proof (cases "ot_done tr")
    case False
    obtain w s0 where "waitState ex (tp_acct tp) s = (w, s0)" by (meson surj_pair)
    then have "before_loop ex ft tp (requestBuckets (tp_budgets tp) (tp_acct tp) req) (isPoll (aq_URL req) tr) (io_turns io) w tr s0 = Some (q, tr1, s1)"
      using b False by (simp add: before_tracked_def)
    then show ?thesis by (rule before_loop_prepaid [OF _ assms(2)])
  qed (use b in \<open>auto simp: before_tracked_def\<close>)
  show ?thesis
  proof (cases q)
    case (Inl e)
    then show ?thesis using assms(1) b p by (simp add: round_tracked_def)
  next
    case (Inr paid)
    obtain snt tr2 where m: "markSent (aq_Method req) (aq_URL req) tr1 = (snt, tr2)" by (meson surj_pair)
    then have tr2: "ot_prepaid tr2 = ot_prepaid tr1" using prepaid_kept(7) [of "aq_Method req" "aq_URL req" tr1] by simp
    define tr3 where "tr3 = (if io_abandons io then abandon tr2 else tr2)"
    have tr3: "ot_prepaid tr3 = ot_prepaid tr1" using tr2 by (simp add: tr3_def)
    have sends: "sent \<Longrightarrow> ot_prepaid tr' = ot_prepaid tr1" "\<not> sent \<Longrightarrow> ot_prepaid tr' = ot_prepaid tr1 + (if paid then 1 else 0)"
      using assms(1) tr3 unfolding round_tracked_def b Inr
      by (cases "ot_done tr3"; auto simp: m Let_def split: prod.splits simp flip: tr3_def dest: exchange_prepaid)+
    then show ?thesis using p Inr by (auto split: if_splits)
  qed
qed

text \<open>
  C36. An order never gets back a prepaid request it used. Whatever requests it makes, with pauses, failures and rate-limit answers in between,
  what is left for the refund is what was paid ahead less the requests that reached the network, or nothing; a request given up
  before it was sent costs the order nothing.
\<close>

theorem prepaid_left:
  assumes "run_trips ex ft rdr tp trips tr s = Some (n, tr', s')" "0 \<le> ot_prepaid tr"
  shows "ot_prepaid tr' = max 0 (ot_prepaid tr - int n) \<or> ot_prepaid tr' = 0"
  using assms
proof (induct trips arbitrary: tr s n)
  case (Cons t trips)
  obtain io req where t: "t = (io, req)" by (meson surj_pair)
  obtain sent r tr1 s1 where rt: "round_tracked ex ft rdr tp io req tr s = Some (sent, r, tr1, s1)"
    using Cons.prems(1) t by (auto split: option.splits)
  obtain m where m: "run_trips ex ft rdr tp trips tr1 s1 = Some (m, tr', s')" "n = m + (if sent then 1 else 0)"
    using Cons.prems(1) t rt by auto
  have p: "ot_prepaid tr1 = (if sent then max 0 (ot_prepaid tr - 1) else ot_prepaid tr) \<or> ot_prepaid tr1 = 0"
    by (rule round_tracked_prepaid [OF rt Cons.prems(2)])
  then have "0 \<le> ot_prepaid tr1" using Cons.prems(2) by auto
  from Cons.hyps [OF m(1) this] p m(2) show ?case by (auto split: if_splits)
qed simp

definition demo_transport :: transport where
  "demo_transport = \<lparr>tp_acct = \<lparr>ac_ca = CALetsEncrypt, ac_id = ''a'', ac_label = ''a'', ac_timeout = Minute\<rparr>,
     tp_budgets = \<lparr>bg_Domain = ''t.test'', bg_LEDomain = demo_rate, bg_LEOrders = demo_rate, bg_LEName = demo_rate, bg_GTSOrders = demo_rate,
       bg_GTSRequests = demo_rate, bg_GTSCertPolls = demo_rate, bg_ZeroSSLOrders = demo_rate, bg_ZeroSSLRequests = demo_rate\<rparr>,
     tp_cooldown = Hour, tp_markTTL = Hour, tp_firstPoll = Second, tp_pollEvery = Second\<rparr>"

definition demo_readers :: acme_readers where
  "demo_readers = \<lparr>rd_uni = id, rd_detail = (\<lambda>_. []), rd_finalize = (\<lambda>_. Some ''/f''), rd_time = (\<lambda>_. None)\<rparr>"

definition demo_trip :: "sleep_end \<Rightarrow> acme_response option \<Rightarrow> int \<Rightarrow> trip_io" where
  "demo_trip pause answer now =
     \<lparr>io_turns = [\<lparr>tn_now = now, tn_now_mark = now, tn_lock = demo_lock_io now, tn_sleep = pause\<rparr>], io_lock = demo_lock_io now,
      io_abandons = False, io_answer = answer, io_now = now, io_mark1 = ''m1'', io_mark2 = ''m2''\<rparr>"

definition demo_answer :: acme_response where
  "demo_answer = \<lparr>ar_Status = 201, ar_RetryAfter = [], ar_Location = ''/o'', ar_ContentType = [], ar_Link = [], ar_Body = Some []\<rparr>"

definition demo_track :: orderTrack where
  "demo_track = setPrepaid ''k'' 9 [] (newOrderTrack no_bucket no_bucket)"

definition demo_post :: acme_request where "demo_post = \<lparr>aq_Method = ''POST'', aq_URL = ''/new-order'', aq_Path = ''/new-order''\<rparr>"

theorem prepaid_left_witness:
  "\<exists>tr' s'. run_trips mem_exec demo_text demo_readers demo_transport [(demo_trip Slept (Some demo_answer) 0, demo_post), (demo_trip Slept None 1, demo_post)]
      demo_track \<lparr>clock = 0, keyspace = Map.empty\<rparr> = Some (2, tr', s') \<and> (ot_prepaid tr' = 7 \<or> ot_prepaid tr' = 0)"
proof -
  let ?trips = "[(demo_trip Slept (Some demo_answer) 0, demo_post), (demo_trip Slept None 1, demo_post)]" and ?s = "\<lparr>clock = 0, keyspace = Map.empty\<rparr>"
  have w: "waitState mem_exec (tp_acct demo_transport) ?s = ((0, [], True), ?s)"
    by (simp add: waitState_def CAWaitState_def mem_exec_def net_exec_def live_def is_str_def str_of_def pttl_duration_def)
  have b: "requestBuckets (tp_budgets demo_transport) (tp_acct demo_transport) req = []" for req
    by (simp add: requestBuckets_def demo_transport_def CALetsEncrypt_def CAGTS_def CAZeroSSL_def)
  obtain tr' s' where run: "run_trips mem_exec demo_text demo_readers demo_transport ?trips demo_track ?s = Some (2, tr', s')"
    by (simp add: round_tracked_def before_tracked_def w b demo_track_def newOrderTrack_def setPrepaid_def demo_trip_def before_turn_def
        dropPrepaid_def usePrepaid_def TakeACME_def isPoll_def markSent_def demo_post_def exchange_def observe_def isFinalize_def
        demo_answer_def demo_readers_def setOrder_def zero_time_def)
  then show ?thesis using prepaid_left [OF run] by (simp add: demo_track_def setPrepaid_def)
qed

subsection \<open>What the authority may have counted is counted here\<close>

text \<open>What a track records of the order itself, which pacing never touches.\<close>

definition track_core :: "orderTrack \<Rightarrow> bool \<times> string \<times> string \<times> int \<times> bool \<times> bool" where
  "track_core t = (ot_created t, ot_finalizeURL t, ot_orderURL t, ot_finalizedAt t, ot_orderSent t, ot_finalSent t)"

lemma before_turn_core: "before_turn ex ft tp bs poll tn w tr s = (r, tr', s') \<Longrightarrow> track_core tr' = track_core tr"
  by (auto simp: before_turn_def Let_def track_core_def track_defs split: prod.splits if_splits sum.splits)

lemma before_loop_core: "before_loop ex ft tp bs poll turns w tr s = Some (r, tr', s') \<Longrightarrow> track_core tr' = track_core tr"
proof (induct turns arbitrary: w tr s)
  case (Cons tn turns)
  obtain res tr1 s1 where b: "before_turn ex ft tp bs poll tn w tr s = (res, tr1, s1)" by (metis surj_pair)
  show ?case
    using Cons before_turn_core [OF b] b by (auto split: turn_result.splits sleep_end.splits prod.splits)
qed simp

lemma before_tracked_core: "before_tracked ex ft tp turns req tr s = Some (r, tr', s') \<Longrightarrow> track_core tr' = track_core tr"
  using before_loop_core by (auto simp: before_tracked_def split: if_splits prod.splits)

lemma observe_lost: "observe rdr now req resp tr = (Inl e, tr') \<Longrightarrow> tr' = tr"
  by (auto simp: observe_def Let_def split: if_splits option.splits)

lemma exchange_lost: "exchange ex ft rdr tp io req sent tr s = (Inl e, tr', s') \<Longrightarrow> tr' = tr \<or> (\<exists>d. tr' = signalLimited d tr)"
  by (auto simp: exchange_def split: option.splits if_splits prod.splits sum.splits dest!: rateLimited_track observe_lost)

lemma signalLimited_core: "track_core (signalLimited d tr) = track_core tr"
  by (simp add: signalLimited_def track_core_def)

text \<open>
  C35. If a request that may create an order is sent and no answer is read (the connection fails, the answer is cut off), the order counts as created,
  and one that may finalize it counts as finalized; and a created or finalized order stays one. So a budget the authority may have charged
  is never given back.
\<close>

theorem unanswered_counts:
  assumes "round_tracked ex ft rdr tp io req tr s = Some (True, Inl e, tr', s')"
  shows "(isFinalize (aq_URL req) tr \<longrightarrow> oo_finalized (track_outcome tr'))
    \<and> (aq_Method req = ''POST'' \<and> \<not> isFinalize (aq_URL req) tr \<longrightarrow> oo_created (track_outcome tr'))
    \<and> (ot_created tr \<longrightarrow> ot_created tr') \<and> (ot_finalizedAt tr \<noteq> no_time \<longrightarrow> ot_finalizedAt tr' = ot_finalizedAt tr)"
proof -
  obtain paid tr1 s1 where b: "before_tracked ex ft tp (io_turns io) req tr s = Some (Inr paid, tr1, s1)"
    using assms by (auto simp: round_tracked_def split: option.splits sum.splits)
  have core: "track_core tr1 = track_core tr" by (rule before_tracked_core [OF b])
  obtain snt tr2 where m: "markSent (aq_Method req) (aq_URL req) tr1 = (snt, tr2)" by (meson surj_pair)
  define tr3 where "tr3 = (if io_abandons io then abandon tr2 else tr2)"
  have c3: "track_core tr3 = track_core tr2" by (simp add: tr3_def track_core_def abandon_def)
  have "track_core tr' = track_core tr3"
    using assms unfolding round_tracked_def b by (cases "ot_done tr3"; cases "exchange ex ft rdr tp io req snt tr3 s1") (auto simp: m Let_def signalLimited_core simp flip: tr3_def dest!: exchange_lost)
  then have eqs: "ot_created tr' = ot_created tr2" "ot_finalizedAt tr' = ot_finalizedAt tr2" "ot_orderSent tr' = ot_orderSent tr2"
      "ot_finalSent tr' = ot_finalSent tr2" "ot_created tr1 = ot_created tr" "ot_finalizedAt tr1 = ot_finalizedAt tr" "ot_finalizeURL tr1 = ot_finalizeURL tr"
    using c3 core by (simp_all add: track_core_def)
  have tr2: "tr2 = snd (markSent (aq_Method req) (aq_URL req) tr1)" by (simp add: m)
  show ?thesis unfolding track_outcome_def isFinalize_def eqs orderOutcome.select_convs tr2 markSent_def by (simp add: eqs)
qed

theorem unanswered_counts_witness:
  "\<exists>tr' s'. round_tracked mem_exec demo_text demo_readers demo_transport (demo_trip Slept None 0) demo_post demo_track \<lparr>clock = 0, keyspace = Map.empty\<rparr>
      = Some (True, Inl ErrSend, tr', s') \<and> oo_created (track_outcome tr')"
proof -
  let ?s = "\<lparr>clock = 0, keyspace = Map.empty\<rparr>"
  have w: "waitState mem_exec (tp_acct demo_transport) ?s = ((0, [], True), ?s)"
    by (simp add: waitState_def CAWaitState_def mem_exec_def net_exec_def live_def is_str_def str_of_def pttl_duration_def)
  have b: "requestBuckets (tp_budgets demo_transport) (tp_acct demo_transport) req = []" for req
    by (simp add: requestBuckets_def demo_transport_def CALetsEncrypt_def CAGTS_def CAZeroSSL_def)
  obtain tr' s' where run: "round_tracked mem_exec demo_text demo_readers demo_transport (demo_trip Slept None 0) demo_post demo_track ?s = Some (True, Inl ErrSend, tr', s')"
    by (simp add: round_tracked_def before_tracked_def w b demo_track_def newOrderTrack_def setPrepaid_def demo_trip_def before_turn_def
        dropPrepaid_def usePrepaid_def TakeACME_def isPoll_def markSent_def demo_post_def exchange_def zero_time_def)
  then show ?thesis
    using unanswered_counts [OF run] by (simp add: demo_post_def isFinalize_def demo_track_def newOrderTrack_def setPrepaid_def)
qed

end
