(* ===== verification/Spec2Isabelle.thy ===== *)
theory Spec2Isabelle
  imports Client_Hello Route_Locking Limiter_Props Edge_Props Dial_Backs Phone_Manager Conn_Log_Spool Phone_Handler Name_Claim
    Mesh_Props Reserved_Certs Acme_Order
begin

text \<open>
  A verification development for the tunnel daemon \<^verbatim>\<open>tunneld\<close> (\<^verbatim>\<open>src/internal\<close>). The daemon lets a phone be reached under a host
  name of its own: the phone keeps a control connection to one of several replicas, a public client connects to any replica, the edge of that
  replica reads the server name of the TLS handshake, finds the phone through a table all replicas share, has the phone dial back, and copies
  bytes both ways without decrypting them. Around this path there are limits per address and per tunnel, enrollment with an attested
  key, certificates from public authorities, a mesh between the replicas, and a log of every connection.

  \<^bold>\<open>How the program is modelled.\<close> A Go \<^verbatim>\<open>string\<close> is a \<^typ>\<open>string\<close>, \<^verbatim>\<open>[]byte\<close> a list of 8-bit words, times and durations are
  integers in nanoseconds, a struct is a record, an error is the left side of a sum. An operation is a function of the Go arguments and the
  state that returns the result and the new state. Objects behind pointers are entries of an explicit store, goroutines are
  interleaved steps, and what comes from outside (the clock, random bytes, the network, a context that ends) is an argument. The key-value
  service Valkey is the argument \<open>ex\<close> of every operation that uses it; the locale \<open>valkey\<close> states the documented effect of its commands, what
  other clients may do between two commands, and that a failed call executed some prefix of its pipeline. It is interpreted on a
  server in memory, and witnesses run the operations there.

  \<^bold>\<open>The theories and the sources they model.\<close>

  \<^item> \<open>Tunnel_Prelude\<close>, \<open>Go_Strings\<close>, \<open>Go_Time\<close>, \<open>Go_Asn1\<close>, \<open>Go_Float\<close>: shared lemmas, and the parts of Go's library the sources use (text and
    numbers, calendar dates, DER, \<^verbatim>\<open>float64\<close> rounding).

  \<^item> \<open>Wire_Frames\<close> (\<^verbatim>\<open>wire/frame.go\<close>, \<^verbatim>\<open>phoneconn/stream.go\<close>): control frames. Decoding accepts exactly what encoding produces.

  \<^item> \<open>Client_Hello\<close> (\<^verbatim>\<open>edge/clienthello.go\<close>): reading the server name out of a TLS record, and the JA4 fingerprint. Every
    well-formed hello is read back, in any order of its ciphers and extensions.

  \<^item> \<open>Valkey\<close>, \<open>Route_Registry\<close>, \<open>Route_Locking\<close> (\<^verbatim>\<open>router\<close>): the shared table of routes and nodes under a lock per name. Binding,
    self-healing and unbinding are atomic against every other holder of the lock.

  \<^item> \<open>Limiter\<close>, \<open>Limiter_Props\<close> (\<^verbatim>\<open>limit\<close>): rate windows, the cap on open connections, traffic windows, issuance and the wait state of an
    authority. The caps hold for any number of replicas, and what is killed for its traffic is refused at admission.

  \<^item> \<open>Edge_Splice\<close>, \<open>Edge_Streams\<close>, \<open>Edge_Tunnel\<close>, \<open>Edge_Props\<close> (\<^verbatim>\<open>edge\<close>): the copy in both directions with its watcher, the table of
    streams and its evictions, and the path of a public connection. Bytes are forwarded in order and counted exactly, the close reason is the one of
    the first event, a slot is given back once, and the ceiling on clients holds in every interleaving.

  \<^item> \<open>Dial_Backs\<close>, \<open>Phone_Manager\<close>, \<open>Phone_Handler\<close> (\<^verbatim>\<open>phoneconn\<close>): waiting for a phone to dial back, the table of connected phones, and the
    handler of the phone's requests. No connection is lost or delivered twice, a control stream leaves nothing behind and ends when the phone
    falls silent, and only an authenticated phone changes anything.

  \<^item> \<open>Attestation\<close>, \<open>Enrollment\<close>, \<open>Name_Claim\<close> (\<^verbatim>\<open>attest\<close>, \<^verbatim>\<open>enroll\<close>, \<^verbatim>\<open>ca\<close>): the seven points of an attestation down to the bytes of the
    extension, enrollment and issuance, and the claim of a name as a protocol between enrollments on any nodes, which the code refines.

  \<^item> \<open>Conn_Log_Spool\<close> (\<^verbatim>\<open>store/spool.go\<close>): the connection log between its queue, the files on disk and the object store, with every
    operation allowed to fail. Every event is accounted for and the directory stays under its cap.

  \<^item> \<open>Mesh_Client\<close>, \<open>Mesh_Control\<close>, \<open>Mesh_Props\<close> (\<^verbatim>\<open>mesh\<close>, \<^verbatim>\<open>server/serve.go\<close>, \<^verbatim>\<open>server/drain.go\<close>): requests between nodes. A node is its phone
    endpoint and its edge; a cluster is a map of nodes where each message and each answer may be lost. A refused request changes nothing, freeing a
    slot elsewhere ends at most one stream, a phone that is gone loses its streams everywhere, and a drain ends.

  \<^item> \<open>Challenge_Store\<close>, \<open>Reserved_Certs\<close> (\<^verbatim>\<open>acme/challenge_store.go\<close>, \<^verbatim>\<open>challenge_http.go\<close>, \<^verbatim>\<open>server/reserved.go\<close>): validation answers all
    replicas share, and the certificates of the daemon's own hosts. One order serves every replica, and no failure takes a certificate away.

  \<^item> \<open>Acme_Budget\<close>, \<open>Acme_Order\<close> (\<^verbatim>\<open>limit/acme_budget.go\<close>, \<^verbatim>\<open>acme/budget.go\<close>, \<^verbatim>\<open>track.go\<close>, \<^verbatim>\<open>transport.go\<close>, \<^verbatim>\<open>challenge_providers.go\<close>): token
    buckets against the limits of the authorities, and the requests of an order. A stored count stays between zero and the capacity, an order is
    granted only if it can be paid with all orders in progress, a lost answer counts as served, and prepaid requests are not refunded once used. The
    locale \<open>budget_keeper\<close> carries the first of these for any client and any set of buckets, and is interpreted on the server in memory.

  \<^bold>\<open>Bounds.\<close> Loops with a fixed number of tries have it as in the source (50 tries of a route lock, 100 of a budget lock, 8 names). Loops that wait
  take the list of what happens while they wait; a result \<open>None\<close> means still waiting, and where the code promises to end (the control stream,
  the drain) that is a theorem. No other fuel is used. A \<^verbatim>\<open>float64\<close> has 53 significant bits and no bound on its exponent, which is faithful for token
  counts and quotients of durations. Sorted-set scores are millisecond times, which a \<^verbatim>\<open>float64\<close> holds exactly, so they are integers.

  \<^bold>\<open>Not modelled.\<close> The loop of \<^verbatim>\<open>acme/chain.go\<close> over the authorities with its lazily built clients (\<^verbatim>\<open>lazy.go\<close>, \<^verbatim>\<open>lego_client.go\<close>), which surrounds
  a third-party client library: it is an argument of enrollment and of the reserved hosts. Ban lists, whose verdict is an argument of the edge and
  of the phone endpoint. The cursor scans behind the admin listing (\<^verbatim>\<open>ScanTunnels\<close>, \<^verbatim>\<open>Nodes\<close>). Construction and timers of the server, configuration, metrics, logging and
  error reports, which have no state of their own beyond the components. Cryptography, path validation, JSON, PEM and HTTP dates, which are
  arguments. Recovery from panics. The client, report, load and test programs beside the daemon.
\<close>

end
